(* ===== verification/Prelude.thy ===== *)
theory Prelude
  imports Main "HOL-Library.Word"
begin

text \<open>
  Shared vocabulary of the development: the machine types of the 32-bit build, C strings,
  abnormal outcomes of C and C++ code as values of a sum type, fixed-size output buffers,
  and the interface of the case-insensitive string maps.
\<close>

unbundle bit_operations_syntax

section \<open>Machine types\<close>

text \<open>
  The component is a 32-bit Windows DLL: \<open>size_t\<close>, \<open>DWORD\<close> and \<open>UINT\<close> are 32 bits wide.
  A character of a C or C++ string is read through \<open>unsigned char\<close> or \<open>BYTE\<close> wherever
  its value matters, so a string is a list of bytes.
\<close>

type_synonym byte = "8 word"
type_synonym u32 = "32 word"
type_synonym bytes = "byte list"

definition bytes_of :: "string \<Rightarrow> bytes" where
  "bytes_of s = map of_char s"

definition chars_of :: "bytes \<Rightarrow> string" where
  "chars_of xs = map (\<lambda>c. char_of (unat c)) xs"

lemma length_bytes_of [simp]: "length (bytes_of s) = length s"
  by (simp add: bytes_of_def)

lemma bytes_of_Nil [simp]: "bytes_of [] = []"
  by (simp add: bytes_of_def)

lemma bytes_of_Cons [simp]: "bytes_of (c # s) = of_char c # bytes_of s"
  by (simp add: bytes_of_def)

section \<open>Bytes\<close>

lemma unat_byte [simp]: "unat (x :: byte) < 256"
  using unsigned_less [of x] by simp

lemma less_8_cases:
  "n < 8 \<longleftrightarrow> n = 0 \<or> n = 1 \<or> n = 2 \<or> n = 3 \<or> n = 4 \<or> n = 5 \<or> n = 6 \<or> n = (7::nat)"
  by auto

lemma byte_bit_ge: "8 \<le> n \<Longrightarrow> \<not> bit (x :: byte) n"
  by (auto dest: bit_imp_le_length)

lemmas byte_bits = bit_simps less_8_cases byte_bit_ge

lemma unat_and_mask:
  "unat (x AND (2 ^ n - 1) :: byte) = unat x mod 2 ^ n"
proof -
  have "x AND (2 ^ n - 1) = take_bit n x" by (simp add: take_bit_eq_mask mask_eq_exp_minus_1)
  then have "unat (x AND (2 ^ n - 1)) = take_bit n (unat x)" by (simp only: unsigned_take_bit_eq)
  then show ?thesis by (simp add: take_bit_eq_mod)
qed

lemma unat_byte_add: "unat a + unat b < 256 \<Longrightarrow> unat (a + b :: byte) = unat a + unat b"
  by (simp add: unat_word_ariths)

lemma unat_shift_up:
  assumes "unat (x :: byte) * 2 ^ n < 256"
  shows "unat (push_bit n x) = unat x * 2 ^ n"
  proof -
  have "unat (push_bit n x) = take_bit 8 (push_bit n (unat x))"
    by (subst unsigned_push_bit_eq) simp
  with assms show ?thesis by (simp add: push_bit_eq_mult take_bit_eq_mod)
qed

lemma unat_shift_down: "unat (drop_bit n (x :: byte)) = unat x div 2 ^ n"
  by (subst unat_drop_bit_eq) (simp only: drop_bit_eq_div)

lemma unat_of_nat_u32: "n < 2 ^ 32 \<Longrightarrow> unat (of_nat n :: u32) = n"
  by (simp add: unat_of_nat)

lemma nat_divmod:
  fixes n d :: nat
  assumes "0 < d"
  obtains q r where "n = d * q + r" "r < d" "n div d = q" "n mod d = r"
  using assms that by (metis mod_less_divisor mult_div_mod_eq)

section \<open>Bytes as wider numbers, and characters as bytes\<close>

lemma take_bit_byte: "take_bit 32 (unat (x :: byte)) = unat x"
  by (rule take_bit_nat_eq_self) (rule less_trans [OF unat_byte], simp)

lemma ucast_u32_eq [simp]: "(ucast (a :: byte) :: u32) = ucast b \<longleftrightarrow> a = b"
  by (simp add: word_unat_eq_iff unsigned_ucast_eq take_bit_byte)

lemma ucast_u32_0 [simp]: "(ucast (c :: byte) :: u32) = 0 \<longleftrightarrow> c = 0"
  using ucast_u32_eq [of c 0] by simp

lemma ucast_u32_less: "(ucast (x :: byte) :: u32) < 256"
  using unat_byte [of x] by (simp add: word_less_nat_alt unsigned_ucast_eq take_bit_byte)

lemma ucast_ucast_byte: "(ucast (ucast (x :: byte) :: u32) :: byte) = x"
  by (simp add: word_unat_eq_iff unsigned_ucast_eq unsigned_take_bit_eq take_bit_byte)

lemma unat_of_char: "unat (of_char c :: byte) = of_char c"
  unfolding of_nat_of_char [symmetric, where 'a = byte]
  using nat_of_char_less_256 [of c] by (simp add: unat_of_nat)

lemma bytes_of_inject: "bytes_of m = bytes_of n \<longleftrightarrow> m = n"
proof
  assume "bytes_of m = bytes_of n"
  moreover have "map (\<lambda>c. char_of (unat c)) (bytes_of s) = s" for s
    by (induction s) (simp_all add: unat_of_char)
  ultimately show "m = n" by metis
qed simp

section \<open>Linear searches\<close>

lemma find_None: "find P xs = None \<longleftrightarrow> (\<forall>a \<in> set xs. \<not> P a)"
  by (auto simp: find_None_iff)

lemma find_SomeD: "find P xs = Some a \<Longrightarrow> a \<in> set xs \<and> P a"
  by (auto simp: find_Some_iff)

lemma find_append: "find P (xs @ ys) = (case find P xs of None \<Rightarrow> find P ys | Some x \<Rightarrow> Some x)"
  by (induction xs) auto

lemma find_map: "find P (map f xs) = map_option f (find (P \<circ> f) xs)"
  by (induction xs) auto

lemma find_cong_set: "(\<And>x. x \<in> set xs \<Longrightarrow> P x = Q x) \<Longrightarrow> find P xs = find Q xs"
  by (induction xs) auto

lemma find_skip: "\<not> P x \<Longrightarrow> find P (xs @ x # ys) = find P (xs @ ys)"
  by (induction xs) auto

section \<open>Abnormal outcomes\<close>

text \<open>
  What C or C++ leaves undefined, and what leaves a function through an exception:
  a read or a write outside an object, a null pointer that is dereferenced, the use of a
  stream or of memory after its release, \<open>std::length_error\<close>, a variable argument that is
  read at another type than it was passed with, memory that is released by the wrong form of
  \<open>delete\<close>, and the exception
  \<open>RuntimeError\<close> raises to the 1C runtime.
\<close>

datatype fault =
    OobRead
  | OobWrite
  | NullDeref
  | UseAfterFree
  | LengthError
  | BadArgument
  | BadDelete
  | RuntimeError string

type_synonym 'a outcome = "fault + 'a"

definition bindE :: "'e + 'a \<Rightarrow> ('a \<Rightarrow> 'e + 'b) \<Rightarrow> 'e + 'b" where
  "bindE m f = (case m of Inl e \<Rightarrow> Inl e | Inr x \<Rightarrow> f x)"

lemma bindE_simps [simp]:
  "bindE (Inl e) f = Inl e"
  "bindE (Inr x) f = f x"
  by (simp_all add: bindE_def)

lemma bindE_Inr_iff: "bindE m f = Inr y \<longleftrightarrow> (\<exists>x. m = Inr x \<and> f x = Inr y)"
  by (cases m) auto

lemma bindE_assoc: "bindE (bindE m f) g = bindE m (\<lambda>x. bindE (f x) g)"
  by (cases m) auto

text \<open>The same for code that need not end.\<close>

definition bindO :: "('e + 'a) option \<Rightarrow> ('a \<Rightarrow> ('e + 'b) option) \<Rightarrow> ('e + 'b) option" where
  "bindO m f = (case m of None \<Rightarrow> None | Some (Inl e) \<Rightarrow> Some (Inl e) | Some (Inr x) \<Rightarrow> f x)"

lemma bindO_simps [simp]:
  "bindO None f = None"
  "bindO (Some (Inl e)) f = Some (Inl e)"
  "bindO (Some (Inr x)) f = f x"
  by (simp_all add: bindO_def)

lemma bindO_Inr_iff: "bindO m f = Some (Inr y) \<longleftrightarrow> (\<exists>x. m = Some (Inr x) \<and> f x = Some (Inr y))"
  by (simp add: bindO_def split: option.splits sum.splits)

section \<open>C strings\<close>

text \<open>
  A pointer into a NUL-terminated string is the list of bytes from there on. Reading at
  the end of the list gives the terminator; a zero byte inside the list ends the string
  as well, so \<open>c_str\<close> is what the C functions see.
\<close>

fun symbol :: "bytes \<Rightarrow> byte" where
  "symbol [] = 0"
| "symbol (c # _) = c"

fun c_str :: "bytes \<Rightarrow> bytes" where
  "c_str [] = []"
| "c_str (c # cs) = (if c = 0 then [] else c # c_str cs)"

definition strlen :: "bytes \<Rightarrow> nat" where
  "strlen s = length (c_str s)"

lemma c_str_no_nul: "0 \<notin> set (c_str s)"
  by (induction s) auto

lemma c_str_id [simp]: "0 \<notin> set s \<Longrightarrow> c_str s = s"
  by (induction s) auto

lemma c_str_c_str [simp]: "c_str (c_str s) = c_str s"
  by (simp add: c_str_no_nul)

lemma c_str_append: "0 \<notin> set s \<Longrightarrow> c_str (s @ [0]) = s"
  by (induction s) auto

lemma length_c_str_le: "length (c_str s) \<le> length s"
  by (induction s) auto

lemma set_c_str_subset: "set (c_str s) \<subseteq> set s"
  by (induction s) auto

section \<open>Fixed-size output buffers\<close>

text \<open>
  A destination whose size is set before it is filled, with a write position: the pair
  \<open>out\<close>, \<open>enc_len\<close> of an encoder. A write past the end of the buffer is a fault.
\<close>

record outbuf =
  cells :: bytes
  pos :: nat

definition put :: "byte \<Rightarrow> outbuf \<Rightarrow> outbuf outcome" where
  "put c b =
     (if pos b < length (cells b)
      then Inr (b\<lparr>cells := (cells b)[pos b := c], pos := pos b + 1\<rparr>)
      else Inl OobWrite)"

fun puts :: "bytes \<Rightarrow> outbuf \<Rightarrow> outbuf outcome" where
  "puts [] b = Inr b"
| "puts (c # cs) b = bindE (put c b) (puts cs)"

lemma puts_append: "puts (xs @ ys) b = bindE (puts xs b) (puts ys)"
  by (induction xs arbitrary: b) (auto simp: bindE_assoc bindE_def split: sum.splits)

text \<open>The bytes written so far.\<close>

definition written :: "outbuf \<Rightarrow> bytes" where
  "written b = take (pos b) (cells b)"

lemma put_ok:
  assumes "pos b < length (cells b)"
  shows "\<exists>b'. put c b = Inr b' \<and> length (cells b') = length (cells b) \<and>
           pos b' = pos b + 1 \<and> written b' = written b @ [c]"
  using assms by (simp add: put_def written_def take_Suc_conv_app_nth)

lemma puts_ok:
  assumes "pos b + length cs \<le> length (cells b)"
  shows "\<exists>b'. puts cs b = Inr b' \<and> length (cells b') = length (cells b) \<and>
           pos b' = pos b + length cs \<and> written b' = written b @ cs"
  using assms
proof (induction cs arbitrary: b)
  case Nil
  then show ?case by simp
next
  case (Cons c cs)
  then have "pos b < length (cells b)" by simp
  from put_ok [OF this, of c] obtain b1 where
    b1: "put c b = Inr b1" "length (cells b1) = length (cells b)"
        "pos b1 = pos b + 1" "written b1 = written b @ [c]" by blast
  with Cons.prems have "pos b1 + length cs \<le> length (cells b1)" by simp
  from Cons.IH [OF this] b1 show ?case by auto
qed

lemma puts_fault:
  assumes "length (cells b) < pos b + length cs" "pos b \<le> length (cells b)"
  shows "puts cs b = Inl OobWrite"
  using assms
proof (induction cs arbitrary: b)
  case Nil
  then show ?case by simp
next
  case (Cons c cs)
  show ?case
  proof (cases "pos b < length (cells b)")
    case True
    with Cons.prems show ?thesis by (auto simp: put_def intro: Cons.IH)
  next
    case False
    then show ?thesis by (simp add: put_def)
  qed
qed

lemma puts_result:
  assumes "p + length xs \<le> length cs"
  shows "puts xs \<lparr>cells = cs, pos = p\<rparr> =
    Inr \<lparr>cells = take p cs @ xs @ drop (p + length xs) cs, pos = p + length xs\<rparr>"
  using assms
proof (induction xs arbitrary: cs p)
  case Nil
  then show ?case by simp
next
  case (Cons x xs)
  then have "p < length cs" by simp
  with Cons show ?case by (simp add: put_def take_Suc_conv_app_nth take_update_cancel)
qed

lemma puts_fill:
  "length cs = length xs \<Longrightarrow>
     puts xs \<lparr>cells = cs, pos = 0\<rparr> = Inr \<lparr>cells = xs, pos = length xs\<rparr>"
  using puts_result [of 0 xs cs] by simp

lemma puts_front:
  "length xs \<le> length cs \<Longrightarrow>
     puts xs \<lparr>cells = cs, pos = 0\<rparr> = Inr \<lparr>cells = xs @ drop (length xs) cs, pos = length xs\<rparr>"
  using puts_result [of 0 xs cs] by simp

end
