(* ===== verification/Base64.thy ===== *)
theory Base64
  imports Prelude
begin

text \<open>
  \<open>curl1c/base64.h\<close>: the component's own Base64 codec, class \<open>Base64\<close>. Both overloads of
  \<open>Encode\<close> and \<open>Decode\<close> fill a destination whose size is computed first; the theory shows
  that encoding is the RFC 4648 encoding and stays inside its buffer, that decoding
  inverts it, and for which inputs decoding runs past its buffer.

  The local arrays \<open>a3\<close> and \<open>a4\<close> are the lists of the bytes stored in them since the
  counter \<open>i\<close> was last 0, so \<open>i\<close> is the length of the list; the cells beyond \<open>i\<close> are never
  read before they are zeroed.
\<close>

section \<open>Model\<close>

definition kBase64Alphabet :: bytes where
  "kBase64Alphabet = bytes_of
     ''ABCDEFGHIJKLMNOPQRSTUVWXYZabcdefghijklmnopqrstuvwxyz0123456789+/''"

abbreviation eq_sign :: byte where
  "eq_sign \<equiv> 0x3D"

definition a3_to_a4 :: "bytes \<Rightarrow> bytes" where
  "a3_to_a4 a3 =
     [drop_bit 2 (a3 ! 0 AND 0xfc),
      push_bit 4 (a3 ! 0 AND 0x03) + drop_bit 4 (a3 ! 1 AND 0xf0),
      push_bit 2 (a3 ! 1 AND 0x0f) + drop_bit 6 (a3 ! 2 AND 0xc0),
      a3 ! 2 AND 0x3f]"

definition a4_to_a3 :: "bytes \<Rightarrow> bytes" where
  "a4_to_a3 a4 =
     [push_bit 2 (a4 ! 0) + drop_bit 4 (a4 ! 1 AND 0x30),
      push_bit 4 (a4 ! 1 AND 0xf) + drop_bit 2 (a4 ! 2 AND 0x3c),
      push_bit 6 (a4 ! 2 AND 0x3) + a4 ! 3]"

definition b64_lookup :: "byte \<Rightarrow> byte" where
  "b64_lookup c =
     (if 0x41 \<le> c \<and> c \<le> 0x5A then c - 0x41
      else if 0x61 \<le> c \<and> c \<le> 0x7A then c - 71
      else if 0x30 \<le> c \<and> c \<le> 0x39 then c + 4
      else if c = 0x2B then 62
      else if c = 0x2F then 63
      else 255)"

definition EncodedLength :: "u32 \<Rightarrow> u32" where
  "EncodedLength len = (len + 2 - ((len + 2) mod 3)) div 3 * 4"

text \<open>
  The reverse scan for padding stops at the first byte that is not an equals sign; on a
  string that has none it reads before the first byte.
\<close>

fun count_eq :: "bytes \<Rightarrow> nat outcome" where
  "count_eq [] = Inl OobRead"
| "count_eq (c # cs) = (if c = eq_sign then bindE (count_eq cs) (\<lambda>n. Inr (Suc n)) else Inr 0)"

definition DecodedLength :: "bytes \<Rightarrow> u32 outcome" where
  "DecodedLength inp =
     bindE (count_eq (rev inp))
       (\<lambda>numEq. Inr ((6 * of_nat (length inp)) div 8 - of_nat numEq))"

definition DecodedLength_ptr :: "bytes \<Rightarrow> u32 outcome" where
  "DecodedLength_ptr inp =
     bindE (count_eq (rev inp))
       (\<lambda>numEq. Inr ((6 * of_nat (length inp)) div 8 - of_nat numEq))"

text \<open>\<open>std::string::resize\<close>; \<open>max_size\<close> is the library's limit on the size of a string.\<close>

definition resize :: "nat \<Rightarrow> nat \<Rightarrow> bytes \<Rightarrow> bytes outcome" where
  "resize max_size n xs =
     (if max_size < n then Inl LengthError else Inr (take n xs @ replicate (n - length xs) 0))"

fun enc_loop :: "bytes \<Rightarrow> bytes \<Rightarrow> outbuf \<Rightarrow> (bytes \<times> outbuf) outcome" where
  "enc_loop [] a3 b = Inr (a3, b)"
| "enc_loop (c # input) a3 b =
     (let a3' = a3 @ [c] in
      if length a3' = 3
      then bindE (puts (map (\<lambda>v. kBase64Alphabet ! unat v) (a3_to_a4 a3')) b) (enc_loop input [])
      else enc_loop input a3' b)"

definition enc_tail :: "bytes \<Rightarrow> outbuf \<Rightarrow> outbuf outcome" where
  "enc_tail a3 b =
     (let i = length a3 in
      if i = 0 then Inr b
      else let a4 = a3_to_a4 (a3 @ replicate (3 - i) 0) in
           bindE (puts (map (\<lambda>v. kBase64Alphabet ! unat v) (take (i + 1) a4)) b)
             (puts (replicate (3 - i) eq_sign)))"

definition enc_all :: "bytes \<Rightarrow> outbuf \<Rightarrow> outbuf outcome" where
  "enc_all inp b = bindE (enc_loop inp [] b) (\<lambda>(a3, b'). enc_tail a3 b')"

definition Encode :: "nat \<Rightarrow> bytes \<Rightarrow> bytes \<Rightarrow> (bool \<times> bytes) outcome" where
  "Encode max_size inp out =
     bindE (resize max_size (unat (EncodedLength (of_nat (length inp)))) out)
       (\<lambda>cs. bindE (enc_all inp \<lparr>cells = cs, pos = 0\<rparr>)
         (\<lambda>b. Inr (pos b = length (cells b), cells b)))"

definition Encode_ptr :: "bytes \<Rightarrow> bytes \<Rightarrow> (bool \<times> bytes) outcome" where
  "Encode_ptr inp out =
     (let encoded_length = EncodedLength (of_nat (length inp)) in
      if of_nat (length out) < encoded_length then Inr (False, out)
      else bindE (enc_all inp \<lparr>cells = out, pos = 0\<rparr>)
             (\<lambda>b. Inr (pos b = unat encoded_length, cells b)))"

fun dec_loop :: "bytes \<Rightarrow> bytes \<Rightarrow> outbuf \<Rightarrow> (bytes \<times> outbuf) outcome" where
  "dec_loop [] a4 b = Inr (a4, b)"
| "dec_loop (c # input) a4 b =
     (if c = eq_sign then Inr (a4, b)
      else let a4' = a4 @ [c] in
           if length a4' = 4
           then bindE (puts (a4_to_a3 (map b64_lookup a4')) b) (dec_loop input [])
           else dec_loop input a4' b)"

definition dec_tail :: "bytes \<Rightarrow> outbuf \<Rightarrow> outbuf outcome" where
  "dec_tail a4 b =
     (let i = length a4 in
      if i = 0 then Inr b
      else puts (take (i - 1) (a4_to_a3 (map b64_lookup (a4 @ replicate (4 - i) 0)))) b)"

definition dec_all :: "bytes \<Rightarrow> outbuf \<Rightarrow> outbuf outcome" where
  "dec_all inp b = bindE (dec_loop inp [] b) (\<lambda>(a4, b'). dec_tail a4 b')"

definition Decode :: "nat \<Rightarrow> bytes \<Rightarrow> bytes \<Rightarrow> (bool \<times> bytes) outcome" where
  "Decode max_size inp out =
     bindE (DecodedLength inp)
       (\<lambda>n. bindE (resize max_size (unat n) out)
         (\<lambda>cs. bindE (dec_all inp \<lparr>cells = cs, pos = 0\<rparr>)
           (\<lambda>b. Inr (pos b = length (cells b), cells b))))"

definition Decode_ptr :: "bytes \<Rightarrow> bytes \<Rightarrow> (bool \<times> bytes) outcome" where
  "Decode_ptr inp out =
     bindE (DecodedLength_ptr inp)
       (\<lambda>decoded_length.
         if of_nat (length out) < decoded_length then Inr (False, out)
         else bindE (dec_all inp \<lparr>cells = out, pos = 0\<rparr>)
                (\<lambda>b. Inr (pos b = unat decoded_length, cells b)))"

fun StripPadding_rev :: "bytes \<Rightarrow> bytes" where
  "StripPadding_rev [] = []"
| "StripPadding_rev (c # cs) = (if c = eq_sign then StripPadding_rev cs else c # cs)"

definition StripPadding :: "bytes \<Rightarrow> bytes" where
  "StripPadding s = rev (StripPadding_rev (rev s))"

section \<open>Reference encoding\<close>

text \<open>
  RFC 4648, section 4: three bytes form a 24-bit number whose four base-64 digits are
  looked up in the alphabet; a last group of one or two bytes is filled with zeros and
  the digits that carry no input are written as equals signs.
\<close>

definition rfc_group :: "byte \<Rightarrow> byte \<Rightarrow> byte \<Rightarrow> bytes" where
  "rfc_group x y z =
     (let n = unat x * 65536 + unat y * 256 + unat z in
      map (\<lambda>d. kBase64Alphabet ! d)
        [n div 262144 mod 64, n div 4096 mod 64, n div 64 mod 64, n mod 64])"

fun rfc_encode :: "bytes \<Rightarrow> bytes" where
  "rfc_encode [] = []"
| "rfc_encode [x] = take 2 (rfc_group x 0 0) @ [eq_sign, eq_sign]"
| "rfc_encode [x, y] = take 3 (rfc_group x y 0) @ [eq_sign]"
| "rfc_encode (x # y # z # rest) = rfc_group x y z @ rfc_encode rest"

section \<open>Groups of three bytes\<close>

lemma rfc_digit0:
  assumes "Y < 256" "Z < 256" "X < 256"
  shows "(X * 65536 + Y * 256 + Z) div 262144 mod 64 = X div (4::nat)"
proof -
  obtain q r where X: "X = 4 * q + r" "r < 4" "X div 4 = q" "X mod 4 = r"
    by (rule nat_divmod [of 4 X]) auto
  have "(X * 65536 + Y * 256 + Z) div 262144 = q"
    using assms X(1,2) by (intro div_nat_eqI) auto
  with assms X show ?thesis by simp
qed

lemma rfc_digit1:
  assumes "Y < 256" "Z < 256"
  shows "(X * 65536 + Y * 256 + Z) div 4096 mod 64 = X mod 4 * 16 + Y div (16::nat)"
proof -
  obtain q r where X: "X = 4 * q + r" "r < 4" "X div 4 = q" "X mod 4 = r"
    by (rule nat_divmod [of 4 X]) auto
  obtain s t where Y: "Y = 16 * s + t" "t < 16" "Y div 16 = s" "Y mod 16 = t"
    by (rule nat_divmod [of 16 Y]) auto
  have "s < 16" using assms Y by auto
  have "(X * 65536 + Y * 256 + Z) div 4096 = X * 16 + s"
    using assms X(1,2) Y(1,2) by (intro div_nat_eqI) auto
  moreover have "(X * 16 + s) mod 64 = r * 16 + s"
    using X(1,2) \<open>s < 16\<close> by (intro mod_nat_eqI) auto
  ultimately show ?thesis using X Y by simp
qed

lemma rfc_digit2:
  assumes "Z < 256"
  shows "(X * 65536 + Y * 256 + Z) div 64 mod 64 = Y mod 16 * 4 + Z div (64::nat)"
proof -
  obtain q r where Z: "Z = 64 * q + r" "r < 64" "Z div 64 = q" "Z mod 64 = r"
    by (rule nat_divmod [of 64 Z]) auto
  obtain s t where Y: "Y = 16 * s + t" "t < 16" "Y div 16 = s" "Y mod 16 = t"
    by (rule nat_divmod [of 16 Y]) auto
  have "q < 4" using assms Z by auto
  have "(X * 65536 + Y * 256 + Z) div 64 = X * 1024 + (Y * 4 + q)"
    using Z(1,2) by (intro div_nat_eqI) auto
  moreover have "(X * 1024 + (Y * 4 + q)) mod 64 = t * 4 + q"
     using Y(1,2) \<open>q < 4\<close> by (intro mod_nat_eqI) (auto intro!: dvdI [of _ _ "X * 16 + s"])
  ultimately show ?thesis using Y Z by simp
qed

lemma rfc_digit3: "(X * 65536 + Y * 256 + Z) mod 64 = Z mod (64::nat)"
proof -
  have "X * 65536 + Y * 256 + Z = Z + 64 * (X * 1024 + Y * 4)" by simp
  then show ?thesis by (simp only: mod_mult_self2)
qed

lemma nth3: "[x, y, z] ! 0 = x" "[x, y, z] ! 1 = y" "[x, y, z] ! 2 = z" for x y z :: byte
  by simp_all

lemma nth4: "[x, y, z, w] ! 0 = x" "[x, y, z, w] ! 1 = y" "[x, y, z, w] ! 2 = z" "[x, y, z, w] ! 3 = w" for x y z w :: byte
  by simp_all

lemma unat_a3_to_a4:
  "map unat (a3_to_a4 [x, y, z]) =
     [unat x div 4, unat x mod 4 * 16 + unat y div 16, unat y mod 16 * 4 + unat z div 64,
      unat z mod 64]"
proof -
  have d: "drop_bit 2 (x AND 0xfc) = drop_bit 2 x" "drop_bit 4 (y AND 0xf0) = drop_bit 4 y"
     "drop_bit 6 (z AND 0xc0) = drop_bit 6 z"
    by (rule bit_word_eqI; auto simp: byte_bits)+
  have m: "unat (x AND 0x03) = unat x mod 4" "unat (y AND 0x0f) = unat y mod 16"
     "unat (z AND 0x3f) = unat z mod 64"
    using unat_and_mask [of x 2] unat_and_mask [of y 4] unat_and_mask [of z 6] by simp_all
  have p: "unat (push_bit 4 (x AND 0x03)) = unat x mod 4 * 16"
     "unat (push_bit 2 (y AND 0x0f)) = unat y mod 16 * 4"
    using unat_shift_up [of "x AND 0x03" 4] unat_shift_up [of "y AND 0x0f" 2] 
    by (simp_all only: m) simp_all
  have q: "unat (drop_bit 4 y) = unat y div 16" "unat (drop_bit 6 z) = unat z div 64"
     "unat (drop_bit 2 x) = unat x div 4"
    using unat_shift_down [of 4 y] unat_shift_down [of 6 z] unat_shift_down [of 2 x] by simp_all
  have b: "unat x mod 4 * 16 + unat y div 16 < 256" "unat y mod 16 * 4 + unat z div 64 < 256"
    using unat_byte [of y] unat_byte [of z] by linarith+
  have "unat (push_bit 4 (x AND 0x03) + drop_bit 4 y) = unat x mod 4 * 16 + unat y div 16"
    by (subst unat_byte_add) (simp_all only: p q b)
  moreover have "unat (push_bit 2 (y AND 0x0f) + drop_bit 6 z) = unat y mod 16 * 4 + unat z div 64"
    by (subst unat_byte_add) (simp_all only: p q b)
  moreover have "a3_to_a4 [x, y, z] = [drop_bit 2 x, push_bit 4 (x AND 0x03) + drop_bit 4 y, push_bit 2 (y AND 0x0f) + drop_bit 6 z, z AND 0x3f]"
    by (simp only: a3_to_a4_def d nth3)
  ultimately show ?thesis by (simp only: list.map m q)
qed

lemma a3_to_a4_rfc: "map (\<lambda>v. kBase64Alphabet ! unat v) (a3_to_a4 [x, y, z]) = rfc_group x y z"
proof -
  have "map (\<lambda>v. kBase64Alphabet ! unat v) (a3_to_a4 [x, y, z]) =
        map (\<lambda>d. kBase64Alphabet ! d) (map unat (a3_to_a4 [x, y, z]))"
    by (simp only: map_map comp_def)
  also have "\<dots> = rfc_group x y z"
    by (simp only: unat_a3_to_a4 rfc_group_def Let_def rfc_digit0 rfc_digit1 rfc_digit2 rfc_digit3 unat_byte)
  finally show ?thesis .
qed

lemma a4_to_a3_inverse: "a4_to_a3 (a3_to_a4 [x, y, z]) = [x, y, z]"
proof -
  have o: "push_bit 4 (x AND 0x03) + drop_bit 4 (y AND 0xf0) = push_bit 4 (x AND 0x03) OR drop_bit 4 (y AND 0xf0)"
    "push_bit 2 (y AND 0x0f) + drop_bit 6 (z AND 0xc0) = push_bit 2 (y AND 0x0f) OR drop_bit 6 (z AND 0xc0)"
    by (rule disjunctive_add; auto simp: byte_bits)+
  have 1: "push_bit 2 (drop_bit 2 (x AND 0xfc)) + drop_bit 4 ((push_bit 4 (x AND 0x03) OR drop_bit 4 (y AND 0xf0)) AND 0x30) = x"
    by (subst disjunctive_add, (auto simp: byte_bits) [], rule bit_word_eqI, auto simp: byte_bits; simp add: numeral_2_eq_2 numeral_3_eq_3)
  have 2: "push_bit 4 ((push_bit 4 (x AND 3) OR drop_bit 4 (y AND 240)) AND 15) +
     drop_bit 2 ((push_bit 2 (y AND 15) OR drop_bit 6 (z AND 192)) AND 60) = y"
    by (subst disjunctive_add, (auto simp: byte_bits) [], rule bit_word_eqI, auto simp: byte_bits; simp add: numeral_2_eq_2 numeral_3_eq_3)
  have 3: "push_bit 6 ((push_bit 2 (y AND 15) OR drop_bit 6 (z AND 192)) AND 3) + (z AND 63) = z"
    by (subst disjunctive_add, (auto simp: byte_bits) [], rule bit_word_eqI, auto simp: byte_bits; simp add: numeral_2_eq_2 numeral_3_eq_3)
  show ?thesis unfolding a4_to_a3_def a3_to_a4_def by (simp only: nth3 nth4 o 1 2 3)
qed

section \<open>Encoding\<close>

lemma length_rfc_group [simp]: "length (rfc_group x y z) = 4"
  by (simp add: rfc_group_def Let_def)

lemma length_rfc_encode: "length (rfc_encode inp) = 4 * ((length inp + 2) div 3)"
proof (induction inp rule: rfc_encode.induct)
  case (4 x y z rest)
  have "(length rest + 5) div 3 = 1 + (length rest + 2) div 3" by presburger
  with 4 show ?case by (simp add: add.commute)
qed auto

lemma map_alphabet_take:
  "map (\<lambda>v. kBase64Alphabet ! unat v) (take n (a3_to_a4 [x, y, z])) = take n (rfc_group x y z)"
  by (simp only: take_map [symmetric] a3_to_a4_rfc)

lemma enc_all_puts: "enc_all inp b = puts (rfc_encode inp) b"
proof (induction inp arbitrary: b rule: rfc_encode.induct)
  case 1
  then show ?case by (simp add: enc_all_def enc_tail_def)
next
  case (2 x)
  have "enc_all [x] b = bindE (puts (take 2 (rfc_group x 0 0)) b) (puts [eq_sign, eq_sign])"
    by (simp add: enc_all_def enc_tail_def map_alphabet_take numeral_2_eq_2 del: puts.simps)
  then show ?case by (simp only: rfc_encode.simps puts_append)
next
  case (3 x y)
  have "enc_all [x, y] b = bindE (puts (take 3 (rfc_group x y 0)) b) (puts [eq_sign])"
    by (simp add: enc_all_def enc_tail_def map_alphabet_take numeral_3_eq_3 del: puts.simps)
  then show ?case by (simp only: rfc_encode.simps puts_append)
next
  case (4 x y z rest)
  have "enc_all (x # y # z # rest) b = bindE (puts (rfc_group x y z) b) (enc_all rest)"
    by (simp add: enc_all_def [abs_def] a3_to_a4_rfc bindE_assoc del: puts.simps)
  also have "\<dots> = bindE (puts (rfc_group x y z) b) (puts (rfc_encode rest))"
    using "4.IH" by presburger
  finally show ?case by (simp only: rfc_encode.simps puts_append)
qed

lemma EncodedLength_nat:
  assumes "n \<le> 3221225469"
  shows "unat (EncodedLength (of_nat n)) = 4 * ((n + 2) div 3)"
proof -
  have "(of_nat n + 2 :: u32) = of_nat (n + 2)" by simp
  then have 1: "unat (of_nat n + 2 :: u32) = n + 2" using assms by (simp only: unat_of_nat) simp
  then have 2: "unat ((of_nat n + 2) mod 3 :: u32) = (n + 2) mod 3" by (simp add: unat_mod)
  have "(of_nat n + 2) mod 3 \<le> (of_nat n + 2 :: u32)" by (simp add: word_le_nat_alt 1 2)
  then have 3: "unat (of_nat n + 2 - ((of_nat n + 2) mod 3) :: u32) = n + 2 - (n + 2) mod 3" 
    by (simp only: unat_sub 1 2)
  have 4: "(n + 2 - (n + 2) mod 3) div 3 = (n + 2) div 3"
    by (metis minus_mod_eq_mult_div nonzero_mult_div_cancel_left zero_neq_numeral)
  have "4 * ((n+2) div 3) < 2^32" using assms by simp
  moreover have "unat (3 :: u32) = 3" "unat (4 :: u32) = 4" by simp_all
  ultimately show ?thesis
    unfolding EncodedLength_def by (simp only: unat_word_ariths(2) unat_div 3 4) simp
qed

lemma resize_ok: "n \<le> max_size \<Longrightarrow> \<exists>cs. resize max_size n out = Inr cs \<and> length cs = n"
  by (auto simp: resize_def)

lemma Encode_rfc:
  assumes "length inp \<le> 3221225469" and "length (rfc_encode inp) \<le> max_size"
  shows "Encode max_size inp out = Inr (True, rfc_encode inp)"
proof -
  have len: "unat (EncodedLength (of_nat (length inp))) = length (rfc_encode inp)"
    using assms(1) by (simp add: EncodedLength_nat length_rfc_encode)
  from resize_ok [OF assms(2)] obtain cs where cs:
    "resize max_size (length (rfc_encode inp)) out = Inr cs" "length cs = length (rfc_encode inp)" by blast
  from puts_fill [OF cs(2)] show ?thesis by (simp add: Encode_def enc_all_puts len cs(1))
qed

section \<open>Decoding\<close>

lemma alphabet_bytes:
  "kBase64Alphabet =
    [0x41, 0x42, 0x43, 0x44, 0x45, 0x46, 0x47, 0x48, 0x49, 0x4a, 0x4b, 0x4c, 0x4d, 0x4e, 0x4f,
     0x50, 0x51, 0x52, 0x53, 0x54, 0x55, 0x56, 0x57, 0x58, 0x59, 0x5a, 0x61, 0x62, 0x63, 0x64,
     0x65, 0x66, 0x67, 0x68, 0x69, 0x6a, 0x6b, 0x6c, 0x6d, 0x6e, 0x6f, 0x70, 0x71, 0x72, 0x73,
     0x74, 0x75, 0x76, 0x77, 0x78, 0x79, 0x7a, 0x30, 0x31, 0x32, 0x33, 0x34, 0x35, 0x36, 0x37,
     0x38, 0x39, 0x2b, 0x2f]"
  by (simp add: kBase64Alphabet_def)

lemma alphabet_table:
  "map b64_lookup kBase64Alphabet = map of_nat [0..<64]"
  "eq_sign \<notin> set kBase64Alphabet" "0 \<notin> set kBase64Alphabet"
  by (simp_all add: alphabet_bytes b64_lookup_def upt_conv_Cons)

lemma length_alphabet: "length kBase64Alphabet = 64"
  by (simp add: kBase64Alphabet_def)

lemma alphabet_lookup:
  assumes "n < 64"
  shows "b64_lookup (kBase64Alphabet ! n) = of_nat n" "kBase64Alphabet ! n \<noteq> eq_sign"
    "kBase64Alphabet ! n \<noteq> 0"
proof -
  have "map b64_lookup kBase64Alphabet ! n = map of_nat [0..<64] ! n"
    by (simp only: alphabet_table)
  then show "b64_lookup (kBase64Alphabet ! n) = of_nat n"
    using assms by (simp only: nth_map length_alphabet length_upt nth_upt) simp
  have "kBase64Alphabet ! n \<in> set kBase64Alphabet"
    using assms by (simp only: nth_mem length_alphabet)
  then show "kBase64Alphabet ! n \<noteq> eq_sign" "kBase64Alphabet ! n \<noteq> 0"
    using alphabet_table(2,3) by metis+
qed

lemma two_digits: "a < m \<Longrightarrow> b < n \<Longrightarrow> a * n + b < m * (n::nat)"
proof -
  assume "a < m" "b < n"
  then have "a * n + b < Suc a * n" by simp
  also have "\<dots> \<le> m * n" using \<open>a < m\<close> by (intro mult_le_mono1) simp
  finally show ?thesis .
qed

lemma a3_to_a4_less_64: "list_all (\<lambda>v. unat v < 64) (a3_to_a4 [x, y, z])"
proof -
  have d: "unat x div 4 < 64" "unat y div 16 < 16" "unat z div 64 < 4"
    by (rule less_mult_imp_div_less, simp)+
  have "unat x mod 4 < 4" "unat y mod 16 < 16" "unat z mod 64 < 64" by simp_all
  then have "list_all (\<lambda>d. d < 64) (map unat (a3_to_a4 [x, y, z]))"
    unfolding unat_a3_to_a4
    using d two_digits [of "unat x mod 4" 4 "unat y div 16" 16]
      two_digits [of "unat y mod 16" 16 "unat z div 64" 4]
    by (simp only: list.pred_inject simp_thms) simp
  then show ?thesis by (simp only: list.pred_map comp_def)
qed

lemma alphabet_list:
  assumes "list_all (\<lambda>v. unat v < 64) vs"
  shows "map b64_lookup (map (\<lambda>v. kBase64Alphabet ! unat v) vs) = vs"
    "eq_sign \<notin> set (map (\<lambda>v. kBase64Alphabet ! unat v) vs)"
    "0 \<notin> set (map (\<lambda>v. kBase64Alphabet ! unat v) vs)"
proof -
  have "\<forall>v \<in> set vs. b64_lookup (kBase64Alphabet ! unat v) = v \<and>
      kBase64Alphabet ! unat v \<noteq> eq_sign \<and> kBase64Alphabet ! unat v \<noteq> 0"
    using assms by (simp add: list_all_iff alphabet_lookup)
  then show "map b64_lookup (map (\<lambda>v. kBase64Alphabet ! unat v) vs) = vs"
    "eq_sign \<notin> set (map (\<lambda>v. kBase64Alphabet ! unat v) vs)"
    "0 \<notin> set (map (\<lambda>v. kBase64Alphabet ! unat v) vs)"
    by (auto simp: map_idI)
qed

lemmas rfc_group_lookup = alphabet_list [OF a3_to_a4_less_64, unfolded a3_to_a4_rfc]

lemma rfc_group_quad:
  obtains c0 c1 c2 c3 where "rfc_group x y z = [c0, c1, c2, c3]"
    "c0 \<noteq> eq_sign" "c1 \<noteq> eq_sign" "c2 \<noteq> eq_sign" "c3 \<noteq> eq_sign"
    "a4_to_a3 (map b64_lookup [c0, c1, c2, c3]) = [x, y, z]"
proof -
  have "length (rfc_group x y z) = Suc (Suc (Suc (Suc 0)))" by simp
  then obtain c0 c1 c2 c3 where g: "rfc_group x y z = [c0, c1, c2, c3]"
    by (auto simp only: length_Suc_conv length_0_conv)
  moreover have "a4_to_a3 (map b64_lookup [c0, c1, c2, c3]) = [x, y, z]"
    using rfc_group_lookup(1) [of x y z] by (simp only: g a4_to_a3_inverse)
  moreover have "eq_sign \<notin> set [c0, c1, c2, c3]"
    using rfc_group_lookup(2) [of x y z] by (simp only: g) simp
  ultimately show ?thesis using that by auto
qed

lemma a4_to_a3_prefix:
  assumes "a4_to_a3 [p, q, r, s] = [x, y, z]"
  shows "take 1 (a4_to_a3 [p, q, r', s']) = [x]" "take 2 (a4_to_a3 [p, q, r, s']) = [x, y]"
  using assms by (simp_all add: a4_to_a3_def numeral_2_eq_2)

lemma dec_all_rfc: "dec_all (rfc_encode inp) b = puts inp b"
proof (induction inp arbitrary: b rule: rfc_encode.induct)
  case 1
  then show ?case by (simp add: dec_all_def dec_tail_def)
next
  case (2 x)
  obtain c0 c1 c2 c3 where g: "rfc_group x 0 0 = [c0, c1, c2, c3]" "c0 \<noteq> eq_sign" "c1 \<noteq> eq_sign"
    and inv: "a4_to_a3 (map b64_lookup [c0, c1, c2, c3]) = [x, 0, 0]"
    by (rule rfc_group_quad [of x 0 0])
  have "take (Suc 0) (a4_to_a3 [b64_lookup c0, b64_lookup c1, b64_lookup 0, b64_lookup 0]) = [x]"
    using a4_to_a3_prefix(1) inv by simp
  then show ?case using g
    by (simp add: dec_all_def dec_tail_def numeral_2_eq_2 del: puts.simps)
next
  case (3 x y)
  obtain c0 c1 c2 c3 where g: "rfc_group x y 0 = [c0, c1, c2, c3]" "c0 \<noteq> eq_sign" "c1 \<noteq> eq_sign"
    "c2 \<noteq> eq_sign" and inv: "a4_to_a3 (map b64_lookup [c0, c1, c2, c3]) = [x, y, 0]"
    by (rule rfc_group_quad [of x y 0])
  have "take (Suc (Suc 0)) (a4_to_a3 [b64_lookup c0, b64_lookup c1, b64_lookup c2, b64_lookup 0]) = [x, y]"
    using a4_to_a3_prefix(2) inv by (simp add: numeral_2_eq_2)
  then show ?case using g
    by (simp add: dec_all_def dec_tail_def numeral_3_eq_3 del: puts.simps)
next
  case (4 x y z rest)
  obtain c0 c1 c2 c3 where g: "rfc_group x y z = [c0, c1, c2, c3]" "c0 \<noteq> eq_sign" "c1 \<noteq> eq_sign"
    "c2 \<noteq> eq_sign" "c3 \<noteq> eq_sign" and inv: "a4_to_a3 (map b64_lookup [c0, c1, c2, c3]) = [x, y, z]"
    by (rule rfc_group_quad [of x y z])
  have "dec_all (rfc_encode (x # y # z # rest)) b = bindE (puts [x, y, z] b) (dec_all (rfc_encode rest))"
    using g inv by (simp add: dec_all_def [abs_def] bindE_assoc del: puts.simps)
  also have "\<dots> = bindE (puts [x, y, z] b) (puts rest)"
    using "4.IH" by presburger
  also have "\<dots> = puts (x # y # z # rest) b"
    by (simp only: puts_append [symmetric] append.simps)
  finally show ?case .
qed

definition padding :: "nat \<Rightarrow> nat" where
  "padding n = (3 - n mod 3) mod 3"

lemma padding_simps [simp]:
  "padding 0 = 0" "padding (Suc 0) = 2" "padding (Suc (Suc 0)) = 1"
  "padding (Suc (Suc (Suc n))) = padding n"
  by (simp_all add: padding_def)

lemma count_eq_run: "c \<noteq> eq_sign \<Longrightarrow> count_eq (replicate k eq_sign @ c # cs) = Inr k"
  by (induction k) auto

lemma rfc_encode_tail:
  assumes "inp \<noteq> []"
  shows "\<exists>cs c. rfc_encode inp = cs @ c # replicate (padding (length inp)) eq_sign \<and> c \<noteq> eq_sign"
  using assms
proof (induction inp rule: rfc_encode.induct)
  case (2 x)
  obtain c0 c1 c2 c3 where "rfc_group x 0 0 = [c0, c1, c2, c3]" "c1 \<noteq> eq_sign"
    by (rule rfc_group_quad [of x 0 0])
  then have "rfc_encode [x] = [c0] @ c1 # replicate (padding (length [x])) eq_sign"
    by (simp add: numeral_2_eq_2)
  with \<open>c1 \<noteq> eq_sign\<close> show ?case by blast
next
  case (3 x y)
  obtain c0 c1 c2 c3 where "rfc_group x y 0 = [c0, c1, c2, c3]" "c2 \<noteq> eq_sign"
    by (rule rfc_group_quad [of x y 0])
  then have "rfc_encode [x, y] = [c0, c1] @ c2 # replicate (padding (length [x, y])) eq_sign"
    by simp
  with \<open>c2 \<noteq> eq_sign\<close> show ?case by blast
next
  case (4 x y z rest)
  show ?case
  proof (cases "rest = []")
    case True
    obtain c0 c1 c2 c3 where "rfc_group x y z = [c0, c1, c2, c3]" "c3 \<noteq> eq_sign"
      by (rule rfc_group_quad [of x y z])
    with True have "rfc_encode (x # y # z # rest) =
        [c0, c1, c2] @ c3 # replicate (padding (length (x # y # z # rest))) eq_sign"
      by simp
    with \<open>c3 \<noteq> eq_sign\<close> show ?thesis by blast
  next
    case False
    with "4.IH" obtain cs c where "rfc_encode rest = cs @ c # replicate (padding (length rest)) eq_sign" "c \<noteq> eq_sign" by blast
    then have "rfc_encode (x # y # z # rest) = (rfc_group x y z @ cs) @ c # replicate (padding (length (x # y # z # rest))) eq_sign" 
      by simp
    with \<open>c \<noteq> eq_sign\<close> show ?thesis by blast
  qed
qed simp

section \<open>Sizes of decoded strings\<close>

lemma padding_fills: "3 * ((n + 2) div 3) = n + padding n"
proof -
  obtain q r where n: "n = 3 * q + r" "r < 3" by (rule nat_divmod [of 3 n]) auto
  then have "r = 0 \<or> r = 1 \<or> r = 2" by auto
  moreover have "(3 * q + (r + 2)) div 3 = q + (r + 2) div 3" "(3 * q + r) mod 3 = r mod 3"
    by (simp_all only: div_mult_self4 mod_mult_self4)
  ultimately have "3 * ((3 * q + r + 2) div 3) = 3 * q + r + padding (3 * q + r)"
    unfolding padding_def by (auto simp only: add.assoc) simp_all
  then show ?thesis by (simp only: n(1))
qed

lemma padding_length: "6 * (4 * ((n + 2) div 3)) div 8 = n + padding n"
proof -
  have "6 * (4 * m) div 8 = 3 * m" for m :: nat by simp
  then show ?thesis by (simp only: padding_fills)
qed

lemma DecodedLength_eq:
  assumes "inp = cs @ c # replicate k eq_sign" "c \<noteq> eq_sign" "6 * length inp < 2 ^ 32"
  shows "DecodedLength inp = Inr (of_nat (6 * length inp div 8) - of_nat k)"
proof -
  have "rev inp = replicate k eq_sign @ c # rev cs" using assms(1) by simp
  then have "count_eq (rev inp) = Inr k" using count_eq_run [OF assms(2)] by simp
  moreover have "(6 * of_nat (length inp)) div 8 = (of_nat (6 * length inp div 8) :: u32)"
    using assms(3)
    by (intro word_unat_eq_iff [THEN iffD2]) (simp add: unat_div unat_word_ariths unat_of_nat)
  ultimately show ?thesis by (simp add: DecodedLength_def)
qed

lemma DecodedLength_rfc:
  assumes "inp \<noteq> []" "length inp \<le> 536870910"
  shows "DecodedLength (rfc_encode inp) = Inr (of_nat (length inp))"
proof -
  from rfc_encode_tail [OF assms(1)] obtain cs c where
    e: "rfc_encode inp = cs @ c # replicate (padding (length inp)) eq_sign" "c \<noteq> eq_sign" by blast
  have "(length inp + 2) div 3 \<le> 536870912 div 3" using assms(2) by (intro div_le_mono) simp
  then have "6 * length (rfc_encode inp) < 2 ^ 32" by (simp add: length_rfc_encode)
  moreover have "6 * length (rfc_encode inp) div 8 = length inp + padding (length inp)"
    using padding_length [of "length inp"] by (simp only: length_rfc_encode)
  ultimately show ?thesis using DecodedLength_eq [OF e] by simp
qed

lemma Decode_rfc:
  assumes "inp \<noteq> []" "length inp \<le> 536870910" "length inp \<le> max_size"
  shows "Decode max_size (rfc_encode inp) out = Inr (True, inp)"
proof -
  have len: "unat (of_nat (length inp) :: u32) = length inp"
    using assms(2) by (intro unat_of_nat_u32) simp
  from resize_ok [OF assms(3)] obtain cs where
    cs: "resize max_size (length inp) out = Inr cs" "length cs = length inp" by blast
  from puts_fill [OF cs(2)] show ?thesis
    by (simp add: Decode_def DecodedLength_rfc [OF assms(1,2)] len cs(1) dec_all_rfc)
qed

lemma dec_loop_overrun:
  assumes "eq_sign \<notin> set xs" "length xs = 4 * q" "length (cells b) < pos b + 3 * q"
    "pos b \<le> length (cells b)"
  shows "dec_loop (xs @ ys) [] b = Inl OobWrite"
  using assms
proof (induction q arbitrary: xs b)
  case 0
  then show ?case by simp
next
  case (Suc q)
  from Suc.prems(2) have "length xs = Suc (Suc (Suc (Suc (4 * q))))" by simp
  then obtain c0 c1 c2 c3 zs where xs: "xs = c0 # c1 # c2 # c3 # zs"
    by (auto simp only: length_Suc_conv)
  let ?w = "a4_to_a3 (map b64_lookup [c0, c1, c2, c3])"
  have step: "dec_loop (xs @ ys) [] b = bindE (puts ?w b) (dec_loop (zs @ ys) [])"
    using Suc.prems(1) by (simp add: xs del: puts.simps)
  have w: "length ?w = 3" by (simp add: a4_to_a3_def)
  show ?case
  proof (cases "length (cells b) < pos b + 3")
    case True
    with w Suc.prems(4) show ?thesis by (simp add: step puts_fault)
  next
    case False
    with w puts_ok [of b ?w] obtain b' where b': "puts ?w b = Inr b'"
      "length (cells b') = length (cells b)" "pos b' = pos b + 3" by auto
    have "dec_loop (zs @ ys) [] b' = Inl OobWrite"
      using Suc.prems xs b' False by (intro Suc.IH) auto
    with b'(1) show ?thesis by (simp add: step)
  qed
qed

text \<open>
  C20: an input that has complete groups of four characters followed by superfluous equals
  signs makes \<open>Decode\<close> write past the end of its output: \<open>DecodedLength\<close> subtracts one byte for
  every equals sign, though the groups before them are decoded in full.
\<close>

theorem Decode_overrun:
  assumes "eq_sign \<notin> set xs" "length xs = 4 * q" "0 < q" "0 < k" "k \<le> 12 * q"
    "6 * (length xs + k) < 2 ^ 32" "3 * q \<le> max_size"
  shows "Decode max_size (xs @ replicate k eq_sign) out = Inl OobWrite"
proof -
  let ?inp = "xs @ replicate k eq_sign"
  let ?n = "6 * length ?inp div 8 - k"
  have "xs \<noteq> []" using assms(2,3) by auto
  then have inp: "?inp = butlast xs @ last xs # replicate k eq_sign" by simp
  have last: "last xs \<noteq> eq_sign" using assms(1) \<open>xs \<noteq> []\<close> by (metis last_in_set)
  obtain d r where d: "6 * k = 8 * d + r" "r < 8" by (rule nat_divmod [of 8 "6 * k"]) auto
  have "6 * length ?inp div 8 = 3 * q + d"
    using d assms(2) by (intro div_nat_eqI) auto
  moreover have "d < k" "k \<le> 3 * q + d" using d assms(4,5) by linarith+
  ultimately have n: "?n < 3 * q" "k \<le> 6 * length ?inp div 8" by linarith+
  have "6 * length ?inp < 2 ^ 32" using assms(6) by simp
  then have "DecodedLength ?inp = Inr (of_nat ?n)"
    using DecodedLength_eq [OF inp last] by (simp only: of_nat_diff [OF n(2)])
  moreover have "?n < 2 ^ 32" using \<open>6 * length ?inp < 2 ^ 32\<close> by linarith
  then have "unat (of_nat ?n :: u32) = ?n" by (rule unat_of_nat_u32)
  moreover from resize_ok [of ?n max_size out] n(1) assms(7) obtain cs where
    "resize max_size ?n out = Inr cs" "length cs = ?n" by auto
  moreover have "dec_loop ?inp [] \<lparr>cells = cs, pos = 0\<rparr> = Inl OobWrite"
    using n(1) \<open>length cs = ?n\<close> by (intro dec_loop_overrun [OF assms(1,2)]) auto
  ultimately show ?thesis by (simp add: Decode_def dec_all_def)
qed

theorem Decode_overrun_witness: "Decode 100 (bytes_of ''TWFu='') [] = Inl OobWrite"
  using Decode_overrun [of "bytes_of ''TWFu''" 1 1 100 "[]"] by (simp add: bytes_of_def)

text \<open>
  C32: \<open>Decode\<close> reads before the start of an input that has nothing but equals signs, the
  empty input included: the loop that counts the equals signs has no other end.
\<close>

theorem Decode_underrun: "Decode max_size (replicate k eq_sign) out = Inl OobRead"
proof -
  have "count_eq (replicate k eq_sign) = Inl OobRead" by (induction k) auto
  then show ?thesis by (simp add: Decode_def DecodedLength_def)
qed

lemma Encode_ptr_rfc:
  assumes "length inp \<le> 3221225469" "length out < 2 ^ 32"
  shows "Encode_ptr inp out =
    (if length out < length (rfc_encode inp) then Inr (False, out)
     else Inr (True, rfc_encode inp @ drop (length (rfc_encode inp)) out))"
proof -
  have len: "unat (EncodedLength (of_nat (length inp))) = length (rfc_encode inp)"
    using assms(1) by (simp add: EncodedLength_nat length_rfc_encode)
  have "unat (of_nat (length out) :: u32) = length out" using assms(2) by (rule unat_of_nat_u32)
  then have "(of_nat (length out) < EncodedLength (of_nat (length inp))) =
      (length out < length (rfc_encode inp))"
    by (simp only: word_less_nat_alt len)
  then show ?thesis by (simp add: Encode_ptr_def enc_all_puts len puts_front)
qed

lemma Decode_ptr_rfc:
  assumes "inp \<noteq> []" "length inp \<le> 536870910" "length out < 2 ^ 32"
  shows "Decode_ptr (rfc_encode inp) out =
    (if length out < length inp then Inr (False, out) else Inr (True, inp @ drop (length inp) out))"
proof -
  have D: "DecodedLength_ptr (rfc_encode inp) = Inr (of_nat (length inp))"
    using DecodedLength_rfc [OF assms(1,2)] by (simp only: DecodedLength_ptr_def DecodedLength_def)
  have len: "unat (of_nat (length inp) :: u32) = length inp"
    using assms(2) by (intro unat_of_nat_u32) simp
  have "unat (of_nat (length out) :: u32) = length out" using assms(3) by (rule unat_of_nat_u32)
  then have "((of_nat (length out) :: u32) < of_nat (length inp)) = (length out < length inp)"
    by (simp only: word_less_nat_alt len)
  then show ?thesis by (simp add: Decode_ptr_def D dec_all_rfc len puts_front)
qed

text \<open>
  C5: both overloads of \<open>Encode\<close> produce the RFC 4648 encoding of their input. The
  string overload resizes the output to exactly the encoding; the pointer overload refuses
  a buffer that is too short without touching it, and otherwise writes the encoding and
  leaves the rest of the buffer as it was. The bound on the input is the largest length
  whose encoded length does not wrap around in a 32-bit \<open>size_t\<close>.
\<close>

theorem Encode_correct:
  assumes "length inp \<le> 3221225469" "length (rfc_encode inp) \<le> max_size" "length buf < 2 ^ 32"
  shows "Encode max_size inp out = Inr (True, rfc_encode inp) \<and>
    Encode_ptr inp buf =
      (if length buf < length (rfc_encode inp) then Inr (False, buf)
       else Inr (True, rfc_encode inp @ drop (length (rfc_encode inp)) buf))"
  using assms by (simp only: Encode_rfc Encode_ptr_rfc)

lemma rfc_encode_Many: "rfc_encode (bytes_of ''Many'') = bytes_of ''TWFueQ==''"
  by (simp add: bytes_of_def rfc_group_def alphabet_bytes Let_def)

theorem Encode_correct_witness:
  "Encode 100 (bytes_of ''Many'') [] = Inr (True, bytes_of ''TWFueQ=='') \<and>
   Encode_ptr (bytes_of ''Many'') [1, 2, 3] = Inr (False, [1, 2, 3])"
  using Encode_correct [of "bytes_of ''Many''" 100 "[1, 2, 3]" "[]"]
  by (simp only: rfc_encode_Many) (simp add: bytes_of_def)



lemma StripPadding_run:
  "c \<noteq> eq_sign \<Longrightarrow> StripPadding (cs @ c # replicate k eq_sign) = cs @ [c]"
proof -
  assume "c \<noteq> eq_sign"
  then have "StripPadding_rev (replicate k eq_sign @ c # rev cs) = c # rev cs" by (induction k) auto
  then show ?thesis by (simp add: StripPadding_def)
qed

text \<open>
  C30: \<open>StripPadding\<close> removes exactly the equals signs that \<open>Encode\<close> appends, two, one or none
  according to the length of the input modulo three.
\<close>

theorem StripPadding_encoding:
  "StripPadding (rfc_encode inp) @ replicate (padding (length inp)) eq_sign = rfc_encode inp"
proof (cases "inp = []")
  case True
  then show ?thesis by (simp add: StripPadding_def)
next
  case False
  from rfc_encode_tail [OF this] obtain cs c where
    "rfc_encode inp = cs @ c # replicate (padding (length inp)) eq_sign" "c \<noteq> eq_sign" by blast
  then show ?thesis by (simp add: StripPadding_run)
qed

end
