(* ===== verification/Hash_Table.thy ===== *)
theory Hash_Table
imports Prelude "HOL-Library.Multiset"
begin

text \<open>
  What the two string maps of the component have in common: associations that keep the full
  hash of their key, tables of singly linked chains, the search in a chain, the walk over
  the table that counts associations, and moving all of them into a table of another size.

  The locale \<open>string_keys\<close> is the contract between a map and the way it hashes and compares
  keys; the locale \<open>keyed_map\<close> is the contract of a map with its clients.
\<close>

section \<open>Associations and chains\<close>

record 'v assoc =
  nHashValue :: u32
  assoc_key :: bytes
  assoc_value :: 'v

type_synonym 'v chain = "'v assoc list"

type_synonym key_equal = "bytes \<Rightarrow> bytes \<Rightarrow> bool outcome"

text \<open>
  The first association of a chain with the given full hash and an equal key; the keys are
  compared only where the hashes agree.
\<close>

fun chain_find :: "key_equal \<Rightarrow> u32 \<Rightarrow> bytes \<Rightarrow> 'v chain \<Rightarrow> 'v assoc option outcome" where
  "chain_find eq h k [] = Inr None"
| "chain_find eq h k (a # as) =
     (if nHashValue a = h
      then bindE (eq (assoc_key a) k) (\<lambda>e. if e then Inr (Some a) else chain_find eq h k as)
      else chain_find eq h k as)"

text \<open>Unlinking that association through the pointer to it.\<close>

fun chain_remove ::
  "key_equal \<Rightarrow> u32 \<Rightarrow> bytes \<Rightarrow> 'v chain \<Rightarrow> ('v assoc \<times> 'v chain) option outcome" where
  "chain_remove eq h k [] = Inr None"
| "chain_remove eq h k (a # as) =
     (let skip = bindE (chain_remove eq h k as)
                   (\<lambda>r. Inr (map_option (\<lambda>(a', as'). (a', a # as')) r)) in
      if nHashValue a = h
      then bindE (eq (assoc_key a) k) (\<lambda>e. if e then Inr (Some (a, as)) else skip)
      else skip)"

text \<open>Assigning through a reference to the value of that association.\<close>

fun chain_assign :: "key_equal \<Rightarrow> u32 \<Rightarrow> bytes \<Rightarrow> 'v \<Rightarrow> 'v chain \<Rightarrow> 'v chain outcome" where
  "chain_assign eq h k v [] = Inr []"
| "chain_assign eq h k v (a # as) =
     (let skip = bindE (chain_assign eq h k v as) (\<lambda>as'. Inr (a # as')) in
      if nHashValue a = h
      then bindE (eq (assoc_key a) k) (\<lambda>e. if e then Inr (a\<lparr>assoc_value := v\<rparr> # as) else skip)
      else skip)"

section \<open>Tables\<close>

type_synonym 'v table = "'v chain list"

definition bucket :: "u32 \<Rightarrow> nat \<Rightarrow> nat" where
  "bucket h n = unat h mod n"

text \<open>Putting an association at the head of its chain.\<close>

definition link :: "'v assoc \<Rightarrow> 'v table \<Rightarrow> 'v table" where
  "link a t = (let i = bucket (nHashValue a) (length t) in t[i := a # t ! i])"

text \<open>
  The walk over all associations that stops by their number and not at the end of the
  table: \<open>walk n as bs\<close> has \<open>as\<close> left in the current chain and the chains \<open>bs\<close> after it, and
  visits \<open>n\<close> more associations. Going on behind the last chain reads past the table.
\<close>

fun walk :: "nat \<Rightarrow> 'a list \<Rightarrow> 'a list list \<Rightarrow> 'a list outcome" where
  "walk 0 as bs = Inr []"
| "walk (Suc n) (a # as) bs = bindE (walk n as bs) (\<lambda>r. Inr (a # r))"
| "walk (Suc n) [] (b # bs) = walk (Suc n) b bs"
| "walk (Suc n) [] [] = Inl OobRead"

text \<open>All associations linked one after the other into an empty table.\<close>

definition relink :: "nat \<Rightarrow> 'v assoc list \<Rightarrow> 'v table" where
  "relink n as = fold link as (replicate n [])"

section \<open>Positions of an iteration\<close>

text \<open>
  A \<open>POSITION\<close> is a pointer to an association, here its chain and its place in the chain, or
  the value \<open>BEFORE_START_POSITION\<close>; the null pointer is \<open>None\<close>.
\<close>

datatype position = BeforeStart | At nat nat

text \<open>The first association at or after chain \<open>i\<close>, where \<open>bs\<close> are the chains from \<open>i\<close> on.\<close>

fun first_from :: "nat \<Rightarrow> 'v table \<Rightarrow> (nat \<times> nat) option" where
  "first_from i [] = None"
| "first_from i ([] # bs) = first_from (Suc i) bs"
| "first_from i ((_ # _) # bs) = Some (i, 0)"

text \<open>
  The walk that hands every association to an operation, which may change its value and a
  state of its own.
\<close>

fun walk_op ::
  "nat \<Rightarrow> ('a \<Rightarrow> 's \<Rightarrow> 'a \<times> 's) \<Rightarrow> 'a list \<Rightarrow> 'a list list \<Rightarrow> 's \<Rightarrow> ('a list \<times> 'a list list \<times> 's) outcome" where
  "walk_op 0 f as bs s = Inr (as, bs, s)"
| "walk_op (Suc n) f (a # as) bs s =
     (let (a', s') = f a s in
      bindE (walk_op n f as bs s') (\<lambda>(as', bs', s''). Inr (a' # as', bs', s'')))"
| "walk_op (Suc n) f [] (b # bs) s =
     bindE (walk_op (Suc n) f b bs s) (\<lambda>(b', bs', s'). Inr ([], b' # bs', s'))"
| "walk_op (Suc n) f [] [] s = Inl OobRead"

section \<open>Walks\<close>

lemma walk_concat: "n = length as + length (concat bs) \<Longrightarrow> walk n as bs = Inr (as @ concat bs)"
proof (induction n as bs rule: walk.induct)
  case (3 n b bs)
  from 3(2) have "Suc n = length b + length (concat bs)" by simp
  from 3(1) [OF this] show ?case by (simp only: walk.simps append_Nil concat.simps)
qed auto

lemma walk_all: "n = length (concat bs) \<Longrightarrow> walk n [] bs = Inr (concat bs)"
  by (simp add: walk_concat)

lemma walk_past: "length as + length (concat bs) < n \<Longrightarrow> walk n as bs = Inl OobRead"
  by (induction n as bs rule: walk.induct) auto

section \<open>Counting the associations of a table\<close>

lemma mset_concat_update:
  "i < length t \<Longrightarrow> mset (concat (t[i := c])) + mset (t ! i) = mset (concat t) + mset c"
proof (induction t arbitrary: i)
  case (Cons b t)
  then show ?case by (cases i) (auto simp: ac_simps)
qed simp

lemma mset_link:
  "0 < length t \<Longrightarrow> mset (concat (link a t)) = add_mset a (mset (concat t))"
  using mset_concat_update [of "bucket (nHashValue a) (length t)" t
      "a # t ! bucket (nHashValue a) (length t)"]
  by (simp add: link_def Let_def bucket_def)

lemma length_link [simp]: "length (link a t) = length t"
  by (simp add: link_def Let_def)

lemma fold_link:
  "0 < length t \<Longrightarrow>
     length (fold link as t) = length t \<and> mset (concat (fold link as t)) = mset as + mset (concat t)"
proof (induction as arbitrary: t)
  case (Cons a as)
  from Cons.prems have "0 < length (link a t)" by simp
  from Cons.IH [OF this] mset_link [OF Cons.prems, of a] show ?case by simp
qed simp

lemma length_relink [simp]: "0 < n \<Longrightarrow> length (relink n as) = n"
  by (simp add: relink_def fold_link)

lemma mset_relink: "0 < n \<Longrightarrow> mset (concat (relink n as)) = mset as"
  by (simp add: relink_def fold_link)

section \<open>Placement\<close>

text \<open>Every association is in the chain that its hash selects.\<close>

definition placed :: "'v table \<Rightarrow> bool" where
  "placed t \<longleftrightarrow> (\<forall>i < length t. \<forall>a \<in> set (t ! i). bucket (nHashValue a) (length t) = i)"

lemma bucket_less: "i < n \<Longrightarrow> bucket h n < n"
  by (simp add: bucket_def)

lemma placed_update:
  assumes "placed t" "\<forall>a \<in> set c. bucket (nHashValue a) (length t) = i"
  shows "placed (t[i := c])"
  unfolding placed_def
proof (intro allI impI ballI)
  fix j a assume "j < length (t[i := c])" "a \<in> set (t[i := c] ! j)"
  with assms show "bucket (nHashValue a) (length (t[i := c])) = j"
    by (cases "i = j") (auto simp: placed_def)
qed

lemma placed_link:
  assumes "placed t"
  shows "placed (link a t)"
proof (cases "t = []")
  case True
  with assms show ?thesis by (simp add: link_def Let_def)
next
  case False
  then have "bucket (nHashValue a) (length t) < length t" by (simp add: bucket_def)
  with assms show ?thesis
    unfolding link_def Let_def by (intro placed_update) (auto simp: placed_def)
qed

lemma placed_relink: "placed (relink n (as :: 'v assoc list))"
proof -
  have "placed t \<Longrightarrow> placed (fold link as t)" for t :: "'v table"
    by (induction as arbitrary: t) (auto simp: placed_link)
  moreover have "placed (replicate n ([] :: 'v chain))" by (simp add: placed_def)
  ultimately show ?thesis by (simp add: relink_def)
qed

lemma placed_bucket:
  assumes "placed t" "a \<in> set (concat t)"
  shows "a \<in> set (t ! bucket (nHashValue a) (length t))"
proof -
  from assms(2) obtain i where "i < length t" "a \<in> set (t ! i)"
    by (metis UN_E in_set_conv_nth set_concat)
  with assms(1) show ?thesis by (auto simp: placed_def)
qed

section \<open>Keys\<close>

text \<open>
  The contract of hashing and comparing keys: equality of the keys is equality of their
  normal forms, never reads past the strings, and equal keys have the same hash.
\<close>

locale string_keys =
  fixes norm :: "bytes \<Rightarrow> 'k"
    and hash :: "bytes \<Rightarrow> u32"
    and eq :: key_equal
  assumes eq_norm: "\<lbrakk>0 \<notin> set k; 0 \<notin> set k'\<rbrakk> \<Longrightarrow> eq k k' = Inr (norm k = norm k')"
    and hash_norm: "\<lbrakk>0 \<notin> set k; 0 \<notin> set k'; norm k = norm k'\<rbrakk> \<Longrightarrow> hash k = hash k'"

definition hashed :: "(bytes \<Rightarrow> u32) \<Rightarrow> 'v assoc \<Rightarrow> bool" where
  "hashed hash a \<longleftrightarrow> 0 \<notin> set (assoc_key a) \<and> nHashValue a = hash (assoc_key a)"

definition keys_ok :: "(bytes \<Rightarrow> 'k) \<Rightarrow> (bytes \<Rightarrow> u32) \<Rightarrow> 'v assoc list \<Rightarrow> bool" where
  "keys_ok norm hash as \<longleftrightarrow>
     (\<forall>a \<in> set as. hashed hash a) \<and>
     distinct (map (\<lambda>a. norm (assoc_key a)) as)"

definition table_ok :: "(bytes \<Rightarrow> 'k) \<Rightarrow> (bytes \<Rightarrow> u32) \<Rightarrow> 'v table \<Rightarrow> bool" where
  "table_ok norm hash t \<longleftrightarrow> 0 < length t \<and> placed t \<and> keys_ok norm hash (concat t)"

definition assoc_map :: "(bytes \<Rightarrow> 'k) \<Rightarrow> 'v assoc list \<Rightarrow> 'k \<Rightarrow> 'v option" where
  "assoc_map norm as = map_of (map (\<lambda>a. (norm (assoc_key a), assoc_value a)) as)"

text \<open>What matters of a list of associations does not depend on their order.\<close>

lemma keys_ok_mset:
  assumes "mset as = mset bs"
  shows "keys_ok norm hash as = keys_ok norm hash bs"
proof -
  have "set as = set bs" using assms by (rule mset_eq_setD)
  moreover have "distinct (map (\<lambda>a. norm (assoc_key a)) as) = distinct (map (\<lambda>a. norm (assoc_key a)) bs)"
    using assms by (intro mset_eq_imp_distinct_iff) simp
  ultimately show ?thesis by (simp add: keys_ok_def)
qed

lemma assoc_map_mset:
  assumes "mset as = mset bs" "keys_ok norm hash as"
  shows "assoc_map norm as = assoc_map norm bs"
proof -
  let ?p = "\<lambda>a. (norm (assoc_key a), assoc_value a)"
  have "keys_ok norm hash bs" using assms keys_ok_mset by blast
  then have "distinct (map fst (map ?p as))" "distinct (map fst (map ?p bs))"
    using assms(2) by (simp_all add: keys_ok_def comp_def)
  moreover have "set (map ?p as) = set (map ?p bs)" using mset_eq_setD [OF assms(1)] by simp
  ultimately show ?thesis unfolding assoc_map_def by (rule map_of_inject_set [THEN iffD2])
qed

lemma keys_ok_Cons:
  "keys_ok norm hash (a # as) \<longleftrightarrow>
     hashed hash a \<and> assoc_map norm as (norm (assoc_key a)) = None \<and>
     keys_ok norm hash as"
  by (auto simp: keys_ok_def assoc_map_def map_of_eq_None_iff image_image)

lemma assoc_map_Cons: "assoc_map norm (a # as) = (assoc_map norm as)(norm (assoc_key a) \<mapsto> assoc_value a)"
  by (simp add: assoc_map_def)

lemma assoc_map_append: "assoc_map norm (as @ bs) = assoc_map norm bs ++ assoc_map norm as"
  by (simp add: assoc_map_def)

lemma assoc_map_find:
  "assoc_map norm as x = map_option assoc_value (find (\<lambda>a. norm (assoc_key a) = x) as)"
  by (induction as) (auto simp: assoc_map_def)

section \<open>Searching a table\<close>

lemma find_unique:
  assumes "distinct (map f xs)" "a \<in> set xs" "f a = x"
  shows "find (\<lambda>a. f a = x) xs = Some a"
  using assms by (induction xs) auto

context string_keys
begin

abbreviation same :: "bytes \<Rightarrow> 'v assoc \<Rightarrow> bool" where
  "same k \<equiv> \<lambda>a. norm (assoc_key a) = norm k"

lemma same_hashed: "hashed hash a \<Longrightarrow> 0 \<notin> set k \<Longrightarrow> same k a \<Longrightarrow> nHashValue a = hash k"
  using hash_norm [of "assoc_key a" k] by (simp add: hashed_def)

lemma eq_hashed: "hashed hash a \<Longrightarrow> 0 \<notin> set k \<Longrightarrow> eq (assoc_key a) k = Inr (same k a)"
  by (simp add: eq_norm hashed_def)

lemma chain_find_eq:
  "\<forall>a \<in> set as. hashed hash a \<Longrightarrow> 0 \<notin> set k \<Longrightarrow>
     chain_find eq (hash k) k as = Inr (find (same k) as)"
proof (induction as)
  case (Cons a as)
  then show ?case using same_hashed [of a k] by (simp add: eq_hashed)
qed simp

lemma chain_remove_eq:
  "\<forall>a \<in> set as. hashed hash a \<Longrightarrow> 0 \<notin> set k \<Longrightarrow>
     chain_remove eq (hash k) k as = Inr (map_option (\<lambda>a. (a, remove1 a as)) (find (same k) as))"
proof (induction as)
  case (Cons a as)
  have "map_option (\<lambda>(a', as'). (a', a # as')) (map_option (\<lambda>a. (a, remove1 a as)) (find (same k) as)) =
      map_option (\<lambda>b. (b, remove1 b (a # as))) (find (same k) as)" if "\<not> same k a"
    using that by (cases "find (same k) as") (auto dest: find_SomeD)
  with Cons show ?case using same_hashed [of a k] by (simp add: eq_hashed Let_def)
qed simp

lemma chain_assign_eq:
  "\<forall>a \<in> set as. hashed hash a \<Longrightarrow> 0 \<notin> set k \<Longrightarrow> distinct (map (\<lambda>a. norm (assoc_key a)) as) \<Longrightarrow>
     chain_assign eq (hash k) k v as =
       Inr (map (\<lambda>a. if same k a then a\<lparr>assoc_value := v\<rparr> else a) as)"
proof (induction as)
  case (Cons a as)
  have "map (\<lambda>a. if same k a then a\<lparr>assoc_value := v\<rparr> else a) as = as" if "same k a"
    using that Cons.prems(3) by (intro map_idI) force
  with Cons show ?case using same_hashed [of a k] by (simp add: eq_hashed Let_def)
qed simp

lemma same_bucket:
  assumes "table_ok norm hash t" "0 \<notin> set k" "a \<in> set (concat t)" "same k a"
  shows "a \<in> set (t ! bucket (hash k) (length t))"
proof -
  from assms(1,3) have "hashed hash a" by (auto simp: table_ok_def keys_ok_def)
  with assms(2,4) have "nHashValue a = hash k" by (intro same_hashed)
  with assms(1,3) show ?thesis using placed_bucket [of t a] by (simp add: table_ok_def)
qed

lemma table_chain:
  assumes "table_ok norm hash t"
  shows "bucket h (length t) < length t"
  using assms by (simp add: table_ok_def bucket_def)

lemma table_hashed:
  assumes "table_ok norm hash t"
  shows "\<forall>a \<in> set (t ! bucket h (length t)). hashed hash a"
proof -
  have "t ! bucket h (length t) \<in> set t" using table_chain [OF assms] by simp
  with assms show ?thesis by (auto simp: table_ok_def keys_ok_def)
qed

lemma find_chain:
  assumes "table_ok norm hash t" "0 \<notin> set k"
  shows "find (same k) (t ! bucket (hash k) (length t)) = find (same k) (concat t)"
proof (cases "find (same k) (t ! bucket (hash k) (length t))")
  case None
  then have "\<forall>a \<in> set (concat t). \<not> same k a"
    using same_bucket [OF assms] unfolding find_None by blast
  then have "find (same k) (concat t) = None" unfolding find_None .
  with None show ?thesis by (simp only:)
next
  case (Some a)
  then have "a \<in> set (t ! bucket (hash k) (length t))" "same k a" by (auto dest: find_SomeD)
  moreover have "t ! bucket (hash k) (length t) \<in> set t" using table_chain [OF assms(1)] by simp
  ultimately have "a \<in> set (concat t)" by auto
  moreover have "distinct (map (\<lambda>a. norm (assoc_key a)) (concat t))"
    using assms(1) by (simp add: table_ok_def keys_ok_def)
  ultimately have "find (same k) (concat t) = Some a"
    using find_unique [of "\<lambda>a. norm (assoc_key a)" "concat t" a "norm k"] \<open>same k a\<close> by (simp only:)
  with Some show ?thesis by (simp only:)
qed

lemma table_find:
  assumes "table_ok norm hash t" "0 \<notin> set k"
  shows "chain_find eq (hash k) k (t ! bucket (hash k) (length t)) = Inr (find (same k) (concat t))"
  using chain_find_eq [OF table_hashed [OF assms(1)] assms(2)]
  by (simp add: find_chain [OF assms])

lemma table_link:
  assumes "table_ok norm hash t" "hashed hash a" "assoc_map norm (concat t) (norm (assoc_key a)) = None"
  shows "table_ok norm hash (link a t)"
    and "assoc_map norm (concat (link a t)) = (assoc_map norm (concat t))(norm (assoc_key a) \<mapsto> assoc_value a)"
proof -
  have t: "0 < length t" "placed t" "keys_ok norm hash (concat t)" using assms(1) by (simp_all add: table_ok_def)
  have m: "mset (concat (link a t)) = mset (a # concat t)" using mset_link [OF t(1)] by simp
  have k: "keys_ok norm hash (a # concat t)" using assms t(3) by (simp add: keys_ok_Cons)
  with keys_ok_mset [OF m] have k': "keys_ok norm hash (concat (link a t))" by metis
  with t show "table_ok norm hash (link a t)" by (simp add: table_ok_def placed_link)
  show "assoc_map norm (concat (link a t)) = (assoc_map norm (concat t))(norm (assoc_key a) \<mapsto> assoc_value a)"
    using assoc_map_mset [OF m k'] by (simp add: assoc_map_Cons)
qed

lemma table_relink:
  assumes "keys_ok norm hash as" "0 < n"
  shows "table_ok norm hash (relink n as)" and "assoc_map norm (concat (relink n as)) = assoc_map norm as"
proof -
  have m: "mset (concat (relink n as)) = mset as" by (rule mset_relink [OF assms(2)])
  with keys_ok_mset [OF m] assms(1) have k: "keys_ok norm hash (concat (relink n as))" by metis
  with assms(2) show "table_ok norm hash (relink n as)" by (simp add: table_ok_def placed_relink)
  show "assoc_map norm (concat (relink n as)) = assoc_map norm as" by (rule assoc_map_mset [OF m k])
qed

lemma table_remove:
  assumes "table_ok norm hash t" "0 \<notin> set k" "find (same k) (concat t) = Some a"
  defines "i \<equiv> bucket (hash k) (length t)"
  defines "t' \<equiv> t[i := remove1 a (t ! i)]"
  shows "chain_remove eq (hash k) k (t ! i) = Inr (Some (a, remove1 a (t ! i)))"
    and "mset (concat t) = add_mset a (mset (concat t'))"
    and "table_ok norm hash t'"
    and "assoc_map norm (concat t') = (assoc_map norm (concat t))(norm k := None)"
proof -
  have t: "0 < length t" "placed t" "keys_ok norm hash (concat t)" using assms(1) by (simp_all add: table_ok_def)
  have i: "i < length t" unfolding i_def by (rule table_chain [OF assms(1)])
  have f: "find (same k) (t ! i) = Some a"
    unfolding i_def using find_chain [OF assms(1,2)] assms(3) by (simp only:)
  then have a: "a \<in> set (t ! i)" "same k a" by (auto dest: find_SomeD)
  show "chain_remove eq (hash k) k (t ! i) = Inr (Some (a, remove1 a (t ! i)))"
    using chain_remove_eq [OF table_hashed [OF assms(1)] assms(2)] f by (simp add: i_def)
  obtain R where R: "mset (remove1 a (t ! i)) = R" by simp
  with a(1) have "mset (t ! i) = add_mset a R" by auto
  with mset_concat_update [OF i, of "remove1 a (t ! i)"] R
  have "mset (concat t') + add_mset a R = mset (concat t) + R" by (simp only: t'_def)
  then show m: "mset (concat t) = add_mset a (mset (concat t'))" by simp
  then have m': "mset (concat t) = mset (a # concat t')" by simp
  have k: "keys_ok norm hash (a # concat t')" using keys_ok_mset [OF m', of norm hash] t(3) by (simp only:)
  have "placed t'"
    unfolding t'_def using t(2) i by (intro placed_update) (auto simp: placed_def dest: notin_set_remove1)
  with k t(1) show "table_ok norm hash t'" by (simp add: table_ok_def keys_ok_Cons t'_def)
  have "assoc_map norm (concat t) = (assoc_map norm (concat t'))(norm k \<mapsto> assoc_value a)"
    using assoc_map_mset [OF m' t(3)] a(2) by (simp add: assoc_map_Cons)
  moreover have "assoc_map norm (concat t') (norm k) = None" using k a(2) by (simp add: keys_ok_Cons)
  ultimately show "assoc_map norm (concat t') = (assoc_map norm (concat t))(norm k := None)"
    by (simp add: fun_upd_idem)
qed

lemma table_remove_none:
  assumes "table_ok norm hash t" "0 \<notin> set k" "find (same k) (concat t) = None"
  shows "chain_remove eq (hash k) k (t ! bucket (hash k) (length t)) = Inr None"
  using chain_remove_eq [OF table_hashed [OF assms(1)] assms(2)] find_chain [OF assms(1,2)] assms(3)
  by simp

abbreviation assign :: "bytes \<Rightarrow> 'v \<Rightarrow> 'v assoc \<Rightarrow> 'v assoc" where
  "assign k v \<equiv> \<lambda>a. if same k a then a\<lparr>assoc_value := v\<rparr> else a"

lemma keys_ok_assign: "keys_ok norm hash (map (assign k v) as) = keys_ok norm hash as"
proof -
  have "map (\<lambda>a. norm (assoc_key a)) (map (assign k v) as) = map (\<lambda>a. norm (assoc_key a)) as" by simp
  moreover have "hashed hash (assign k v a) = hashed hash a" for a by (simp add: hashed_def)
  ultimately show ?thesis by (simp only: keys_ok_def set_map ball_simps)
qed

lemma assoc_map_assign_at:
  "assoc_map norm (map (assign k v) as) x =
     (if x = norm k then map_option (\<lambda>_. v) (assoc_map norm as x) else assoc_map norm as x)"
  by (induction as) (auto simp: assoc_map_def)

lemma assoc_map_assign:
  "assoc_map norm as (norm k) = Some w \<Longrightarrow>
     assoc_map norm (map (assign k v) as) = (assoc_map norm as)(norm k \<mapsto> v)"
  by (rule ext) (simp add: assoc_map_assign_at)

lemma map_assign_at:
  assumes "distinct (map (\<lambda>a. norm (assoc_key a)) xs)" "p < length xs" "same k (xs ! p)"
  shows "map (assign k v) xs = xs[p := (xs ! p)\<lparr>assoc_value := v\<rparr>]"
proof (rule nth_equalityI)
  fix q assume "q < length (map (assign k v) xs)"
  then have q: "q < length xs" by simp
  have "same k (xs ! q) \<longleftrightarrow> q = p"
    using nth_eq_iff_index_eq [OF assms(1), of q p] q assms(2,3) by simp
  with q show "map (assign k v) xs ! q = xs[p := (xs ! p)\<lparr>assoc_value := v\<rparr>] ! q"
    by (cases "q = p") simp_all
qed simp

lemma table_assign:
  fixes v :: 'v
  assumes "table_ok norm hash t" "0 \<notin> set k" "assoc_map norm (concat t) (norm k) = Some w"
  defines "i \<equiv> bucket (hash k) (length t)"
  defines "c \<equiv> map (assign k v) (t ! i)"
  shows "chain_assign eq (hash k) k v (t ! i) = Inr c"
    and "table_ok norm hash (t[i := c])"
    and "assoc_map norm (concat (t[i := c])) = (assoc_map norm (concat t))(norm k \<mapsto> v)"
    and "length (concat (t[i := c])) = length (concat t)"
    and "concat (t[i := c]) = map (assign k v) (concat t)"
    and "map length (t[i := c]) = map length t"
proof -
  have t: "0 < length t" "placed t" "keys_ok norm hash (concat t)" using assms(1) by (simp_all add: table_ok_def)
  have i: "i < length t" unfolding i_def by (rule table_chain [OF assms(1)])
  have "distinct (map (\<lambda>a. norm (assoc_key a)) (concat t))" using t(3) by (simp add: keys_ok_def)
  then have "distinct (map (\<lambda>a. norm (assoc_key a)) (t ! i))" by (subst (asm) id_take_nth_drop [OF i]) simp
  with chain_assign_eq [OF table_hashed [OF assms(1)] assms(2)]
  show "chain_assign eq (hash k) k v (t ! i) = Inr c" by (simp only: i_def c_def)
  have upd: "t[i := c] = map (map (assign k v)) t"
  proof (rule nth_equalityI)
    fix j assume "j < length (t[i := c])"
    then have j: "j < length t" by simp
    show "t[i := c] ! j = map (map (assign k v)) t ! j"
    proof (cases "j = i")
      case True
      with i show ?thesis by (simp only: c_def nth_list_update_eq nth_map)
    next
      case False
      have "\<not> same k a" if "a \<in> set (t ! j)" for a
      proof
        assume "same k a"
        have "a \<in> set (concat t)" using that j by auto
        with same_bucket [OF assms(1,2)] \<open>same k a\<close> have "a \<in> set (t ! i)" by (simp only: i_def)
        then have "bucket (nHashValue a) (length t) = i" using t(2) i by (simp only: placed_def)
        moreover have "bucket (nHashValue a) (length t) = j" using t(2) j that by (simp only: placed_def)
        ultimately show False using False by simp
      qed
      then have "map (assign k v) (t ! j) = t ! j" by (intro map_idI) (simp only: if_False)
      with False j show ?thesis by (simp only: nth_list_update_neq nth_map)
    qed
  qed simp
  then show c: "concat (t[i := c]) = map (assign k v) (concat t)" by (simp only: map_concat)
  show "map length (t[i := c]) = map length t" by (simp add: upd)
  have "bucket (nHashValue (assign k v a)) (length t) = i" if "a \<in> set (t ! i)" for a
    using t(2) i that by (simp add: placed_def)
  then have "placed (t[i := c])" using t(2) unfolding c_def by (intro placed_update) force+
  with t show "table_ok norm hash (t[i := c])" by (simp add: table_ok_def c keys_ok_assign)
  show "assoc_map norm (concat (t[i := c])) = (assoc_map norm (concat t))(norm k \<mapsto> v)"
    using assoc_map_assign [OF assms(3)] by (simp only: c)
  show "length (concat (t[i := c])) = length (concat t)" by (simp only: c length_map)
qed

end

section \<open>The members that the two maps share\<close>

text \<open>
  The table pointer is \<open>None\<close> when it is null. The free list is its length, and a block is
  the number of associations it has room for: the blocks never give memory back before the
  map is cleared, and every place in them is either in the table or in the free list. The
  sizes are natural numbers: a table of \<open>n\<close> chains takes \<open>4 * n\<close> bytes of the 32-bit address
  space, which keeps the products of a size with a small constant below \<open>2 ^ 32\<close>.
\<close>

record 'v hash_map =
  m_pHashTable :: "'v table option"
  m_nHashTableSize :: nat
  m_nCount :: nat
  m_pFreeList :: nat
  m_pBlocks :: "nat list"

definition contents :: "('v, 'z) hash_map_scheme \<Rightarrow> 'v assoc list" where
  "contents m = (case m_pHashTable m of None \<Rightarrow> [] | Some t \<Rightarrow> concat t)"

definition map_ok ::
  "(bytes \<Rightarrow> 'k) \<Rightarrow> (bytes \<Rightarrow> u32) \<Rightarrow> ('v, 'z) hash_map_scheme \<Rightarrow> bool" where
  "map_ok norm hash m \<longleftrightarrow>
     m_nCount m = length (contents m) \<and>
     m_pFreeList m + m_nCount m = sum_list (m_pBlocks m) \<and>
     (case m_pHashTable m of None \<Rightarrow> True
      | Some t \<Rightarrow> length t = m_nHashTableSize m \<and> table_ok norm hash t)"

definition map_abs :: "(bytes \<Rightarrow> 'k) \<Rightarrow> ('v, 'z) hash_map_scheme \<Rightarrow> 'k \<Rightarrow> 'v option" where
  "map_abs norm m = assoc_map norm (contents m)"

lemma contents_simps [simp]:
  "m_pHashTable m = None \<Longrightarrow> contents m = []"
  "m_pHashTable m = Some t \<Longrightarrow> contents m = concat t"
  by (simp_all add: contents_def)

lemma map_ok_keys: "map_ok norm hash m \<Longrightarrow> keys_ok norm hash (contents m)"
  by (auto simp: map_ok_def table_ok_def keys_ok_def contents_def split: option.splits)

section \<open>The contract of a map with its clients\<close>

text \<open>
  A map from strings to values, up to the normal form of its keys: the operations do not
  fault on a map that satisfies the invariant, keep the invariant, and do to the abstract
  map what their names say.
\<close>

locale keyed_map =
  fixes norm :: "bytes \<Rightarrow> 'k"
    and invar :: "'m \<Rightarrow> bool"
    and abs :: "'m \<Rightarrow> 'k \<Rightarrow> 'v option"
    and empty :: 'm
    and lookup :: "'m \<Rightarrow> bytes \<Rightarrow> 'v option outcome"
    and set_at :: "'m \<Rightarrow> bytes \<Rightarrow> 'v \<Rightarrow> 'm outcome"
    and remove :: "'m \<Rightarrow> bytes \<Rightarrow> (bool \<times> 'm) outcome"
  assumes empty: "invar empty" "abs empty = Map.empty"
    and lookup: "\<lbrakk>invar m; 0 \<notin> set k\<rbrakk> \<Longrightarrow> lookup m k = Inr (abs m (norm k))"
    and set_at: "\<lbrakk>invar m; 0 \<notin> set k\<rbrakk> \<Longrightarrow>
      \<exists>m'. set_at m k v = Inr m' \<and> invar m' \<and> abs m' = (abs m)(norm k \<mapsto> v)"
    and remove: "\<lbrakk>invar m; 0 \<notin> set k\<rbrakk> \<Longrightarrow>
      \<exists>m'. remove m k = Inr (abs m (norm k) \<noteq> None, m') \<and> invar m' \<and> abs m' = (abs m)(norm k := None)"

text \<open>Sequences of operations, on the map and on what it stands for.\<close>

datatype 'v map_op = SetOp bytes 'v | RemoveOp bytes

fun op_key :: "'v map_op \<Rightarrow> bytes" where
  "op_key (SetOp k v) = k"
| "op_key (RemoveOp k) = k"

fun run_op ::
  "('m \<Rightarrow> bytes \<Rightarrow> 'v \<Rightarrow> 'm outcome) \<Rightarrow> ('m \<Rightarrow> bytes \<Rightarrow> (bool \<times> 'm) outcome) \<Rightarrow>
   'v map_op \<Rightarrow> 'm \<Rightarrow> 'm outcome" where
  "run_op set_at remove (SetOp k v) m = set_at m k v"
| "run_op set_at remove (RemoveOp k) m = bindE (remove m k) (\<lambda>(b, m'). Inr m')"

fun run_ops ::
  "('m \<Rightarrow> bytes \<Rightarrow> 'v \<Rightarrow> 'm outcome) \<Rightarrow> ('m \<Rightarrow> bytes \<Rightarrow> (bool \<times> 'm) outcome) \<Rightarrow>
   'v map_op list \<Rightarrow> 'm \<Rightarrow> 'm outcome" where
  "run_ops set_at remove [] m = Inr m"
| "run_ops set_at remove (p # ps) m = bindE (run_op set_at remove p m) (run_ops set_at remove ps)"

fun op_abs :: "(bytes \<Rightarrow> 'k) \<Rightarrow> 'v map_op \<Rightarrow> ('k \<Rightarrow> 'v option) \<Rightarrow> 'k \<Rightarrow> 'v option" where
  "op_abs norm (SetOp k v) f = f(norm k \<mapsto> v)"
| "op_abs norm (RemoveOp k) f = f(norm k := None)"

context keyed_map
begin

lemma run_op_refines:
  assumes "invar m" "0 \<notin> set (op_key p)"
  shows "\<exists>m'. run_op set_at remove p m = Inr m' \<and> invar m' \<and> abs m' = op_abs norm p (abs m)"
proof (cases p)
  case (SetOp k v)
  with assms set_at [of m k v] show ?thesis by auto
next
  case (RemoveOp k)
  with assms remove [of m k] show ?thesis by auto
qed

lemma run_ops_refines:
  assumes "invar m" "\<forall>p \<in> set ps. 0 \<notin> set (op_key p)"
  shows "\<exists>m'. run_ops set_at remove ps m = Inr m' \<and> invar m' \<and> abs m' = fold (op_abs norm) ps (abs m)"
  using assms
proof (induction ps arbitrary: m)
  case (Cons p ps)
  then obtain m1 where "run_op set_at remove p m = Inr m1" "invar m1" "abs m1 = op_abs norm p (abs m)"
    using run_op_refines [of m p] by auto
  with Cons.IH [of m1] Cons.prems show ?case by simp
qed simp

text \<open>What a client sees after any sequence of operations on an empty map.\<close>

lemma lookup_after:
  assumes "\<forall>p \<in> set ps. 0 \<notin> set (op_key p)" "0 \<notin> set k"
  shows "bindE (run_ops set_at remove ps empty) (\<lambda>m. lookup m k) =
    Inr (fold (op_abs norm) ps Map.empty (norm k))"
  using run_ops_refines [OF empty(1) assms(1)] lookup assms(2) empty(2) by auto

lemma lookup_set_at:
  assumes "invar m" "0 \<notin> set k" "0 \<notin> set k'"
  shows "bindE (set_at m k v) (\<lambda>m'. lookup m' k') =
    (if norm k' = norm k then Inr (Some v) else lookup m k')"
  using set_at [OF assms(1,2), of v] lookup [of _ k'] assms by auto

end

section \<open>Places by their number\<close>

text \<open>The chain and the position in it of the association number \<open>p\<close>, from the lengths of the chains.\<close>

fun place :: "nat \<Rightarrow> nat list \<Rightarrow> nat \<Rightarrow> nat \<times> nat" where
  "place i [] p = (i, p)"
| "place i (l # ls) p = (if p < l then (i, p) else place (Suc i) ls (p - l))"

lemma place_Suc: "place (Suc i) ls p = map_prod Suc id (place i ls p)"
  by (induction ls arbitrary: i p) auto

lemma place_nth:
  "p < length (concat t) \<Longrightarrow> place 0 (map length t) p = (i, j) \<Longrightarrow>
     i < length t \<and> j < length (t ! i) \<and> t ! i ! j = concat t ! p"
proof (induction t arbitrary: p i)
  case (Cons b t)
  show ?case
  proof (cases "p < length b")
    case False
    obtain i' where "place 0 (map length t) (p - length b) = (i', j)" "i = Suc i'"
      using Cons.prems(2) False
      by (cases "place 0 (map length t) (p - length b)") (auto simp: place_Suc)
    with Cons.IH [of "p - length b" i'] Cons.prems(1) False show ?thesis by (auto simp: nth_append)
  qed (use Cons.prems in \<open>auto simp: nth_append\<close>)
qed simp

lemma first_from_Suc: "first_from (Suc i) bs = map_option (map_prod Suc id) (first_from i bs)"
  by (induction i bs rule: first_from.induct) auto

lemma first_from_place:
  "first_from 0 t = (if concat t = [] then None else Some (place 0 (map length t) 0))"
proof (induction t)
  case (Cons b t)
  then show ?case by (cases b; cases "place 0 (map length t) 0") (auto simp: first_from_Suc place_Suc)
qed simp

lemma place_next:
  "p < length (concat t) \<Longrightarrow> place 0 (map length t) p = (i, j) \<Longrightarrow>
     (if Suc j < length (t ! i) then Some (i, Suc j) else first_from (Suc i) (drop (Suc i) t)) =
     (if Suc p < length (concat t) then Some (place 0 (map length t) (Suc p)) else None)"
proof (induction t arbitrary: p i)
  case (Cons b t)
  show ?case
  proof (cases "p < length b")
    case True
    then have "i = 0" "j = p" using Cons.prems(2) by auto
    show ?thesis
    proof (cases "Suc p < length b")
      case True
      with \<open>i = 0\<close> \<open>j = p\<close> show ?thesis by simp
    next
      case False
      then have "Suc p = length b" using True by simp
      moreover have "first_from (Suc 0) t = (if concat t = [] then None else Some (place (Suc 0) (map length t) 0))"
        by (cases "place 0 (map length t) 0") (simp add: first_from_Suc first_from_place place_Suc)
      ultimately show ?thesis using \<open>i = 0\<close> \<open>j = p\<close> False by auto
    qed
  next
    case False
    obtain i' where i: "place 0 (map length t) (p - length b) = (i', j)" "i = Suc i'"
      using Cons.prems(2) False
      by (cases "place 0 (map length t) (p - length b)") (auto simp: place_Suc)
    have "p - length b < length (concat t)" using Cons.prems(1) False by simp
    note IH = Cons.IH [OF this i(1)]
    have "first_from (Suc i) (drop (Suc i) (b # t)) =
        map_option (map_prod Suc id) (first_from (Suc i') (drop (Suc i') t))"
      by (simp add: i(2) first_from_Suc)
    moreover have "Suc p - length b = Suc (p - length b)" using False by simp
    ultimately show ?thesis using IH i(2) False Cons.prems(1)
      by (cases "place 0 (map length t) (Suc (p - length b))") (auto simp: place_Suc split: if_splits)
  qed
qed simp

end
