(* ===== verification/NoCaseMap.thy ===== *)
theory NoCaseMap
imports Hash_Table
begin

text \<open>
  The map with keys that ignore case of \<open>_1Common/nocasemap.hpp\<close> and \<open>nocasemap.inl\<close>, the
  classes \<open>CNoCaseMapBase\<close> and \<open>CNoCaseMap\<close>.

  The table \<open>m_lotable\<close> of lower-case letters is filled by the system function \<open>CharLower\<close>
  for the code page of the machine: it is the argument \<open>lo\<close> of the definitions. What the
  map relies on is that only the terminator is mapped to zero (\<open>lo_table\<close>).
\<close>

section \<open>Hash and comparison of keys\<close>

type_synonym lotable = "byte \<Rightarrow> u32"

definition lo_table :: "lotable \<Rightarrow> bool" where
  "lo_table lo \<longleftrightarrow> (\<forall>c. lo c = 0 \<longleftrightarrow> c = 0)"

text \<open>
  The two pointers advance together; a list that is used up reads its terminator once, and
  a second read at its end is past the string.
\<close>

fun IsStrEqual :: "lotable \<Rightarrow> bytes \<Rightarrow> bytes \<Rightarrow> bool outcome" where
  "IsStrEqual lo ptr1 ptr2 =
     (let s1 = symbol ptr1; s2 = symbol ptr2 in
      if lo s1 \<noteq> lo s2 then Inr False
      else if s2 = 0 then Inr (s1 = 0)
      else (case ptr1 of
              [] \<Rightarrow> Inl OobRead
            | c1 # p1 \<Rightarrow> (case ptr2 of [] \<Rightarrow> Inl OobRead | c2 # p2 \<Rightarrow> IsStrEqual lo p1 p2)))"

declare IsStrEqual.simps [simp del]

fun hash_loop :: "lotable \<Rightarrow> u32 \<Rightarrow> bytes \<Rightarrow> u32" where
  "hash_loop lo h [] = h"
| "hash_loop lo h (c # key) = (if lo c = 0 then h else hash_loop lo ((h XOR lo c) * 16777619) key)"

definition GetHash :: "lotable \<Rightarrow> bytes \<Rightarrow> u32" where
  "GetHash lo key = hash_loop lo 2166136261 key"

section \<open>The size of the table\<close>

text \<open>
  \<open>next_size hs i\<close> is the loop of \<open>CalcHashSize\<close> from the values \<open>hs\<close> and \<open>i\<close> on: the divisor
  goes back to three, which is one plus the increment of the loop, whenever it divides.
\<close>

function next_size :: "nat \<Rightarrow> nat \<Rightarrow> nat" where
  "next_size hs i =
     (if i * i \<le> hs
      then if hs mod i = 0 then next_size (hs + 2) (1 + 2) else next_size hs (i + 2)
      else hs)"
  by pat_completeness auto

text \<open>A size at which the loop stops: no odd divisor up to its square root.\<close>

definition stop_size :: "nat \<Rightarrow> bool" where
  "stop_size h \<longleftrightarrow> (\<forall>i. odd i \<and> 3 \<le> i \<and> i * i \<le> h \<longrightarrow> \<not> i dvd h)"

lemma stop_size_above: "\<exists>h \<ge> n. stop_size h \<and> odd h = odd n"
proof (cases "odd n")
  case True
  let ?N = "fact (n + 2) + 1 :: nat"
  define d where "d = (LEAST d. 1 < d \<and> d dvd ?N)"
  have "1 < ?N \<and> ?N dvd ?N" by simp
  then have d: "1 < d \<and> d dvd ?N" unfolding d_def by (rule LeastI)
  have min: "d \<le> i" if "1 < i" "i dvd d" for i
    unfolding d_def by (rule Least_le) (use that d in \<open>auto intro: dvd_trans\<close>)
  have no: "\<not> i dvd ?N" if "1 < i" "i \<le> n + 2" for i
  proof
    assume "i dvd ?N"
    moreover have "i dvd fact (n + 2)" using that by (intro dvd_fact) auto
    ultimately have "i dvd 1" using dvd_add_right_iff by blast
    with that(1) show False by simp
  qed
  have "n + 2 < d" using d no [of d] by (meson not_less)
  moreover have "odd d"
  proof
    assume "even d"
    then have "2 dvd ?N" using d by (blast intro: dvd_trans)
    with no [of 2] show False by simp
  qed
  moreover have "stop_size d"
    unfolding stop_size_def
  proof (intro allI impI notI)
    fix i assume i: "odd i \<and> 3 \<le> i \<and> i * i \<le> d" "i dvd d"
    then have "d \<le> i" by (intro min) auto
    moreover have "3 * i \<le> i * i" using i by (intro mult_le_mono1) simp
    ultimately show False using i by simp
  qed
  ultimately show ?thesis using True by (intro exI [of _ d]) simp
next
  case False
  have "\<not> i dvd 2 ^ Suc n" if "odd i" "3 \<le> i" for i :: nat
  proof
    assume "i dvd 2 ^ Suc n"
    moreover have "coprime i (2 ^ Suc n)" using that(1) by simp
    ultimately have "is_unit i" by (meson coprime_common_divisor dvd_refl)
    with that(2) show False by simp
  qed
  then have "stop_size (2 ^ Suc n)" by (simp only: stop_size_def) blast
  moreover have "n \<le> 2 ^ Suc n" using less_exp [of "Suc n"] by simp
  ultimately show ?thesis using False by (intro exI [of _ "2 ^ Suc n"]) simp
qed

definition stop_above :: "nat \<Rightarrow> nat" where
  "stop_above n = (LEAST h. n \<le> h \<and> stop_size h \<and> odd h = odd n)"

lemma stop_above: "n \<le> stop_above n \<and> stop_size (stop_above n) \<and> odd (stop_above n) = odd n"
proof -
  from stop_size_above [of n] obtain h where "n \<le> h \<and> stop_size h \<and> odd h = odd n" by blast
  then show ?thesis unfolding stop_above_def by (rule LeastI)
qed

lemma stop_above_step:
  assumes "\<not> stop_size n"
  shows "stop_above (n + 2) - (n + 2) < stop_above n - n"
proof -
  have "n \<noteq> stop_above n" using assms stop_above [of n] by metis
  moreover have "n + 1 \<noteq> stop_above n" using stop_above [of n] by (metis even_plus_one_iff)
  ultimately have ge: "n + 2 \<le> stop_above n" using stop_above [of n] by linarith
  then have "stop_above (n + 2) \<le> stop_above n"
    unfolding stop_above_def [of "n + 2"] using stop_above [of n] by (intro Least_le) auto
  with ge show ?thesis by linarith
qed

termination next_size
proof (relation "measures [\<lambda>(hs, i). if even i \<or> i = 1 then 1 else 0 :: nat,
    \<lambda>(hs, i). stop_above hs - hs, \<lambda>(hs, i). hs + 1 - i]")
  fix hs i :: nat
  assume a: "i * i \<le> hs"
  then have "i \<le> hs" using le_square [of i] by linarith
  {
    assume "hs mod i = 0"
    then have "i dvd hs" by (simp add: mod_eq_0_iff_dvd)
    show "((hs + 2, 1 + 2), hs, i) \<in> measures [\<lambda>(hs, i). if even i \<or> i = 1 then 1 else 0 :: nat,
      \<lambda>(hs, i). stop_above hs - hs, \<lambda>(hs, i). hs + 1 - i]"
    proof (cases "even i \<or> i = 1")
      case False
      then have "odd i" "3 \<le> i" by (auto intro: ccontr elim: oddE)
      with a \<open>i dvd hs\<close> have "\<not> stop_size hs" by (auto simp: stop_size_def)
      from stop_above_step [OF this] False show ?thesis by simp
    qed simp
  next
    assume "hs mod i \<noteq> 0"
    then have "i \<noteq> 1" by auto
    with \<open>i \<le> hs\<close> show "((hs, i + 2), hs, i) \<in> measures [\<lambda>(hs, i). if even i \<or> i = 1 then 1 else 0 :: nat,
      \<lambda>(hs, i). stop_above hs - hs, \<lambda>(hs, i). hs + 1 - i]" by simp
  }
qed simp

declare next_size.simps [simp del]

definition CalcHashSize :: "nat \<Rightarrow> nat" where
  "CalcHashSize nCount =
     (let hs = (nCount + nCount div 2) OR 1 in
      if hs > 101 then next_size hs 3
      else if hs \<le> 13 then 13
      else if hs \<le> 23 then 23
      else if hs \<le> 37 then 37
      else if hs \<le> 53 then 53
      else if hs \<le> 71 then 71
      else 101)"

section \<open>Operations\<close>

definition CNoCaseMap :: "'v hash_map" where
  "CNoCaseMap = \<lparr>m_pHashTable = None, m_nHashTableSize = 0, m_nCount = 0, m_pFreeList = 0, m_pBlocks = []\<rparr>"

definition GetCount_nc :: "'v hash_map \<Rightarrow> nat" where
  "GetCount_nc m = m_nCount m"

definition IsEmpty_nc :: "'v hash_map \<Rightarrow> bool" where
  "IsEmpty_nc m = (m_nCount m \<noteq> 0)"

definition GetStartPosition_nc :: "'v hash_map \<Rightarrow> position option" where
  "GetStartPosition_nc m = (if m_nCount m \<noteq> 0 then Some BeforeStart else None)"

definition DeleteAll :: "'v hash_map \<Rightarrow> 'v hash_map" where
  "DeleteAll m = m\<lparr>m_pHashTable := None, m_nHashTableSize := 0, m_nCount := 0, m_pFreeList := 0, m_pBlocks := []\<rparr>"

text \<open>The walk over the whole table that several operations start with.\<close>

definition walk_map :: "'v hash_map \<Rightarrow> 'v assoc list outcome" where
  "walk_map m =
     (if m_nCount m = 0 then Inr []
      else case m_pHashTable m of None \<Rightarrow> Inl NullDeref | Some t \<Rightarrow> walk (m_nCount m) [] t)"

definition PrepeareHashTable :: "nat \<Rightarrow> 'v hash_map \<Rightarrow> 'v hash_map outcome" where
  "PrepeareHashTable nCount m =
     (let newHashSize = CalcHashSize nCount in
      bindE (walk_map m)
        (\<lambda>as. Inr (m\<lparr>m_pHashTable := Some (relink newHashSize as), m_nHashTableSize := newHashSize\<rparr>)))"

text \<open>
  A new block gives nine places to an empty free list; then the first place of the free list
  is taken.
\<close>

definition NewAssoc_nc :: "'v hash_map \<Rightarrow> 'v hash_map" where
  "NewAssoc_nc m =
     (let m1 = (if m_pFreeList m = 0 then m\<lparr>m_pBlocks := 9 # m_pBlocks m, m_pFreeList := 9\<rparr> else m) in
      m1\<lparr>m_nCount := m_nCount m1 + 1, m_pFreeList := m_pFreeList m1 - 1\<rparr>)"

definition FreeAssoc_nc :: "'v hash_map \<Rightarrow> 'v hash_map" where
  "FreeAssoc_nc m = m\<lparr>m_pFreeList := m_pFreeList m + 1, m_nCount := m_nCount m - 1\<rparr>"

definition GetAssocAt_nc :: "lotable \<Rightarrow> 'v hash_map \<Rightarrow> bytes \<Rightarrow> 'v assoc option outcome" where
  "GetAssocAt_nc lo m k =
     (let nFullHash = GetHash lo k in
      case m_pHashTable m of
        None \<Rightarrow> Inr None
      | Some t \<Rightarrow> chain_find (IsStrEqual lo) nFullHash k (t ! bucket nFullHash (m_nHashTableSize m)))"

definition IsExist :: "lotable \<Rightarrow> 'v hash_map \<Rightarrow> bytes \<Rightarrow> bool outcome" where
  "IsExist lo m k = bindE (GetAssocAt_nc lo m k) (\<lambda>a. Inr (a \<noteq> None))"

definition Lookup_nc :: "lotable \<Rightarrow> 'v hash_map \<Rightarrow> bytes \<Rightarrow> 'v option outcome" where
  "Lookup_nc lo m k = bindE (GetAssocAt_nc lo m k) (\<lambda>a. Inr (map_option assoc_value a))"

definition LookupKey_nc :: "lotable \<Rightarrow> 'v hash_map \<Rightarrow> bytes \<Rightarrow> bytes option outcome" where
  "LookupKey_nc lo m k = bindE (GetAssocAt_nc lo m k) (\<lambda>a. Inr (map_option assoc_key a))"

text \<open>
  Taking a place for a key that is not there and linking it into the table; \<open>grow\<close> is the
  condition under which the table is rebuilt first. The value of the new association is the
  default-constructed one, \<open>dv\<close>.
\<close>

definition insert_nc :: "lotable \<Rightarrow> bool \<Rightarrow> 'v \<Rightarrow> 'v hash_map \<Rightarrow> bytes \<Rightarrow> 'v hash_map outcome" where
  "insert_nc lo grow dv m k =
     bindE (if m_pHashTable m = None \<or> grow then PrepeareHashTable (m_nCount m + 1) m else Inr m)
       (\<lambda>m1. let m2 = NewAssoc_nc m1;
                 a = \<lparr>nHashValue = GetHash lo k, assoc_key = k, assoc_value = dv\<rparr> in
             case m_pHashTable m2 of
               None \<Rightarrow> Inl NullDeref
             | Some t \<Rightarrow> Inr (m2\<lparr>m_pHashTable := Some (link a t)\<rparr>))"

text \<open>\<open>operator[]\<close>: the map in which the reference it returns points to an association of \<open>k\<close>.\<close>

definition subscript_nc :: "lotable \<Rightarrow> 'v \<Rightarrow> 'v hash_map \<Rightarrow> bytes \<Rightarrow> 'v hash_map outcome" where
  "subscript_nc lo dv m k =
     bindE (GetAssocAt_nc lo m k)
       (\<lambda>a. case a of
              Some _ \<Rightarrow> Inr m
            | None \<Rightarrow> insert_nc lo (m_nHashTableSize m * 3 div 4 \<le> m_nCount m) dv m k)"

text \<open>Storing through the reference to the value of the association of \<open>k\<close>.\<close>

definition assign_nc :: "lotable \<Rightarrow> 'v hash_map \<Rightarrow> bytes \<Rightarrow> 'v \<Rightarrow> 'v hash_map outcome" where
  "assign_nc lo m k v =
     (case m_pHashTable m of
        None \<Rightarrow> Inl NullDeref
      | Some t \<Rightarrow>
          (let h = GetHash lo k; i = bucket h (m_nHashTableSize m) in
           bindE (chain_assign (IsStrEqual lo) h k v (t ! i))
             (\<lambda>c. Inr (m\<lparr>m_pHashTable := Some (t[i := c])\<rparr>))))"

definition SetAt_nc :: "lotable \<Rightarrow> 'v \<Rightarrow> 'v hash_map \<Rightarrow> bytes \<Rightarrow> 'v \<Rightarrow> 'v hash_map outcome" where
  "SetAt_nc lo dv m k v = bindE (subscript_nc lo dv m k) (\<lambda>m'. assign_nc lo m' k v)"

definition InsertExist ::
  "lotable \<Rightarrow> 'v \<Rightarrow> 'v hash_map \<Rightarrow> bytes \<Rightarrow> 'v \<Rightarrow> bool \<Rightarrow> (bool \<times> 'v hash_map) outcome" where
  "InsertExist lo dv m k v bReplace =
     bindE (GetAssocAt_nc lo m k)
       (\<lambda>a. case a of
              Some _ \<Rightarrow>
                if \<not> bReplace then Inr (True, m)
                else bindE (assign_nc lo m k v) (\<lambda>m'. Inr (True, m'))
            | None \<Rightarrow>
                bindE (insert_nc lo (m_nHashTableSize m div 3 * 2 \<le> m_nCount m) dv m k)
                  (\<lambda>m1. bindE (assign_nc lo m1 k v) (\<lambda>m'. Inr (False, m'))))"

text \<open>Unlinking, and rebuilding a table that has become less than half full.\<close>

definition unlink_nc :: "nat \<Rightarrow> 'v chain \<Rightarrow> 'v table \<Rightarrow> 'v hash_map \<Rightarrow> (bool \<times> 'v hash_map) outcome" where
  "unlink_nc i c t m =
     (let m1 = FreeAssoc_nc (m\<lparr>m_pHashTable := Some (t[i := c])\<rparr>) in
      bindE (if m_nCount m1 < m_nHashTableSize m1 div 2 then PrepeareHashTable (m_nCount m1) m1 else Inr m1)
        (\<lambda>m2. Inr (True, m2)))"

definition RemoveKey_nc :: "lotable \<Rightarrow> 'v hash_map \<Rightarrow> bytes \<Rightarrow> (bool \<times> 'v hash_map) outcome" where
  "RemoveKey_nc lo m k =
     (case m_pHashTable m of
        None \<Rightarrow> Inr (False, m)
      | Some t \<Rightarrow>
          if m_nCount m = 0 then Inr (False, m)
          else let nFullHash = GetHash lo k; i = bucket nFullHash (m_nHashTableSize m) in
            bindE (chain_remove (IsStrEqual lo) nFullHash k (t ! i))
              (\<lambda>r. case r of None \<Rightarrow> Inr (False, m) | Some (a, c) \<Rightarrow> unlink_nc i c t m))"

definition RemovePair :: "lotable \<Rightarrow> 'v hash_map \<Rightarrow> bytes \<Rightarrow> 'v \<Rightarrow> (bool \<times> 'v hash_map) outcome" where
  "RemovePair lo m k v =
     (case m_pHashTable m of
        None \<Rightarrow> Inr (False, m)
      | Some t \<Rightarrow>
          if m_nCount m = 0 then Inr (False, m)
          else let nFullHash = GetHash lo k; i = bucket nFullHash (m_nHashTableSize m) in
            bindE (chain_remove (IsStrEqual lo) nFullHash k (t ! i))
              (\<lambda>r. case r of
                     None \<Rightarrow> Inr (False, m)
                   | Some (a, c) \<Rightarrow> if assoc_value a = v then unlink_nc i c t m else Inr (False, m)))"

text \<open>\<open>RemoveAll\<close> with the associations whose destructor it calls, in this order.\<close>

definition RemoveAll_nc :: "'v hash_map \<Rightarrow> ('v assoc list \<times> 'v hash_map) outcome" where
  "RemoveAll_nc m = bindE (walk_map m) (\<lambda>as. Inr (as, DeleteAll m))"

definition GetNextAssoc_nc :: "'v hash_map \<Rightarrow> position \<Rightarrow> (position option \<times> bytes \<times> 'v) outcome" where
  "GetNextAssoc_nc m p =
     (case m_pHashTable m of
        None \<Rightarrow> Inl NullDeref
      | Some t \<Rightarrow>
          bindE (case p of
                   BeforeStart \<Rightarrow> (case first_from 0 t of None \<Rightarrow> Inl OobRead | Some q \<Rightarrow> Inr q)
                 | At i j \<Rightarrow> if i < length t \<and> j < length (t ! i) then Inr (i, j) else Inl UseAfterFree)
            (\<lambda>(i, j).
               let a = t ! i ! j;
                   idx = bucket (nHashValue a) (m_nHashTableSize m) + 1;
                   nxt = (if Suc j < length (t ! i) then Some (i, Suc j) else first_from idx (drop idx t)) in
               Inr (map_option (\<lambda>(i, j). At i j) nxt, assoc_key a, assoc_value a)))"

text \<open>The loop of a client over all pairs, at most \<open>n\<close> calls.\<close>

fun pairs_from :: "nat \<Rightarrow> 'v hash_map \<Rightarrow> position option \<Rightarrow> (bytes \<times> 'v) list outcome" where
  "pairs_from n m None = Inr []"
| "pairs_from 0 m (Some p) = Inl UseAfterFree"
| "pairs_from (Suc n) m (Some p) =
     bindE (GetNextAssoc_nc m p)
       (\<lambda>(p', k, v). bindE (pairs_from n m p') (\<lambda>r. Inr ((k, v) # r)))"

definition ForEachValue :: "('v \<Rightarrow> 's \<Rightarrow> 'v \<times> 's) \<Rightarrow> 'v hash_map \<Rightarrow> 's \<Rightarrow> ('v hash_map \<times> 's) outcome" where
  "ForEachValue f m s =
     (if m_nCount m = 0 then Inr (m, s)
      else case m_pHashTable m of
        None \<Rightarrow> Inl NullDeref
      | Some t \<Rightarrow>
          bindE (walk_op (m_nCount m)
                   (\<lambda>a s. let (v, s') = f (assoc_value a) s in (a\<lparr>assoc_value := v\<rparr>, s')) [] t s)
            (\<lambda>(_, t', s'). Inr (m\<lparr>m_pHashTable := Some t'\<rparr>, s')))"

definition ForEachPair ::
  "(bytes \<Rightarrow> 'v \<Rightarrow> 's \<Rightarrow> 'v \<times> 's) \<Rightarrow> 'v hash_map \<Rightarrow> 's \<Rightarrow> ('v hash_map \<times> 's) outcome" where
  "ForEachPair f m s =
     (if m_nCount m = 0 then Inr (m, s)
      else case m_pHashTable m of
        None \<Rightarrow> Inl NullDeref
      | Some t \<Rightarrow>
          bindE (walk_op (m_nCount m)
                   (\<lambda>a s. let (v, s') = f (assoc_key a) (assoc_value a) s in (a\<lparr>assoc_value := v\<rparr>, s')) [] t s)
            (\<lambda>(_, t', s'). Inr (m\<lparr>m_pHashTable := Some t'\<rparr>, s')))"

section \<open>Keys up to case\<close>

lemma lo_tableD: "lo_table lo \<Longrightarrow> lo c = 0 \<longleftrightarrow> c = 0"
  by (simp add: lo_table_def)

lemma IsStrEqual_simps:
  "IsStrEqual lo [] [] = Inr True"
  "IsStrEqual lo [] (c # k) =
     (if lo 0 \<noteq> lo c then Inr False else if c = 0 then Inr True else Inl OobRead)"
  "IsStrEqual lo (c # k) [] = (if lo c \<noteq> lo 0 then Inr False else Inr (c = 0))"
  "IsStrEqual lo (c # k) (d # l) =
     (if lo c \<noteq> lo d then Inr False else if d = 0 then Inr (c = 0) else IsStrEqual lo k l)"
  by (subst IsStrEqual.simps, simp)+

lemma IsStrEqual_correct:
  assumes "lo_table lo"
  shows "0 \<notin> set k \<Longrightarrow> 0 \<notin> set k' \<Longrightarrow> IsStrEqual lo k k' = Inr (map lo k = map lo k')"
proof (induction k arbitrary: k')
  case Nil
  then show ?case
    using lo_tableD [OF assms, of 0] lo_tableD [OF assms, of "hd k'"]
    by (cases k') (auto simp: IsStrEqual_simps)
next
  case (Cons c k)
  then show ?case
    using lo_tableD [OF assms, of 0] lo_tableD [OF assms, of c]
    by (cases k') (auto simp: IsStrEqual_simps)
qed

lemma hash_loop_norm:
  assumes "lo_table lo"
  shows "map lo k = map lo k' \<Longrightarrow> hash_loop lo h k = hash_loop lo h k'"
proof (induction k arbitrary: k' h)
  case (Cons c k)
  then show ?case by (cases k') auto
qed simp

locale lower_table =
  fixes lo :: lotable
  assumes lo: "lo_table lo"

sublocale lower_table \<subseteq> nck: string_keys "map lo" "GetHash lo" "IsStrEqual lo"
proof unfold_locales
  fix k k' :: bytes assume "0 \<notin> set k" "0 \<notin> set k'"
  then show "IsStrEqual lo k k' = Inr (map lo k = map lo k')" by (rule IsStrEqual_correct [OF lo])
next
  fix k k' :: bytes assume "map lo k = map lo k'"
  then show "GetHash lo k = GetHash lo k'" unfolding GetHash_def by (rule hash_loop_norm [OF lo])
qed

lemma next_size_spec:
  "odd hs \<Longrightarrow> odd i \<Longrightarrow> 3 \<le> i \<Longrightarrow> (\<forall>j. odd j \<and> 3 \<le> j \<and> j < i \<longrightarrow> \<not> j dvd hs) \<Longrightarrow>
     hs \<le> next_size hs i \<and> odd (next_size hs i) \<and> stop_size (next_size hs i)"
proof (induction hs i rule: next_size.induct)
  case (1 hs i)
  show ?case
  proof (cases "i * i \<le> hs")
    case False
    have "stop_size hs"
      unfolding stop_size_def
    proof (intro allI impI)
      fix j assume j: "odd j \<and> 3 \<le> j \<and> j * j \<le> hs"
      have "j < i" using False j by (meson le_trans mult_le_mono not_less)
      with j 1(6) show "\<not> j dvd hs" by blast
    qed
    with False 1(3) show ?thesis by (simp add: next_size.simps [of hs i])
  next
    case True
    show ?thesis
    proof (cases "hs mod i = 0")
      case dvd: True
      have "hs + 2 \<le> next_size (hs + 2) (1 + 2) \<and> odd (next_size (hs + 2) (1 + 2)) \<and>
          stop_size (next_size (hs + 2) (1 + 2))"
        using 1(3) by (intro 1(1) [OF True dvd]) auto
      with True dvd show ?thesis by (simp add: next_size.simps [of hs i])
    next
      case ndvd: False
      have "\<not> j dvd hs" if "odd j \<and> 3 \<le> j \<and> j < i + 2" for j
      proof (cases "j = i")
        case True
        with ndvd show ?thesis by (simp add: mod_eq_0_iff_dvd)
      next
        case False
        with that 1(4) have "j < i" by (cases "j = i + 1") auto
        with that 1(6) show ?thesis by blast
      qed
      then have "hs \<le> next_size hs (i + 2) \<and> odd (next_size hs (i + 2)) \<and> stop_size (next_size hs (i + 2))"
        using 1(3-5) by (intro 1(2) [OF True ndvd]) auto
      with True ndvd show ?thesis by (simp add: next_size.simps [of hs i])
    qed
  qed
qed

text \<open>An odd size at which the loop stops has no divisors but one and itself.\<close>

lemma stop_size_prime:
  assumes "stop_size h" "odd h" "k dvd h" "1 < k"
  shows "k = h"
proof (rule ccontr)
  assume "k \<noteq> h"
  from assms(3) obtain q where q: "h = k * q" by (rule dvdE)
  have "odd k" "odd q" using assms(2) q by auto
  have "q \<noteq> 1" "0 < q" using q \<open>k \<noteq> h\<close> assms(2) by (auto intro: Nat.gr0I)
  then have "3 \<le> q" using \<open>odd q\<close> by (cases "q = 2") auto
  have "3 \<le> k" using assms(4) \<open>odd k\<close> by (cases "k = 2") auto
  show False
  proof (cases "k \<le> q")
    case True
    then have "k * k \<le> h" using q by simp
    with assms(1,3) \<open>odd k\<close> \<open>3 \<le> k\<close> show False by (auto simp: stop_size_def)
  next
    case False
    then have "q * q \<le> h" using q by simp
    moreover have "q dvd h" using q by simp
    ultimately show False using assms(1) \<open>odd q\<close> \<open>3 \<le> q\<close> by (auto simp: stop_size_def)
  qed
qed

lemma stop_size_small:
  assumes "h < 121" "\<not> 3 dvd h" "\<not> 5 dvd h" "\<not> 7 dvd h"
  shows "stop_size h"
  unfolding stop_size_def
proof (intro allI impI)
  fix i assume i: "odd i \<and> 3 \<le> i \<and> i * i \<le> h"
  have "i < 11"
  proof (rule ccontr)
    assume "\<not> i < 11"
    then have "11 * 11 \<le> i * i" by (intro mult_le_mono) auto
    with i assms(1) show False by simp
  qed
  moreover from i obtain k where "i = 2 * k + 1" by (blast elim: oddE)
  ultimately have "1 \<le> k" "k \<le> 4" using i by simp_all
  then have "k = 1 \<or> k = 2 \<or> k = 3 \<or> k = 4" by linarith
  then have "i = 3 \<or> i = 5 \<or> i = 7 \<or> i = 9" using \<open>i = 2 * k + 1\<close> by (elim disjE) simp_all
  moreover have "3 dvd h" if "9 dvd h"
  proof -
    from that obtain q where "h = 9 * q" by (rule dvdE)
    then have "h = 3 * (3 * q)" by simp
    then show ?thesis by (rule dvdI)
  qed
  ultimately show "\<not> i dvd h" using assms(2-4) by blast
qed

lemma next_size_3:
  assumes "odd hs"
  shows "hs \<le> next_size hs 3 \<and> odd (next_size hs 3) \<and> stop_size (next_size hs 3)"
  using assms by (intro next_size_spec) auto

lemma CalcHashSize_spec:
  "n + n div 2 \<le> CalcHashSize n \<and> 13 \<le> CalcHashSize n \<and> odd (CalcHashSize n) \<and> stop_size (CalcHashSize n)"
proof -
  obtain hs where hs: "(n + n div 2) OR 1 = hs" by simp
  have "hs = n + n div 2 + of_bool (even (n + n div 2))" using or_one_eq [of "n + n div 2"] hs by simp
  then have "n + n div 2 \<le> hs" "odd hs" by (simp_all only: even_plus_one_iff) auto
  moreover have "CalcHashSize n =
      (if hs > 101 then next_size hs 3 else if hs \<le> 13 then 13 else if hs \<le> 23 then 23
       else if hs \<le> 37 then 37 else if hs \<le> 53 then 53 else if hs \<le> 71 then 71 else 101)"
    by (simp only: CalcHashSize_def Let_def hs)
  moreover have "stop_size 13" "stop_size 23" "stop_size 37" "stop_size 53" "stop_size 71" "stop_size 101"
    by (rule stop_size_small; simp)+
  ultimately show ?thesis using next_size_3 [of hs] by (simp split: if_split)
qed


section \<open>Every operation keeps the invariant\<close>

abbreviation nc_ok :: "lotable \<Rightarrow> 'v hash_map \<Rightarrow> bool" where
  "nc_ok lo \<equiv> map_ok (map lo) (GetHash lo)"

abbreviation nc_abs :: "lotable \<Rightarrow> 'v hash_map \<Rightarrow> u32 list \<Rightarrow> 'v option" where
  "nc_abs lo \<equiv> map_abs (map lo)"

lemma nc_ok_new: "nc_ok lo CNoCaseMap" "nc_abs lo CNoCaseMap = Map.empty"
  by (simp_all add: CNoCaseMap_def map_ok_def map_abs_def contents_def assoc_map_def)

lemma walk_map_contents:
  assumes "nc_ok lo m"
  shows "walk_map m = Inr (contents m)"
proof (cases "m_pHashTable m")
  case None
  with assms show ?thesis by (simp add: walk_map_def map_ok_def)
next
  case (Some t)
  with assms show ?thesis by (auto simp: walk_map_def map_ok_def walk_all)
qed

lemma NewAssoc_nc_simps [simp]:
  "m_pHashTable (NewAssoc_nc m) = m_pHashTable m"
  "m_nHashTableSize (NewAssoc_nc m) = m_nHashTableSize m"
  "m_nCount (NewAssoc_nc m) = m_nCount m + 1"
  "m_pFreeList m + m_nCount m = sum_list (m_pBlocks m) \<Longrightarrow>
     m_pFreeList (NewAssoc_nc m) + Suc (m_nCount m) = sum_list (m_pBlocks (NewAssoc_nc m))"
  by (simp_all add: NewAssoc_nc_def Let_def)

context lower_table
begin

lemma PrepeareHashTable_ok:
  assumes "nc_ok lo m"
  shows "\<exists>m' t. PrepeareHashTable n m = Inr m' \<and> nc_ok lo m' \<and> m_pHashTable m' = Some t \<and>
    nc_abs lo m' = nc_abs lo m \<and> m_nHashTableSize m' = CalcHashSize n"
proof -
  let ?t = "relink (CalcHashSize n) (contents m)"
  let ?m = "m\<lparr>m_pHashTable := Some ?t, m_nHashTableSize := CalcHashSize n\<rparr>"
  have n: "0 < CalcHashSize n" using CalcHashSize_spec [of n] by simp
  have "PrepeareHashTable n m = Inr ?m"
    by (simp add: PrepeareHashTable_def walk_map_contents [OF assms] Let_def)
  moreover have "length (concat ?t) = length (contents m)" using mset_relink [OF n] mset_eq_length by metis
  then have "nc_ok lo ?m"
    using assms n nck.table_relink(1) [OF map_ok_keys [OF assms] n] by (simp add: map_ok_def)
  moreover have "nc_abs lo ?m = nc_abs lo m"
    using nck.table_relink(2) [OF map_ok_keys [OF assms] n] by (simp add: map_abs_def)
  ultimately show ?thesis by force
qed

lemma GetAssocAt_nc_find:
  assumes "nc_ok lo m" "0 \<notin> set k"
  shows "GetAssocAt_nc lo m k = Inr (find (\<lambda>a. map lo (assoc_key a) = map lo k) (contents m))"
proof (cases "m_pHashTable m")
  case (Some t)
  with assms nck.table_find [of t k] show ?thesis by (auto simp: GetAssocAt_nc_def map_ok_def Let_def)
qed (simp add: GetAssocAt_nc_def)

lemma insert_nc_ok:
  assumes "nc_ok lo m" "0 \<notin> set k" "nc_abs lo m (map lo k) = None"
  shows "\<exists>m'. insert_nc lo grow dv m k = Inr m' \<and> nc_ok lo m' \<and>
    nc_abs lo m' = (nc_abs lo m)(map lo k \<mapsto> dv)"
proof -
  have "\<exists>m1 t. (if m_pHashTable m = None \<or> grow then PrepeareHashTable (m_nCount m + 1) m else Inr m) = Inr m1 \<and>
      nc_ok lo m1 \<and> m_pHashTable m1 = Some t \<and> nc_abs lo m1 = nc_abs lo m"
    using PrepeareHashTable_ok [OF assms(1), of "m_nCount m + 1"] assms(1) by auto
  then obtain m1 t where m1:
    "(if m_pHashTable m = None \<or> grow then PrepeareHashTable (m_nCount m + 1) m else Inr m) = Inr m1"
    "nc_ok lo m1" "m_pHashTable m1 = Some t" "nc_abs lo m1 = nc_abs lo m" by blast
  let ?a = "\<lparr>nHashValue = GetHash lo k, assoc_key = k, assoc_value = dv\<rparr>"
  let ?m = "(NewAssoc_nc m1)\<lparr>m_pHashTable := Some (link ?a t)\<rparr>"
  have t: "table_ok (map lo) (GetHash lo) t" "length t = m_nHashTableSize m1"
    "m_nCount m1 = length (concat t)" "m_pFreeList m1 + m_nCount m1 = sum_list (m_pBlocks m1)"
    using m1(2,3) by (auto simp: map_ok_def)
  have a: "hashed (GetHash lo) ?a" using assms(2) by (simp add: hashed_def)
  have none: "assoc_map (map lo) (concat t) (map lo (assoc_key ?a)) = None"
    using assms(3) m1(3,4) by (simp add: map_abs_def)
  note l = nck.table_link [OF t(1) a none]
  have "0 < length t" using t(1) by (simp add: table_ok_def)
  from mset_link [OF this, of ?a] have "length (concat (link ?a t)) = Suc (length (concat t))"
    by (metis size_add_mset size_mset)
  with t(2,3) l(1) NewAssoc_nc_simps(4) [OF t(4)] have "nc_ok lo ?m" by (simp add: map_ok_def)
  moreover have "nc_abs lo ?m = (nc_abs lo m)(map lo k \<mapsto> dv)"
    using l(2) m1(3) m1(4) [symmetric] by (simp add: map_abs_def)
  moreover have "insert_nc lo grow dv m k = Inr ?m" by (simp add: insert_nc_def m1(1,3) Let_def)
  ultimately show ?thesis by blast
qed

lemma assign_nc_ok:
  assumes "nc_ok lo m" "0 \<notin> set k" "nc_abs lo m (map lo k) = Some w"
  shows "\<exists>m'. assign_nc lo m k v = Inr m' \<and> nc_ok lo m' \<and> nc_abs lo m' = (nc_abs lo m)(map lo k \<mapsto> v)"
proof (cases "m_pHashTable m")
  case None
  with assms(3) show ?thesis by (simp add: map_abs_def assoc_map_def)
next
  case (Some t)
  then have t: "table_ok (map lo) (GetHash lo) t" "length t = m_nHashTableSize m"
    "assoc_map (map lo) (concat t) (map lo k) = Some w"
    using assms(1,3) by (auto simp: map_ok_def map_abs_def)
  note a = nck.table_assign [OF t(1) assms(2) t(3), of v]
  from a Some t(2) assms(1) show ?thesis
    by (auto simp: assign_nc_def Let_def map_ok_def map_abs_def)
qed

lemma GetAssocAt_nc_abs:
  assumes "nc_ok lo m" "0 \<notin> set k"
  shows "\<exists>a. GetAssocAt_nc lo m k = Inr a \<and> map_option assoc_value a = nc_abs lo m (map lo k)"
  using GetAssocAt_nc_find [OF assms] by (simp add: map_abs_def assoc_map_find)

lemma Lookup_nc_abs:
  assumes "nc_ok lo m" "0 \<notin> set k"
  shows "Lookup_nc lo m k = Inr (nc_abs lo m (map lo k))"
  using GetAssocAt_nc_abs [OF assms] by (auto simp: Lookup_nc_def)

lemma subscript_nc_ok:
  assumes "nc_ok lo m" "0 \<notin> set k"
  shows "\<exists>m' w. subscript_nc lo dv m k = Inr m' \<and> nc_ok lo m' \<and> nc_abs lo m' (map lo k) = Some w \<and>
    nc_abs lo m' = (nc_abs lo m)(map lo k \<mapsto> w) \<and>
    w = (case nc_abs lo m (map lo k) of None \<Rightarrow> dv | Some v \<Rightarrow> v)"
proof -
  from GetAssocAt_nc_abs [OF assms] obtain a where
    a: "GetAssocAt_nc lo m k = Inr a" "map_option assoc_value a = nc_abs lo m (map lo k)" by blast
  show ?thesis
  proof (cases a)
    case None
    with a(2) have "nc_abs lo m (map lo k) = None" by simp
    with insert_nc_ok [OF assms this, of "m_nHashTableSize m * 3 div 4 \<le> m_nCount m" dv] a(1) None
    show ?thesis by (auto simp: subscript_nc_def)
  next
    case (Some b)
    then have "nc_abs lo m (map lo k) = Some (assoc_value b)" using a(2) by simp
    with a(1) Some assms show ?thesis
      by (intro exI [of _ m] exI [of _ "assoc_value b"]) (auto simp: subscript_nc_def)
  qed
qed

lemma SetAt_nc_ok:
  assumes "nc_ok lo m" "0 \<notin> set k"
  shows "\<exists>m'. SetAt_nc lo dv m k v = Inr m' \<and> nc_ok lo m' \<and> nc_abs lo m' = (nc_abs lo m)(map lo k \<mapsto> v)"
proof -
  from subscript_nc_ok [OF assms, of dv] obtain m1 w where m1: "subscript_nc lo dv m k = Inr m1"
    "nc_ok lo m1" "nc_abs lo m1 (map lo k) = Some w" "nc_abs lo m1 = (nc_abs lo m)(map lo k \<mapsto> w)" by blast
  from assign_nc_ok [OF m1(2) assms(2) m1(3), of v] m1(1,4) show ?thesis by (auto simp: SetAt_nc_def)
qed

lemma InsertExist_ok:
  assumes "nc_ok lo m" "0 \<notin> set k"
  shows "\<exists>m'. InsertExist lo dv m k v bReplace = Inr (nc_abs lo m (map lo k) \<noteq> None, m') \<and> nc_ok lo m' \<and>
    nc_abs lo m' =
      (if nc_abs lo m (map lo k) \<noteq> None \<and> \<not> bReplace then nc_abs lo m else (nc_abs lo m)(map lo k \<mapsto> v))"
proof -
  from GetAssocAt_nc_abs [OF assms] obtain a where
    a: "GetAssocAt_nc lo m k = Inr a" "map_option assoc_value a = nc_abs lo m (map lo k)" by blast
  show ?thesis
  proof (cases a)
    case None
    with a(2) have none: "nc_abs lo m (map lo k) = None" by simp
    obtain m1 where m1: "insert_nc lo (m_nHashTableSize m div 3 * 2 \<le> m_nCount m) dv m k = Inr m1" "nc_ok lo m1"
      "nc_abs lo m1 = (nc_abs lo m)(map lo k \<mapsto> dv)" using insert_nc_ok [OF assms none] by blast
    then have "nc_abs lo m1 (map lo k) = Some dv" by simp
    from assign_nc_ok [OF m1(2) assms(2) this, of v] obtain m2 where m2: "assign_nc lo m1 k v = Inr m2"
      "nc_ok lo m2" "nc_abs lo m2 = (nc_abs lo m1)(map lo k \<mapsto> v)" by blast
    have "InsertExist lo dv m k v bReplace = Inr (False, m2)" by (simp add: InsertExist_def a None m1 m2)
    with m2 m1(3) none show ?thesis by simp
  next
    case (Some b)
    then have some: "nc_abs lo m (map lo k) = Some (assoc_value b)" using a(2) by simp
    from assign_nc_ok [OF assms some, of v] obtain m2 where m2: "assign_nc lo m k v = Inr m2"
      "nc_ok lo m2" "nc_abs lo m2 = (nc_abs lo m)(map lo k \<mapsto> v)" by blast
    have "InsertExist lo dv m k v bReplace = Inr (True, if bReplace then m2 else m)"
      by (simp add: InsertExist_def a Some m2)
    with m2 some assms(1) show ?thesis by simp
  qed
qed

lemma unlink_nc_ok:
  assumes "nc_ok lo m" "0 \<notin> set k" "m_pHashTable m = Some t"
    "find (\<lambda>a. map lo (assoc_key a) = map lo k) (concat t) = Some a"
  defines "i \<equiv> bucket (GetHash lo k) (m_nHashTableSize m)"
  shows "chain_remove (IsStrEqual lo) (GetHash lo k) k (t ! i) = Inr (Some (a, remove1 a (t ! i)))"
    and "\<exists>m'. unlink_nc i (remove1 a (t ! i)) t m = Inr (True, m') \<and> nc_ok lo m' \<and>
      nc_abs lo m' = (nc_abs lo m)(map lo k := None)"
proof -
  have t: "table_ok (map lo) (GetHash lo) t" "length t = m_nHashTableSize m" using assms(1,3) by (auto simp: map_ok_def)
  have i: "i = bucket (GetHash lo k) (length t)" by (simp add: i_def t(2))
  note r = nck.table_remove [OF t(1) assms(2,4), folded i]
  show "chain_remove (IsStrEqual lo) (GetHash lo k) k (t ! i) = Inr (Some (a, remove1 a (t ! i)))" by (rule r(1))
  let ?t = "t[i := remove1 a (t ! i)]"
  let ?m = "FreeAssoc_nc (m\<lparr>m_pHashTable := Some ?t\<rparr>)"
  have "length (concat t) = Suc (length (concat ?t))" using r(2) by (metis size_add_mset size_mset)
  then have ok: "nc_ok lo ?m" using assms(1,3) r(3) t(2) by (simp add: map_ok_def FreeAssoc_nc_def)
  have ab: "nc_abs lo ?m = (nc_abs lo m)(map lo k := None)"
    using r(4) assms(3) by (simp add: map_abs_def FreeAssoc_nc_def)
  show "\<exists>m'. unlink_nc i (remove1 a (t ! i)) t m = Inr (True, m') \<and> nc_ok lo m' \<and>
      nc_abs lo m' = (nc_abs lo m)(map lo k := None)"
    using PrepeareHashTable_ok [OF ok, of "m_nCount ?m"] ok ab by (auto simp: unlink_nc_def Let_def)
qed

lemma remove_step:
  assumes "nc_ok lo m" "0 \<notin> set k" "m_pHashTable m = Some t"
  defines "i \<equiv> bucket (GetHash lo k) (m_nHashTableSize m)"
  shows "(nc_abs lo m (map lo k) = None \<and> chain_remove (IsStrEqual lo) (GetHash lo k) k (t ! i) = Inr None) \<or>
    (\<exists>a c m'. nc_abs lo m (map lo k) = Some (assoc_value a) \<and> m_nCount m \<noteq> 0 \<and>
       chain_remove (IsStrEqual lo) (GetHash lo k) k (t ! i) = Inr (Some (a, c)) \<and>
       unlink_nc i c t m = Inr (True, m') \<and> nc_ok lo m' \<and> nc_abs lo m' = (nc_abs lo m)(map lo k := None))"
proof (cases "find (\<lambda>a. map lo (assoc_key a) = map lo k) (concat t)")
  case None
  moreover have "table_ok (map lo) (GetHash lo) t" "length t = m_nHashTableSize m"
    using assms(1,3) by (auto simp: map_ok_def)
  ultimately have "chain_remove (IsStrEqual lo) (GetHash lo k) k (t ! i) = Inr None"
    using nck.table_remove_none [OF _ assms(2), of t] by (simp add: i_def)
  with None assms(3) show ?thesis by (simp add: map_abs_def assoc_map_find)
next
  case (Some a)
  then have "nc_abs lo m (map lo k) = Some (assoc_value a)" using assms(3) by (simp add: map_abs_def assoc_map_find)
  moreover have "concat t \<noteq> []" using Some by (metis find.simps(1) option.distinct(1))
  then have "m_nCount m \<noteq> 0" using assms(1,3) by (simp add: map_ok_def del: concat_eq_Nil_conv)
  ultimately have "nc_abs lo m (map lo k) = Some (assoc_value a)" "m_nCount m \<noteq> 0" by blast+
  with unlink_nc_ok [OF assms(1-3) Some, folded i_def] show ?thesis by blast
qed

lemma RemoveKey_nc_ok:
  assumes "nc_ok lo m" "0 \<notin> set k"
  shows "\<exists>m'. RemoveKey_nc lo m k = Inr (nc_abs lo m (map lo k) \<noteq> None, m') \<and> nc_ok lo m' \<and>
    nc_abs lo m' = (nc_abs lo m)(map lo k := None)"
proof (cases "m_pHashTable m")
  case None
  then have "nc_abs lo m = Map.empty" by (simp add: map_abs_def assoc_map_def)
  with None assms(1) show ?thesis by (simp add: RemoveKey_nc_def)
next
  case (Some t)
  have "nc_abs lo m = Map.empty" if "m_nCount m = 0"
    using that assms(1) by (simp add: map_abs_def assoc_map_def map_ok_def)
  with remove_step [OF assms Some] Some assms(1) show ?thesis
    by (auto simp: RemoveKey_nc_def Let_def fun_upd_idem)
qed

lemma RemovePair_ok:
  assumes "nc_ok lo m" "0 \<notin> set k"
  shows "\<exists>m'. RemovePair lo m k v = Inr (nc_abs lo m (map lo k) = Some v, m') \<and> nc_ok lo m' \<and>
    nc_abs lo m' = (if nc_abs lo m (map lo k) = Some v then (nc_abs lo m)(map lo k := None) else nc_abs lo m)"
proof (cases "m_pHashTable m")
  case None
  then have "nc_abs lo m = Map.empty" by (simp add: map_abs_def assoc_map_def)
  with None assms(1) show ?thesis by (simp add: RemovePair_def)
next
  case (Some t)
  have "nc_abs lo m = Map.empty" if "m_nCount m = 0"
    using that assms(1) by (simp add: map_abs_def assoc_map_def map_ok_def)
  with remove_step [OF assms Some] Some assms(1) show ?thesis
    by (auto simp: RemovePair_def Let_def fun_upd_idem)
qed

end

sublocale lower_table \<subseteq> ncm: keyed_map "map lo" "nc_ok lo" "nc_abs lo" CNoCaseMap "Lookup_nc lo"
  "SetAt_nc lo dv" "RemoveKey_nc lo"
  for dv :: 'v
proof unfold_locales
  show "nc_ok lo (CNoCaseMap :: 'v hash_map)" "nc_abs lo (CNoCaseMap :: 'v hash_map) = Map.empty"
    by (rule nc_ok_new)+
next
  fix m :: "'v hash_map" and k :: bytes and v
  assume m: "nc_ok lo m" "0 \<notin> set k"
  show "Lookup_nc lo m k = Inr (nc_abs lo m (map lo k))" by (rule Lookup_nc_abs [OF m])
  show "\<exists>m'. SetAt_nc lo dv m k v = Inr m' \<and> nc_ok lo m' \<and> nc_abs lo m' = (nc_abs lo m)(map lo k \<mapsto> v)"
    by (rule SetAt_nc_ok [OF m])
  show "\<exists>m'. RemoveKey_nc lo m k = Inr (nc_abs lo m (map lo k) \<noteq> None, m') \<and> nc_ok lo m' \<and>
      nc_abs lo m' = (nc_abs lo m)(map lo k := None)"
    by (rule RemoveKey_nc_ok [OF m])
qed

lemma first_from_None: "first_from i bs = None \<longleftrightarrow> concat bs = []"
  by (induction i bs rule: first_from.induct) auto

lemma first_from_Some:
  "first_from i bs = Some q \<Longrightarrow>
     \<exists>p < length bs. q = (i + p, 0) \<and> bs ! p \<noteq> [] \<and> concat bs = concat (drop p bs)"
proof (induction i bs rule: first_from.induct)
  case (2 i bs)
  then obtain p where "p < length bs" "q = (Suc i + p, 0)" "bs ! p \<noteq> []" "concat bs = concat (drop p bs)"
    by auto
  then show ?case by (intro exI [of _ "Suc p"]) simp
qed auto

lemma first_from_drop:
  assumes "first_from i (drop i t) = Some q"
  shows "\<exists>i'. q = (i', 0) \<and> i' < length t \<and> t ! i' \<noteq> [] \<and>
    concat (drop i t) = t ! i' @ concat (drop (Suc i') t)"
proof -
  from first_from_Some [OF assms] obtain p where p: "p < length (drop i t)" "q = (i + p, 0)"
    "drop i t ! p \<noteq> []" "concat (drop i t) = concat (drop p (drop i t))" by blast
  then have "i + p < length t" by simp
  moreover have "concat (drop (i + p) t) = t ! (i + p) @ concat (drop (Suc (i + p)) t)"
    using calculation by (simp flip: Cons_nth_drop_Suc)
  ultimately show ?thesis using p by (intro exI [of _ "i + p"]) (auto simp: add.commute)
qed

lemma walk_op_map:
  "n = length as + length (concat bs) \<Longrightarrow>
     walk_op n (\<lambda>a s. (g a, h a s)) as bs s = Inr (map g as, map (map g) bs, fold h (as @ concat bs) s)"
proof (induction n "\<lambda>a s. (g a, h a s)" as bs s rule: walk_op.induct)
  case (1 as bs s)
  then have "as = []" "concat bs = []" by simp_all
  moreover from this(2) have "map (map g) bs = bs" by (intro map_idI) auto
  ultimately show ?case by (simp del: concat_eq_Nil_conv)
next
  case (3 n b bs s)
  from 3(2) have n: "Suc n = length b + length (concat bs)" by simp
  have "walk_op (Suc n) (\<lambda>a s. (g a, h a s)) [] (b # bs) s =
      bindE (walk_op (Suc n) (\<lambda>a s. (g a, h a s)) b bs s) (\<lambda>(b', bs', s'). Inr ([], b' # bs', s'))"
    by (rule walk_op.simps(3))
  also have "\<dots> = Inr ([], map g b # map (map g) bs, fold h (b @ concat bs) s)"
    by (simp only: 3(1) [OF n] bindE_simps prod.case)
  finally show ?case by (simp only: list.map append_Nil concat.simps)
qed auto

section \<open>Iteration and clearing\<close>

definition pair_of :: "'v assoc \<Rightarrow> bytes \<times> 'v" where
  "pair_of a = (assoc_key a, assoc_value a)"

lemma GetNextAssoc_nc_at:
  assumes "m_pHashTable m = Some t" "length t = m_nHashTableSize m" "placed t" "i < length t" "j < length (t ! i)"
  shows "GetNextAssoc_nc m (At i j) =
    Inr (map_option (\<lambda>(i, j). At i j)
           (if Suc j < length (t ! i) then Some (i, Suc j) else first_from (Suc i) (drop (Suc i) t)),
         pair_of (t ! i ! j))"
proof -
  have "bucket (nHashValue (t ! i ! j)) (m_nHashTableSize m) = i"
    using assms(2-5) by (simp add: placed_def)
  with assms show ?thesis by (simp add: GetNextAssoc_nc_def Let_def pair_of_def)
qed

lemma pairs_from_at:
  assumes "m_pHashTable m = Some t" "length t = m_nHashTableSize m" "placed t"
  shows "i < length t \<Longrightarrow> j < length (t ! i) \<Longrightarrow>
    length (drop j (t ! i) @ concat (drop (Suc i) t)) \<le> n \<Longrightarrow>
    pairs_from n m (Some (At i j)) = Inr (map pair_of (drop j (t ! i) @ concat (drop (Suc i) t)))"
proof (induction n arbitrary: i j)
  case (Suc n)
  have d: "drop j (t ! i) = t ! i ! j # drop (Suc j) (t ! i)" using Suc.prems(2) by (simp add: Cons_nth_drop_Suc)
  note g = GetNextAssoc_nc_at [OF assms Suc.prems(1,2)]
  show ?case
  proof (cases "Suc j < length (t ! i)")
    case True
    have "pairs_from n m (Some (At i (Suc j))) =
        Inr (map pair_of (drop (Suc j) (t ! i) @ concat (drop (Suc i) t)))"
      using Suc.prems d by (intro Suc.IH True) (auto simp only: length_append list.size)
    with True g show ?thesis by (simp add: d pair_of_def)
  next
    case last: False
    then have e: "drop (Suc j) (t ! i) = []" by simp
    show ?thesis
    proof (cases "first_from (Suc i) (drop (Suc i) t)")
      case None
      then have "concat (drop (Suc i) t) = []" by (simp only: first_from_None)
      with None last g show ?thesis by (simp add: d e pair_of_def del: concat_eq_Nil_conv)
    next
      case (Some q)
      from first_from_drop [OF this] obtain i' where q: "q = (i', 0)" "i' < length t" "t ! i' \<noteq> []"
        "concat (drop (Suc i) t) = t ! i' @ concat (drop (Suc i') t)" by blast
      have "pairs_from n m (Some (At i' 0)) = Inr (map pair_of (drop 0 (t ! i') @ concat (drop (Suc i') t)))"
        using Suc.prems(3) q d e by (intro Suc.IH) auto
      with Some last g q show ?thesis by (simp add: d e pair_of_def)
    qed
  qed
qed simp

lemma pairs_from_start:
  assumes "nc_ok lo m"
  shows "pairs_from (m_nCount m) m (GetStartPosition_nc m) = Inr (map pair_of (contents m))"
proof (cases "m_nCount m")
  case 0
  with assms show ?thesis by (simp add: GetStartPosition_nc_def map_ok_def)
next
  case (Suc n)
  with assms obtain t where t: "m_pHashTable m = Some t"
    by (cases "m_pHashTable m") (auto simp: map_ok_def)
  with assms have ok: "length t = m_nHashTableSize m" "placed t" "m_nCount m = length (concat t)"
    by (auto simp: map_ok_def table_ok_def)
  have "concat t \<noteq> []" using ok(3) Suc by (metis list.size(3) nat.distinct(1))
  then have "first_from 0 (drop 0 t) \<noteq> None" by (simp only: first_from_None drop_0 not_False_eq_True)
  then obtain q where "first_from 0 (drop 0 t) = Some q" by blast
  from this first_from_drop [OF this] obtain i where i: "first_from 0 t = Some (i, 0)" "i < length t" "t ! i \<noteq> []"
    "concat t = t ! i @ concat (drop (Suc i) t)" by auto
  have "pairs_from (m_nCount m) m (Some (At i 0)) = Inr (map pair_of (drop 0 (t ! i) @ concat (drop (Suc i) t)))"
    using i ok(3) by (intro pairs_from_at [OF t ok(1,2)]) auto
  moreover have "GetNextAssoc_nc m BeforeStart = GetNextAssoc_nc m (At i 0)"
    using i t by (simp add: GetNextAssoc_nc_def)
  ultimately show ?thesis using i(4) t Suc by (simp add: GetStartPosition_nc_def)
qed

section \<open>What the clients of the map rely on\<close>

text \<open>The table that \<open>CharLower\<close> gives for the letters of the ASCII alphabet.\<close>

definition ascii_lower :: lotable where
  "ascii_lower c = (if 0x41 \<le> c \<and> c \<le> 0x5A then ucast (c + 0x20) else ucast c)"

lemma lo_table_ascii: "lo_table ascii_lower"
  unfolding lo_table_def
proof
  fix c :: byte
  have ucast_0: "(ucast x :: u32) = 0 \<longleftrightarrow> x = 0" for x :: byte
    by transfer (simp add: take_bit_eq_mod)
  have "c + 0x20 \<noteq> 0" if "0x41 \<le> c" "c \<le> 0x5A"
  proof -
    have "unat c \<le> 90" using that(2) by (simp add: word_le_nat_alt)
    then have "unat (c + 0x20) = unat c + 32" by (simp add: unat_byte_add)
    then show ?thesis by auto
  qed
  then show "ascii_lower c = 0 \<longleftrightarrow> c = 0" by (auto simp: ascii_lower_def ucast_0)
qed

context lower_table
begin

lemma lookup_after_nc:
  "\<forall>p \<in> set ps. 0 \<notin> set (op_key p) \<Longrightarrow> 0 \<notin> set k \<Longrightarrow>
     bindE (run_ops (SetAt_nc lo dv) (RemoveKey_nc lo) ps CNoCaseMap) (\<lambda>m. Lookup_nc lo m k) =
       Inr (fold (op_abs (map lo)) ps Map.empty (map lo k))"
  by (rule ncm.lookup_after)

lemma run_ops_nc:
  "\<forall>p \<in> set ps. 0 \<notin> set (op_key p) \<Longrightarrow>
     \<exists>m. run_ops (SetAt_nc lo dv) (RemoveKey_nc lo) ps CNoCaseMap = Inr m \<and> nc_ok lo m \<and>
       nc_abs lo m = fold (op_abs (map lo)) ps Map.empty"
  using ncm.run_ops_refines [OF nc_ok_new(1), of ps dv] by (simp only: nc_ok_new(2))

end

interpretation ascii: lower_table ascii_lower
  by unfold_locales (rule lo_table_ascii)

text \<open>
  C1: any sequence of insertions and removals with string keys runs without a fault on a new
  map, whatever rebuilding of the table it causes, and a lookup afterwards finds what was
  stored last under the key, up to case.
\<close>

theorem nocasemap_refines:
  assumes "lo_table lo" "\<forall>p \<in> set ps. 0 \<notin> set (op_key p)" "0 \<notin> set k"
  shows "bindE (run_ops (SetAt_nc lo dv) (RemoveKey_nc lo) ps CNoCaseMap) (\<lambda>m. Lookup_nc lo m k) =
    Inr (fold (op_abs (map lo)) ps Map.empty (map lo k))"
  using assms by (intro lower_table.lookup_after_nc lower_table.intro)

theorem nocasemap_refines_witness:
  "bindE (run_ops (SetAt_nc ascii_lower 0) (RemoveKey_nc ascii_lower)
       [SetOp (bytes_of ''Host'') 1, SetOp (bytes_of ''Date'') 2, SetOp (bytes_of ''HOST'') (3 :: nat),
        RemoveOp (bytes_of ''date'')] CNoCaseMap)
     (\<lambda>m. Lookup_nc ascii_lower m (bytes_of ''host'')) = Inr (Some 3)"
  by (subst nocasemap_refines [OF lo_table_ascii]) (simp_all add: bytes_of_def ascii_lower_def)

text \<open>
  C7: iterating over a map with \<open>GetStartPosition\<close> and \<open>GetNextAssoc\<close> ends after as many calls
  as \<open>GetCount\<close> says, never reads past the table, and yields every key once with its value.
\<close>

theorem nocasemap_iteration:
  assumes "lo_table lo" "\<forall>p \<in> set ps. 0 \<notin> set (op_key p)"
  shows "\<exists>m r. run_ops (SetAt_nc lo dv) (RemoveKey_nc lo) ps CNoCaseMap = Inr m \<and>
    pairs_from (GetCount_nc m) m (GetStartPosition_nc m) = Inr r \<and>
    distinct (map (\<lambda>(k, v). map lo k) r) \<and>
    map_of (map (\<lambda>(k, v). (map lo k, v)) r) = fold (op_abs (map lo)) ps Map.empty"
proof -
  from lower_table.run_ops_nc [OF lower_table.intro [OF assms(1)] assms(2)] obtain m where
    m: "run_ops (SetAt_nc lo dv) (RemoveKey_nc lo) ps CNoCaseMap = Inr m" "nc_ok lo m"
    "nc_abs lo m = fold (op_abs (map lo)) ps Map.empty" by blast
  have "map (\<lambda>(k, v). map lo k) (map pair_of (contents m)) = map (\<lambda>a. map lo (assoc_key a)) (contents m)"
    "map (\<lambda>(k, v). (map lo k, v)) (map pair_of (contents m)) =
       map (\<lambda>a. (map lo (assoc_key a), assoc_value a)) (contents m)"
    by (simp_all add: pair_of_def comp_def)
  moreover have "distinct (map (\<lambda>a. map lo (assoc_key a)) (contents m))"
    using map_ok_keys [OF m(2)] by (simp add: keys_ok_def)
  moreover have "map_of (map (\<lambda>a. (map lo (assoc_key a), assoc_value a)) (contents m)) = nc_abs lo m"
    by (simp add: map_abs_def assoc_map_def)
  ultimately show ?thesis using m pairs_from_start [OF m(2)]
    by (intro exI [of _ m] exI [of _ "map pair_of (contents m)"]) (simp only: GetCount_nc_def)
qed

theorem nocasemap_iteration_witness:
  "\<exists>m r. run_ops (SetAt_nc ascii_lower 0) (RemoveKey_nc ascii_lower)
      [SetOp (bytes_of ''Host'') 1, SetOp (bytes_of ''HOST'') (3 :: nat)] CNoCaseMap = Inr m \<and>
    pairs_from (GetCount_nc m) m (GetStartPosition_nc m) = Inr r \<and>
    map_of (map (\<lambda>(k, v). (map ascii_lower k, v)) r) = [map ascii_lower (bytes_of ''host'') \<mapsto> 3]"
  using nocasemap_iteration [OF lo_table_ascii,
    of "[SetOp (bytes_of ''Host'') 1, SetOp (bytes_of ''HOST'') (3 :: nat)]" 0]
  by (simp add: bytes_of_def ascii_lower_def) blast

text \<open>
  C25: \<open>InsertExist\<close> answers whether the key was there, stores the value unless it was and
  \<open>bReplace\<close> is off, and touches no other key.
\<close>

theorem InsertExist_correct:
  assumes "lo_table lo" "nc_ok lo m" "0 \<notin> set k" "0 \<notin> set k'"
  shows "\<exists>m'. InsertExist lo dv m k v bReplace = Inr (Lookup_nc lo m k \<noteq> Inr None, m') \<and> nc_ok lo m' \<and>
    Lookup_nc lo m' k' =
      (if map lo k' = map lo k \<and> (Lookup_nc lo m k = Inr None \<or> bReplace) then Inr (Some v)
       else Lookup_nc lo m k')"
proof -
  have l: "lower_table lo" using assms(1) by (rule lower_table.intro)
  note lk = lower_table.Lookup_nc_abs [OF l]
  from lower_table.InsertExist_ok [OF l assms(2,3), of dv v bReplace] obtain m' where
    m': "InsertExist lo dv m k v bReplace = Inr (nc_abs lo m (map lo k) \<noteq> None, m')" "nc_ok lo m'"
    "nc_abs lo m' =
      (if nc_abs lo m (map lo k) \<noteq> None \<and> \<not> bReplace then nc_abs lo m else (nc_abs lo m)(map lo k \<mapsto> v))" by blast
  show ?thesis by (intro exI [of _ m']) (auto simp: m' lk [OF assms(2,3)] lk [OF assms(2,4)] lk [OF m'(2) assms(4)])
qed

theorem InsertExist_correct_witness:
  "\<exists>m'. InsertExist ascii_lower 0 CNoCaseMap (bytes_of ''Host'') (5 :: nat) False = Inr (False, m') \<and>
    Lookup_nc ascii_lower m' (bytes_of ''hOST'') = Inr (Some 5)"
proof -
  have "Lookup_nc ascii_lower (CNoCaseMap :: nat hash_map) k = Inr None" for k
    by (simp add: Lookup_nc_def GetAssocAt_nc_def CNoCaseMap_def Let_def)
  with InsertExist_correct [OF lo_table_ascii nc_ok_new(1), of "bytes_of ''Host''" "bytes_of ''hOST''" 0 "5 :: nat" False]
  show ?thesis by (simp add: bytes_of_def ascii_lower_def) blast
qed





end
