(* ===== verification/IStrMap.thy ===== *)
theory IStrMap
imports Hash_Table
begin

text \<open>
  The map with keys that ignore the case of the code page 1251 of \<open>_1Common/BLColl/istrmap.h\<close>
  and \<open>istrmap.cpp\<close>: the template \<open>CIStringMap\<close>, the map from strings to consecutive indexes
  \<open>CIStringMapToIndex\<close> built on it, and the collection of named items \<open>CCollection\<close>.

  The assertions of the code are compiled away in a release build and are no part of the
  model. Where keys are kept by reference the caller promises that they do not change, so
  an association holds the bytes of its key in either mode. The argument \<open>mem\<close> tells whether
  the allocation of a key succeeds.
\<close>

section \<open>Hash and comparison of keys\<close>

definition m_CS1251_upper :: "u32 list" where
  "m_CS1251_upper =
    [
     0x00, 0x01, 0x02, 0x03, 0x04, 0x05, 0x06, 0x07, 0x08, 0x09, 0x0a, 0x0b, 0x0c, 0x0d, 0x0e, 0x0f,
     0x10, 0x11, 0x12, 0x13, 0x14, 0x15, 0x16, 0x17, 0x18, 0x19, 0x1a, 0x1b, 0x1c, 0x1d, 0x1e, 0x1f,
     0x20, 0x21, 0x22, 0x23, 0x24, 0x25, 0x26, 0x27, 0x28, 0x29, 0x2a, 0x2b, 0x2c, 0x2d, 0x2e, 0x2f,
     0x30, 0x31, 0x32, 0x33, 0x34, 0x35, 0x36, 0x37, 0x38, 0x39, 0x3a, 0x3b, 0x3c, 0x3d, 0x3e, 0x3f,
     0x40, 0x41, 0x42, 0x43, 0x44, 0x45, 0x46, 0x47, 0x48, 0x49, 0x4a, 0x4b, 0x4c, 0x4d, 0x4e, 0x4f,
     0x50, 0x51, 0x52, 0x53, 0x54, 0x55, 0x56, 0x57, 0x58, 0x59, 0x5a, 0x5b, 0x5c, 0x5d, 0x5e, 0x5f,
     0x60, 0x41, 0x42, 0x43, 0x44, 0x45, 0x46, 0x47, 0x48, 0x49, 0x4a, 0x4b, 0x4c, 0x4d, 0x4e, 0x4f,
     0x50, 0x51, 0x52, 0x53, 0x54, 0x55, 0x56, 0x57, 0x58, 0x59, 0x5a, 0x7b, 0x7c, 0x7d, 0x7e, 0x7f,
     0x80, 0x81, 0x82, 0x83, 0x84, 0x85, 0x86, 0x87, 0x88, 0x89, 0x8a, 0x8b, 0x8c, 0x8d, 0x8e, 0x8f,
     0x90, 0x91, 0x92, 0x93, 0x94, 0x95, 0x96, 0x97, 0x98, 0x99, 0x9a, 0x9b, 0x9c, 0x9d, 0x9e, 0x9f,
     0xa0, 0xa1, 0xa2, 0xa3, 0xa4, 0xa5, 0xa6, 0xa7, 0xa8, 0xa9, 0xaa, 0xab, 0xac, 0xad, 0xae, 0xaf,
     0xb0, 0xb1, 0xb2, 0xb3, 0xb4, 0xb5, 0xb6, 0xb7, 0xa8, 0xb9, 0xba, 0xbb, 0xbc, 0xbd, 0xbe, 0xbf,
     0xc0, 0xc1, 0xc2, 0xc3, 0xc4, 0xc5, 0xc6, 0xc7, 0xc8, 0xc9, 0xca, 0xcb, 0xcc, 0xcd, 0xce, 0xcf,
     0xd0, 0xd1, 0xd2, 0xd3, 0xd4, 0xd5, 0xd6, 0xd7, 0xd8, 0xd9, 0xda, 0xdb, 0xdc, 0xdd, 0xde, 0xdf,
     0xc0, 0xc1, 0xc2, 0xc3, 0xc4, 0xc5, 0xc6, 0xc7, 0xc8, 0xc9, 0xca, 0xcb, 0xcc, 0xcd, 0xce, 0xcf,
     0xd0, 0xd1, 0xd2, 0xd3, 0xd4, 0xd5, 0xd6, 0xd7, 0xd8, 0xd9, 0xda, 0xdb, 0xdc, 0xdd, 0xde, 0xdf]"

definition upper :: "byte \<Rightarrow> u32" where
  "upper ch = m_CS1251_upper ! unat ch"

fun HashKey_loop :: "u32 \<Rightarrow> u32 \<Rightarrow> bytes \<Rightarrow> u32" where
  "HashKey_loop x1 x2 [] = x1 + x2"
| "HashKey_loop x1 x2 (ch # k) =
     (if ch = 0 then x1 + x2
      else let y1 = x1 + (word_rotl 4 x2 + 0xe5fc82a9) in
           HashKey_loop y1 (x2 + (word_rotl 4 y1 + upper ch)) k)"

definition HashKey :: "bytes \<Rightarrow> u32" where
  "HashKey k = HashKey_loop 0x14f2affc 0xfac5bd8f k"

text \<open>The difference of the first two upper-case letters that differ, or zero.\<close>

fun Compare :: "bytes \<Rightarrow> bytes \<Rightarrow> u32 outcome" where
  "Compare key1 key2 =
     (let ch2 = symbol key2; n2 = upper ch2; n1 = upper (symbol key1); result = n1 - n2 in
      if result = 0 \<and> ch2 \<noteq> 0
      then (case key1 of
              [] \<Rightarrow> Inl OobRead
            | c1 # k1 \<Rightarrow> (case key2 of [] \<Rightarrow> Inl OobRead | c2 # k2 \<Rightarrow> Compare k1 k2))
      else Inr result)"

declare Compare.simps [simp del]

definition keys_equal :: "bytes \<Rightarrow> bytes \<Rightarrow> bool outcome" where
  "keys_equal key1 key2 = bindE (Compare key1 key2) (\<lambda>r. Inr (r = 0))"

section \<open>The members\<close>

abbreviation DEFAULT_HASH_TABLE_SIZE :: nat where
  "DEFAULT_HASH_TABLE_SIZE \<equiv> 32"

abbreviation DEFAULT_BLOCK_SIZE_RATIO :: nat where
  "DEFAULT_BLOCK_SIZE_RATIO \<equiv> 4"

abbreviation DEFAULT_MAX_BLOCK_SIZE :: nat where
  "DEFAULT_MAX_BLOCK_SIZE \<equiv> 128"

record 'v istrmap = "'v hash_map" +
  m_nBlockSize :: nat
  m_bUseExternalKeys :: bool

text \<open>The constructor does not set \<open>m_nBlockSize\<close>, it keeps the value \<open>bs\<close> it finds.\<close>

definition CIStringMap :: "nat \<Rightarrow> bool \<Rightarrow> 'v istrmap" where
  "CIStringMap bs bUseExternalKeys =
     \<lparr>m_pHashTable = None, m_nHashTableSize = DEFAULT_HASH_TABLE_SIZE, m_nCount = 0, m_pFreeList = 0,
      m_pBlocks = [], m_nBlockSize = bs, m_bUseExternalKeys = bUseExternalKeys\<rparr>"

definition GetCount_is :: "'v istrmap \<Rightarrow> nat" where
  "GetCount_is m = m_nCount m"

definition IsEmpty_is :: "'v istrmap \<Rightarrow> bool" where
  "IsEmpty_is m = (m_nCount m = 0)"

definition GetStartPosition_is :: "'v istrmap \<Rightarrow> position option" where
  "GetStartPosition_is m = (if m_nCount m = 0 then None else Some BeforeStart)"

section \<open>Operations\<close>

text \<open>The loop that doubles \<open>b2\<close>, which is \<open>2 ^ k\<close>, until it reaches \<open>n\<close>.\<close>

function double_to :: "nat \<Rightarrow> nat \<Rightarrow> nat" where
  "double_to n k = (if 2 ^ k < n then double_to n (k + 1) else 2 ^ k)"
  by pat_completeness auto

termination double_to
proof (relation "measure (\<lambda>(n, k). n - k)")
  fix n k :: nat
  assume "2 ^ k < n"
  with less_exp [of k] have "k < n" by (rule less_trans)
  then show "((n, k + 1), n, k) \<in> measure (\<lambda>(n, k). n - k)" by simp
qed simp

declare double_to.simps [simp del]

text \<open>
  The associations that \<open>InitHashTable\<close> moves: chains are visited while the counter, which goes
  down by one for each association, is not zero.
\<close>

fun moved :: "int \<Rightarrow> 'v table \<Rightarrow> 'v assoc list" where
  "moved n [] = []"
| "moved n (b # bs) = (if n = 0 then [] else b @ moved (n - int (length b)) bs)"

definition InitHashTable :: "nat \<Rightarrow> 'v istrmap \<Rightarrow> 'v istrmap outcome" where
  "InitHashTable new_size m =
     (if m_nCount m < new_size \<or> m_nHashTableSize m < new_size
      then let size = double_to (max new_size DEFAULT_HASH_TABLE_SIZE) 0 + 1 in
        bindE (if m_nCount m = 0 then Inr []
               else case m_pHashTable m of None \<Rightarrow> Inl NullDeref | Some t \<Rightarrow> Inr (moved (int (m_nCount m)) t))
          (\<lambda>as. Inr (m\<lparr>m_pHashTable := Some (relink size as), m_nHashTableSize := size,
                       m_nBlockSize := min DEFAULT_MAX_BLOCK_SIZE (size div DEFAULT_BLOCK_SIZE_RATIO)\<rparr>))
      else Inr m)"

text \<open>\<open>RemoveAll\<close> with the associations it destroys.\<close>

definition RemoveAll_is :: "'v istrmap \<Rightarrow> 'v assoc list \<times> 'v istrmap" where
  "RemoveAll_is m =
     ((case m_pHashTable m of None \<Rightarrow> [] | Some t \<Rightarrow> concat t),
      m\<lparr>m_pHashTable := None, m_nHashTableSize := DEFAULT_HASH_TABLE_SIZE, m_nCount := 0,
        m_pFreeList := 0, m_pBlocks := []\<rparr>)"

definition NewAssoc_is :: "'v istrmap \<Rightarrow> 'v istrmap outcome" where
  "NewAssoc_is m =
     (let m1 = (if m_pFreeList m = 0
                then m\<lparr>m_pBlocks := m_nBlockSize m # m_pBlocks m, m_pFreeList := m_nBlockSize m\<rparr> else m) in
      if m_pFreeList m1 = 0 then Inl NullDeref
      else Inr (m1\<lparr>m_pFreeList := m_pFreeList m1 - 1, m_nCount := m_nCount m1 + 1\<rparr>))"

definition FreeAssoc_is :: "'v istrmap \<Rightarrow> 'v istrmap" where
  "FreeAssoc_is m = m\<lparr>m_pFreeList := m_pFreeList m + 1, m_nCount := m_nCount m - 1\<rparr>"

definition GetAssocAt_is :: "'v istrmap \<Rightarrow> bytes \<Rightarrow> 'v assoc option outcome" where
  "GetAssocAt_is m k =
     (let nFullHash = HashKey k; nHash = bucket nFullHash (m_nHashTableSize m) in
      case m_pHashTable m of
        None \<Rightarrow> Inr None
      | Some t \<Rightarrow> chain_find keys_equal nFullHash k (t ! nHash))"

definition Lookup_is :: "'v istrmap \<Rightarrow> bytes \<Rightarrow> 'v option outcome" where
  "Lookup_is m k = bindE (GetAssocAt_is m k) (\<lambda>a. Inr (map_option assoc_value a))"

definition LookupKey_is :: "'v istrmap \<Rightarrow> bytes \<Rightarrow> bytes option outcome" where
  "LookupKey_is m k = bindE (GetAssocAt_is m k) (\<lambda>a. Inr (map_option assoc_key a))"

text \<open>
  \<open>operator[]\<close>: the map in which the reference it returns points to an association of \<open>k\<close>; \<open>dv\<close>
  is the value a new association is constructed with.
\<close>

definition subscript_is :: "bool \<Rightarrow> 'v \<Rightarrow> 'v istrmap \<Rightarrow> bytes \<Rightarrow> 'v istrmap outcome" where
  "subscript_is mem dv m k =
     bindE (GetAssocAt_is m k)
       (\<lambda>r. case r of
              Some _ \<Rightarrow> Inr m
            | None \<Rightarrow>
                bindE (if m_pHashTable m = None then InitHashTable (m_nHashTableSize m) m
                       else if m_nHashTableSize m \<le> m_nCount m * 2 then InitHashTable (m_nHashTableSize m * 2) m
                       else Inr m)
                  (\<lambda>m1. bindE (NewAssoc_is m1)
                    (\<lambda>m2. if \<not> m_bUseExternalKeys m2 \<and> \<not> mem then Inl NullDeref
                          else let a = \<lparr>nHashValue = HashKey k, assoc_key = k, assoc_value = dv\<rparr> in
                            case m_pHashTable m2 of
                              None \<Rightarrow> Inl NullDeref
                            | Some t \<Rightarrow> Inr (m2\<lparr>m_pHashTable := Some (link a t)\<rparr>))))"

definition assign_is :: "'v istrmap \<Rightarrow> bytes \<Rightarrow> 'v \<Rightarrow> 'v istrmap outcome" where
  "assign_is m k v =
     (case m_pHashTable m of
        None \<Rightarrow> Inl NullDeref
      | Some t \<Rightarrow>
          (let h = HashKey k; i = bucket h (m_nHashTableSize m) in
           bindE (chain_assign keys_equal h k v (t ! i))
             (\<lambda>c. Inr (m\<lparr>m_pHashTable := Some (t[i := c])\<rparr>))))"

definition SetAt_is :: "bool \<Rightarrow> 'v \<Rightarrow> 'v istrmap \<Rightarrow> bytes \<Rightarrow> 'v \<Rightarrow> 'v istrmap outcome" where
  "SetAt_is mem dv m k v = bindE (subscript_is mem dv m k) (\<lambda>m'. assign_is m' k v)"

definition RemoveKey_is :: "'v istrmap \<Rightarrow> bytes \<Rightarrow> (bool \<times> 'v istrmap) outcome" where
  "RemoveKey_is m k =
     (case m_pHashTable m of
        None \<Rightarrow> Inr (False, m)
      | Some t \<Rightarrow>
          (let nFullHash = HashKey k; nHash = bucket nFullHash (m_nHashTableSize m) in
           bindE (chain_remove keys_equal nFullHash k (t ! nHash))
             (\<lambda>r. case r of
                    None \<Rightarrow> Inr (False, m)
                  | Some (a, c) \<Rightarrow>
                      (let m1 = FreeAssoc_is (m\<lparr>m_pHashTable := Some (t[nHash := c])\<rparr>) in
                       bindE (if DEFAULT_HASH_TABLE_SIZE < m_nHashTableSize m1 \<and>
                                 m_nCount m1 * 8 < m_nHashTableSize m1
                              then InitHashTable (m_nHashTableSize m1 div 2) m1 else Inr m1)
                         (\<lambda>m2. Inr (True, m2))))))"

definition GetNextAssoc_is :: "'v istrmap \<Rightarrow> position \<Rightarrow> (position option \<times> bytes \<times> 'v) outcome" where
  "GetNextAssoc_is m p =
     (case m_pHashTable m of
        None \<Rightarrow> Inl NullDeref
      | Some t \<Rightarrow>
          bindE (case p of
                   BeforeStart \<Rightarrow> (case first_from 0 t of None \<Rightarrow> Inl NullDeref | Some q \<Rightarrow> Inr q)
                 | At i j \<Rightarrow> if i < length t \<and> j < length (t ! i) then Inr (i, j) else Inl UseAfterFree)
            (\<lambda>(i, j).
               let a = t ! i ! j;
                   nBucket = bucket (nHashValue a) (m_nHashTableSize m) + 1;
                   nxt = (if Suc j < length (t ! i) then Some (i, Suc j)
                          else first_from nBucket (drop nBucket t)) in
               Inr (map_option (\<lambda>(i, j). At i j) nxt, assoc_key a, assoc_value a)))"

section \<open>Keys up to case\<close>

lemma upper_0_iff: "upper c = 0 \<longleftrightarrow> c = 0"
proof (cases "unat c")
  case 0
  then have "c = 0" by (simp add: unat_eq_0)
  then show ?thesis by (simp add: upper_def m_CS1251_upper_def)
next
  case (Suc n)
  have "length m_CS1251_upper = 256" by (simp add: m_CS1251_upper_def)
  moreover have "n < 255" using unat_byte [of c] Suc by simp
  ultimately have "upper c \<in> set (tl m_CS1251_upper)"
    using Suc nth_mem [of n "tl m_CS1251_upper"] by (simp add: upper_def nth_tl)
  moreover have "0 \<notin> set (tl m_CS1251_upper)" by (simp add: m_CS1251_upper_def)
  ultimately show ?thesis using Suc by auto
qed

lemma Compare_simps:
  "Compare [] [] = Inr 0"
  "c \<noteq> 0 \<Longrightarrow> Compare [] (c # k) = Inr (- upper c)"
  "c \<noteq> 0 \<Longrightarrow> Compare (c # k) [] = Inr (upper c)"
  "d \<noteq> 0 \<Longrightarrow> Compare (c # k) (d # l) = (if upper c = upper d then Compare k l else Inr (upper c - upper d))"
  using upper_0_iff [of 0] upper_0_iff [of c]
  by (subst Compare.simps; simp)+

lemma keys_equal_correct:
  "0 \<notin> set k \<Longrightarrow> 0 \<notin> set k' \<Longrightarrow> keys_equal k k' = Inr (map upper k = map upper k')"
  unfolding keys_equal_def
proof (induction k arbitrary: k')
  case Nil
  then show ?case using upper_0_iff [of "hd k'"] by (cases k') (auto simp: Compare_simps)
next
  case (Cons c k)
  then show ?case using upper_0_iff [of c] by (cases k') (auto simp: Compare_simps)
qed

lemma HashKey_loop_norm:
  "0 \<notin> set k \<Longrightarrow> 0 \<notin> set k' \<Longrightarrow> map upper k = map upper k' \<Longrightarrow> HashKey_loop x1 x2 k = HashKey_loop x1 x2 k'"
proof (induction k arbitrary: k' x1 x2)
  case (Cons c k)
  then show ?case by (cases k') (auto simp: Let_def)
qed simp

interpretation isk: string_keys "map upper" HashKey keys_equal
proof unfold_locales
  fix k k' :: bytes assume k: "0 \<notin> set k" "0 \<notin> set k'"
  then show "keys_equal k k' = Inr (map upper k = map upper k')" by (rule keys_equal_correct)
  assume "map upper k = map upper k'"
  with k show "HashKey k = HashKey k'" unfolding HashKey_def by (rule HashKey_loop_norm)
qed

section \<open>Every operation keeps the invariant\<close>

definition is_ok :: "'v istrmap \<Rightarrow> bool" where
  "is_ok m \<longleftrightarrow> map_ok (map upper) HashKey m \<and>
     (if m_pHashTable m = None then m_nHashTableSize m = DEFAULT_HASH_TABLE_SIZE else 0 < m_nBlockSize m)"

abbreviation is_abs :: "'v istrmap \<Rightarrow> u32 list \<Rightarrow> 'v option" where
  "is_abs \<equiv> map_abs (map upper)"

lemma is_ok_new: "is_ok (CIStringMap bs ext)" "is_abs (CIStringMap bs ext) = Map.empty"
  by (simp_all add: CIStringMap_def is_ok_def map_ok_def map_abs_def contents_def assoc_map_def)

lemma moved_all: "n = int (length (concat bs)) \<Longrightarrow> moved n bs = concat bs"
proof (induction bs arbitrary: n)
  case (Cons b bs)
  show ?case
  proof (cases "n = 0")
    case True
    with Cons.prems have "int (length (concat (b # bs))) = 0" by metis
    then have "length (concat (b # bs)) = 0" by (simp only: of_nat_eq_0_iff)
    then have "concat (b # bs) = []" by (simp only: length_0_conv)
    with True show ?thesis by (simp only: moved.simps refl if_True)
  next
    case False
    with Cons show ?thesis by simp
  qed
qed simp

lemma double_to_ge: "n \<le> double_to n k"
  by (induction n k rule: double_to.induct) (subst double_to.simps, auto)

lemma InitHashTable_ok:
  assumes "is_ok m" "m_nCount m < n \<or> m_nHashTableSize m < n"
  shows "\<exists>m' t. InitHashTable n m = Inr m' \<and> is_ok m' \<and> m_pHashTable m' = Some t \<and>
    is_abs m' = is_abs m \<and> m_bUseExternalKeys m' = m_bUseExternalKeys m"
proof -
  let ?size = "double_to (max n DEFAULT_HASH_TABLE_SIZE) 0 + 1"
  let ?t = "relink ?size (contents m)"
  let ?m = "m\<lparr>m_pHashTable := Some ?t, m_nHashTableSize := ?size,
      m_nBlockSize := min DEFAULT_MAX_BLOCK_SIZE (?size div DEFAULT_BLOCK_SIZE_RATIO)\<rparr>"
  have m: "map_ok (map upper) HashKey m" using assms(1) by (simp add: is_ok_def)
  have "(if m_nCount m = 0 then Inr []
      else case m_pHashTable m of None \<Rightarrow> Inl NullDeref | Some t \<Rightarrow> Inr (moved (int (m_nCount m)) t)) =
      (Inr (contents m) :: fault + 'a assoc list)"
    using m by (cases "m_pHashTable m") (auto simp: map_ok_def moved_all)
  then have i: "InitHashTable n m = Inr ?m"
    using assms(2) by (simp add: InitHashTable_def Let_def)
  have size: "0 < ?size" "32 < ?size" using double_to_ge [of "max n DEFAULT_HASH_TABLE_SIZE" 0] by simp_all
  have "length (concat ?t) = length (contents m)" using mset_relink [OF size(1)] mset_eq_length by metis
  moreover have "0 < ?size div DEFAULT_BLOCK_SIZE_RATIO" using size(2) by (simp add: div_greater_zero_iff)
  ultimately have "is_ok ?m"
    using m isk.table_relink(1) [OF map_ok_keys [OF m] size(1)]
    by (simp add: is_ok_def map_ok_def del: add_Suc_right)
  moreover have "is_abs ?m = is_abs m"
    using isk.table_relink(2) [OF map_ok_keys [OF m] size(1)] by (simp add: map_abs_def)
  ultimately show ?thesis using i by (intro exI [of _ ?m] exI [of _ ?t]) simp
qed

lemma GetAssocAt_is_find:
  assumes "is_ok m" "0 \<notin> set k"
  shows "GetAssocAt_is m k = Inr (find (\<lambda>a. map upper (assoc_key a) = map upper k) (contents m))"
proof (cases "m_pHashTable m")
  case (Some t)
  with assms isk.table_find [of t k] show ?thesis by (auto simp: GetAssocAt_is_def is_ok_def map_ok_def Let_def)
qed (simp add: GetAssocAt_is_def)

lemma Lookup_is_abs:
  assumes "is_ok m" "0 \<notin> set k"
  shows "Lookup_is m k = Inr (is_abs m (map upper k))"
  using GetAssocAt_is_find [OF assms] by (simp add: Lookup_is_def map_abs_def assoc_map_find)

lemma NewAssoc_is_ok:
  assumes "0 < m_nBlockSize m" "m_pFreeList m + m_nCount m = sum_list (m_pBlocks m)"
  shows "\<exists>m'. NewAssoc_is m = Inr m' \<and> m_pHashTable m' = m_pHashTable m \<and>
    m_nHashTableSize m' = m_nHashTableSize m \<and> m_nCount m' = Suc (m_nCount m) \<and>
    m_pFreeList m' + m_nCount m' = sum_list (m_pBlocks m') \<and>
    m_nBlockSize m' = m_nBlockSize m \<and> m_bUseExternalKeys m' = m_bUseExternalKeys m"
  using assms by (auto simp: NewAssoc_is_def Let_def)

lemma grow_is_ok:
  assumes "is_ok m"
  shows "\<exists>m1 t. (if m_pHashTable m = None then InitHashTable (m_nHashTableSize m) m
      else if m_nHashTableSize m \<le> m_nCount m * 2 then InitHashTable (m_nHashTableSize m * 2) m else Inr m) = Inr m1 \<and>
    is_ok m1 \<and> m_pHashTable m1 = Some t \<and> is_abs m1 = is_abs m \<and> m_bUseExternalKeys m1 = m_bUseExternalKeys m"
proof (cases "m_pHashTable m")
  case None
  then have "m_nCount m < m_nHashTableSize m" using assms by (simp add: is_ok_def map_ok_def)
  with None show ?thesis using InitHashTable_ok [OF assms, of "m_nHashTableSize m"] by simp
next
  case (Some t)
  then have "length t = m_nHashTableSize m" "table_ok (map upper) HashKey t"
    using assms by (simp_all add: is_ok_def map_ok_def)
  then have "0 < m_nHashTableSize m" by (metis table_ok_def)
  then have "m_nHashTableSize m < m_nHashTableSize m * 2" by simp
  with Some show ?thesis using InitHashTable_ok [OF assms, of "m_nHashTableSize m * 2"] assms by simp
qed

lemma link_is_ok:
  fixes dv :: 'v
  assumes "is_ok m1" "m_pHashTable m1 = Some t" "0 \<notin> set k" "is_abs m1 (map upper k) = None"
  defines "a \<equiv> \<lparr>nHashValue = HashKey k, assoc_key = k, assoc_value = dv\<rparr>"
  shows "\<exists>m2. NewAssoc_is m1 = Inr m2 \<and> m_pHashTable m2 = Some t \<and>
    is_ok (m2\<lparr>m_pHashTable := Some (link a t)\<rparr>) \<and>
    is_abs (m2\<lparr>m_pHashTable := Some (link a t)\<rparr>) = (is_abs m1)(map upper k \<mapsto> dv) \<and>
    m_bUseExternalKeys m2 = m_bUseExternalKeys m1"
proof -
  have t: "0 < m_nBlockSize m1" "m_pFreeList m1 + m_nCount m1 = sum_list (m_pBlocks m1)"
    "table_ok (map upper) HashKey t" "length t = m_nHashTableSize m1" "m_nCount m1 = length (concat t)"
    using assms(1,2) by (auto simp: is_ok_def map_ok_def)
  from NewAssoc_is_ok [OF t(1,2)] obtain m2 where m2: "NewAssoc_is m1 = Inr m2" "m_pHashTable m2 = Some t"
    "m_nHashTableSize m2 = m_nHashTableSize m1" "m_nCount m2 = Suc (m_nCount m1)"
    "m_pFreeList m2 + m_nCount m2 = sum_list (m_pBlocks m2)" "m_nBlockSize m2 = m_nBlockSize m1"
    "m_bUseExternalKeys m2 = m_bUseExternalKeys m1" using assms(2) by auto
  have "hashed HashKey a" using assms(3) by (simp add: hashed_def a_def)
  moreover have "assoc_map (map upper) (concat t) (map upper (assoc_key a)) = None"
    using assms(2,4) by (simp add: map_abs_def a_def)
  ultimately have l: "table_ok (map upper) HashKey (link a t)"
    "assoc_map (map upper) (concat (link a t)) = (assoc_map (map upper) (concat t))(map upper (assoc_key a) \<mapsto> assoc_value a)"
    using isk.table_link [OF t(3)] by blast+
  have "0 < length t" using t(3) by (simp add: table_ok_def)
  from mset_link [OF this, of a] have "length (concat (link a t)) = Suc (length (concat t))"
    by (metis size_add_mset size_mset)
  with t m2 l(1) have "is_ok (m2\<lparr>m_pHashTable := Some (link a t)\<rparr>)" by (simp add: is_ok_def map_ok_def)
  moreover have "is_abs (m2\<lparr>m_pHashTable := Some (link a t)\<rparr>) = (is_abs m1)(map upper k \<mapsto> dv)"
    using l(2) assms(2) by (simp add: map_abs_def a_def)
  ultimately show ?thesis using m2 by blast
qed

lemma subscript_is_ok:
  assumes "is_ok m" "0 \<notin> set k" "mem \<or> m_bUseExternalKeys m"
  shows "\<exists>m' w. subscript_is mem dv m k = Inr m' \<and> is_ok m' \<and> is_abs m' (map upper k) = Some w \<and>
    is_abs m' = (is_abs m)(map upper k \<mapsto> w) \<and> m_bUseExternalKeys m' = m_bUseExternalKeys m \<and>
    (is_abs m (map upper k) \<noteq> None \<longrightarrow> m' = m)"
proof -
  have g: "map_option assoc_value (find (\<lambda>a. map upper (assoc_key a) = map upper k) (contents m)) =
      is_abs m (map upper k)" by (simp add: map_abs_def assoc_map_find)
  show ?thesis
  proof (cases "find (\<lambda>a. map upper (assoc_key a) = map upper k) (contents m)")
    case (Some b)
    then have b: "is_abs m (map upper k) = Some (assoc_value b)" using g by simp
    have "subscript_is mem dv m k = Inr m" by (simp add: subscript_is_def GetAssocAt_is_find [OF assms(1,2)] Some)
    with b assms(1) show ?thesis by (intro exI [of _ m] exI [of _ "assoc_value b"]) auto
  next
    case None
    then have none: "is_abs m (map upper k) = None" using g by simp
    from grow_is_ok [OF assms(1)] obtain m1 t where m1:
      "(if m_pHashTable m = None then InitHashTable (m_nHashTableSize m) m
        else if m_nHashTableSize m \<le> m_nCount m * 2 then InitHashTable (m_nHashTableSize m * 2) m else Inr m) = Inr m1"
      "is_ok m1" "m_pHashTable m1 = Some t" "is_abs m1 = is_abs m" "m_bUseExternalKeys m1 = m_bUseExternalKeys m" by blast
    from link_is_ok [OF m1(2,3) assms(2), of dv] none m1(4) obtain m2 where m2: "NewAssoc_is m1 = Inr m2"
      "m_pHashTable m2 = Some t" "m_bUseExternalKeys m2 = m_bUseExternalKeys m1"
      "is_ok (m2\<lparr>m_pHashTable := Some (link \<lparr>nHashValue = HashKey k, assoc_key = k, assoc_value = dv\<rparr> t)\<rparr>)"
      "is_abs (m2\<lparr>m_pHashTable := Some (link \<lparr>nHashValue = HashKey k, assoc_key = k, assoc_value = dv\<rparr> t)\<rparr>) =
         (is_abs m)(map upper k \<mapsto> dv)" by metis
    have "subscript_is mem dv m k =
        Inr (m2\<lparr>m_pHashTable := Some (link \<lparr>nHashValue = HashKey k, assoc_key = k, assoc_value = dv\<rparr> t)\<rparr>)"
      using assms(3) by (auto simp: subscript_is_def GetAssocAt_is_find [OF assms(1,2)] None m1(1,5) m2(1-3) Let_def)
    with m1(5) m2(3-5) none show ?thesis
      by (intro exI [of _ "m2\<lparr>m_pHashTable := Some (link \<lparr>nHashValue = HashKey k, assoc_key = k, assoc_value = dv\<rparr> t)\<rparr>"]
            exI [of _ dv]) simp
  qed
qed

lemma assign_is_ok:
  assumes "is_ok m" "0 \<notin> set k" "is_abs m (map upper k) = Some w"
  shows "\<exists>m'. assign_is m k v = Inr m' \<and> is_ok m' \<and> is_abs m' = (is_abs m)(map upper k \<mapsto> v) \<and>
    m_bUseExternalKeys m' = m_bUseExternalKeys m"
proof (cases "m_pHashTable m")
  case None
  with assms(3) show ?thesis by (simp add: map_abs_def assoc_map_def)
next
  case (Some t)
  then have t: "table_ok (map upper) HashKey t" "length t = m_nHashTableSize m"
    "assoc_map (map upper) (concat t) (map upper k) = Some w"
    using assms(1,3) by (auto simp: is_ok_def map_ok_def map_abs_def)
  note a = isk.table_assign [OF t(1) assms(2) t(3), of v]
  from a Some t(2) assms(1) show ?thesis
    by (auto simp: assign_is_def Let_def is_ok_def map_ok_def map_abs_def)
qed

lemma SetAt_is_ok:
  assumes "is_ok m" "0 \<notin> set k" "mem \<or> m_bUseExternalKeys m"
  shows "\<exists>m'. SetAt_is mem dv m k v = Inr m' \<and> is_ok m' \<and> is_abs m' = (is_abs m)(map upper k \<mapsto> v) \<and>
    m_bUseExternalKeys m' = m_bUseExternalKeys m"
proof -
  from subscript_is_ok [OF assms, of dv] obtain m1 w where m1: "subscript_is mem dv m k = Inr m1"
    "is_ok m1" "is_abs m1 (map upper k) = Some w" "is_abs m1 = (is_abs m)(map upper k \<mapsto> w)"
    "m_bUseExternalKeys m1 = m_bUseExternalKeys m" by blast
  from assign_is_ok [OF m1(2) assms(2) m1(3), of v] m1(1,4,5) show ?thesis by (auto simp: SetAt_is_def)
qed

lemma InitHashTable_total:
  assumes "is_ok m"
  shows "\<exists>m'. InitHashTable n m = Inr m' \<and> is_ok m' \<and> is_abs m' = is_abs m \<and>
    m_bUseExternalKeys m' = m_bUseExternalKeys m"
proof (cases "m_nCount m < n \<or> m_nHashTableSize m < n")
  case True
  from InitHashTable_ok [OF assms this] show ?thesis by blast
next
  case False
  then have "InitHashTable n m = Inr m" unfolding InitHashTable_def by (simp only: if_False)
  with assms show ?thesis by blast
qed

lemma RemoveKey_is_ok:
  assumes "is_ok m" "0 \<notin> set k"
  shows "\<exists>m'. RemoveKey_is m k = Inr (is_abs m (map upper k) \<noteq> None, m') \<and> is_ok m' \<and>
    is_abs m' = (is_abs m)(map upper k := None) \<and> m_bUseExternalKeys m' = m_bUseExternalKeys m"
proof (cases "m_pHashTable m")
  case None
  then have "is_abs m = Map.empty" by (simp add: map_abs_def assoc_map_def)
  with None assms(1) show ?thesis by (simp add: RemoveKey_is_def)
next
  case (Some t)
  have t: "table_ok (map upper) HashKey t" "length t = m_nHashTableSize m"
    using assms(1) Some by (auto simp: is_ok_def map_ok_def)
  let ?i = "bucket (HashKey k) (m_nHashTableSize m)"
  show ?thesis
  proof (cases "find (\<lambda>a. map upper (assoc_key a) = map upper k) (concat t)")
    case None
    then have "is_abs m (map upper k) = None" using Some by (simp add: map_abs_def assoc_map_find)
    moreover have "RemoveKey_is m k = Inr (False, m)"
      using isk.table_remove_none [OF t(1) assms(2) None] t(2) Some by (simp add: RemoveKey_is_def Let_def)
    ultimately show ?thesis using assms(1) by (intro exI [of _ m]) (simp add: fun_upd_idem)
  next
    case found: (Some a)
    then have a: "is_abs m (map upper k) = Some (assoc_value a)" using Some by (simp add: map_abs_def assoc_map_find)
    note r = isk.table_remove [OF t(1) assms(2) found, unfolded t(2)]
    let ?t = "t[?i := remove1 a (t ! ?i)]"
    let ?m = "FreeAssoc_is (m\<lparr>m_pHashTable := Some ?t\<rparr>)"
    have "length (concat t) = Suc (length (concat ?t))" using r(2) by (metis size_add_mset size_mset)
    then have ok: "is_ok ?m" using assms(1) Some r(3) t(2) by (simp add: is_ok_def map_ok_def FreeAssoc_is_def)
    have ab: "is_abs ?m = (is_abs m)(map upper k := None)" "m_bUseExternalKeys ?m = m_bUseExternalKeys m"
      using r(4) Some by (simp_all add: map_abs_def FreeAssoc_is_def)
    obtain m' where "(if DEFAULT_HASH_TABLE_SIZE < m_nHashTableSize ?m \<and> m_nCount ?m * 8 < m_nHashTableSize ?m
        then InitHashTable (m_nHashTableSize ?m div 2) ?m else Inr ?m) = Inr m'" "is_ok m'" "is_abs m' = is_abs ?m"
      "m_bUseExternalKeys m' = m_bUseExternalKeys ?m"
      using InitHashTable_total [OF ok, of "m_nHashTableSize ?m div 2"] ok by (metis (full_types))
    with Some r(1) a ab show ?thesis by (simp add: RemoveKey_is_def Let_def)
  qed
qed

interpretation ism: keyed_map "map upper" is_ok is_abs "CIStringMap bs ext" Lookup_is "SetAt_is True dv" RemoveKey_is
  for bs ext dv
proof unfold_locales
  fix m :: "'a istrmap" and k :: bytes and v
  assume m: "is_ok m" "0 \<notin> set k"
  show "Lookup_is m k = Inr (is_abs m (map upper k))" by (rule Lookup_is_abs [OF m])
  show "\<exists>m'. SetAt_is True dv m k v = Inr m' \<and> is_ok m' \<and> is_abs m' = (is_abs m)(map upper k \<mapsto> v)"
    using SetAt_is_ok [OF m, of True] by blast
  show "\<exists>m'. RemoveKey_is m k = Inr (is_abs m (map upper k) \<noteq> None, m') \<and> is_ok m' \<and>
      is_abs m' = (is_abs m)(map upper k := None)"
    using RemoveKey_is_ok [OF m] by blast
qed (rule is_ok_new)+

section \<open>Iteration\<close>

text \<open>The position of the association number \<open>p\<close>, and null behind the last one.\<close>

definition position_of :: "nat list \<Rightarrow> nat \<Rightarrow> position" where
  "position_of ls p = (case place 0 ls p of (i, j) \<Rightarrow> At i j)"

definition shape :: "('v, 'z) hash_map_scheme \<Rightarrow> nat list" where
  "shape m = (case m_pHashTable m of None \<Rightarrow> [] | Some t \<Rightarrow> map length t)"

lemma GetNextAssoc_is_nth:
  assumes "is_ok m" "p < length (contents m)"
  shows "GetNextAssoc_is m (position_of (shape m) p) =
    Inr (if Suc p < length (contents m) then Some (position_of (shape m) (Suc p)) else None,
         assoc_key (contents m ! p), assoc_value (contents m ! p))"
proof -
  from assms(2) obtain t where t: "m_pHashTable m = Some t" by (cases "m_pHashTable m") auto
  obtain i j where p: "place 0 (map length t) p = (i, j)" by (cases "place 0 (map length t) p")
  have ij: "i < length t" "j < length (t ! i)" "t ! i ! j = concat t ! p"
    using place_nth [OF _ p] assms(2) t by auto
  have ok: "length t = m_nHashTableSize m" "placed t" using assms(1) t by (auto simp: is_ok_def map_ok_def table_ok_def)
  have "bucket (nHashValue (t ! i ! j)) (m_nHashTableSize m) = i" using ok ij(1,2) by (simp add: placed_def)
  then have "GetNextAssoc_is m (At i j) =
      Inr (map_option (\<lambda>(i, j). At i j)
             (if Suc j < length (t ! i) then Some (i, Suc j) else first_from (Suc i) (drop (Suc i) t)),
           assoc_key (concat t ! p), assoc_value (concat t ! p))"
    using ij t by (simp add: GetNextAssoc_is_def Let_def)
  also have "(if Suc j < length (t ! i) then Some (i, Suc j) else first_from (Suc i) (drop (Suc i) t)) =
      (if Suc p < length (concat t) then Some (place 0 (map length t) (Suc p)) else None)"
    using assms(2) t by (intro place_next p) simp
  finally show ?thesis using t by (simp add: position_of_def shape_def p)
qed

lemma GetNextAssoc_is_start:
  assumes "contents m \<noteq> []"
  shows "GetNextAssoc_is m BeforeStart = GetNextAssoc_is m (position_of (shape m) 0)"
proof -
  from assms obtain t where t: "m_pHashTable m = Some t" by (cases "m_pHashTable m") auto
  obtain i j where p: "place 0 (map length t) 0 = (i, j)" by (cases "place 0 (map length t) 0")
  have "concat t \<noteq> []" using assms t by simp
  then have "first_from 0 t = Some (i, j)" "i < length t \<and> j < length (t ! i)"
    using first_from_place [of t] place_nth [OF _ p] p by (auto simp del: concat_eq_Nil_conv)
  with t p show ?thesis by (simp add: GetNextAssoc_is_def position_of_def shape_def)
qed

lemma SetAt_is_existing:
  assumes "is_ok m" "p < length (contents m)" "k = assoc_key (contents m ! p)"
  shows "\<exists>m'. SetAt_is mem dv m k v = Inr m' \<and> is_ok m' \<and> shape m' = shape m \<and>
    contents m' = (contents m)[p := (contents m ! p)\<lparr>assoc_value := v\<rparr>] \<and> m_nCount m' = m_nCount m \<and>
    m_bUseExternalKeys m' = m_bUseExternalKeys m"
proof -
  from assms(2) obtain t where t: "m_pHashTable m = Some t" by (cases "m_pHashTable m") auto
  have ok: "table_ok (map upper) HashKey t" "length t = m_nHashTableSize m"
    using assms(1) t by (auto simp: is_ok_def map_ok_def)
  then have ks: "keys_ok (map upper) HashKey (concat t)" by (simp add: table_ok_def)
  have p: "p < length (concat t)" "k = assoc_key (concat t ! p)" using assms(2,3) t by simp_all
  have dist: "distinct (map (\<lambda>a. map upper (assoc_key a)) (concat t))" using ks by (simp add: keys_ok_def)
  have "concat t ! p \<in> set (concat t)" using p(1) by (rule nth_mem)
  with ks p(2) have k: "0 \<notin> set k" unfolding keys_ok_def hashed_def by blast
  have f: "find (\<lambda>a. map upper (assoc_key a) = map upper k) (concat t) = Some (concat t ! p)"
    using find_unique [OF dist \<open>concat t ! p \<in> set (concat t)\<close>] p(2) by simp
  then have "assoc_map (map upper) (concat t) (map upper k) = Some (assoc_value (concat t ! p))"
    by (simp add: assoc_map_find)
  note a = isk.table_assign [OF ok(1) k this, of v, unfolded ok(2)]
  have upd: "map (isk.assign k v) (concat t) = (concat t)[p := (concat t ! p)\<lparr>assoc_value := v\<rparr>]"
    using isk.map_assign_at [OF dist p(1)] p(2) by simp
  let ?i = "bucket (HashKey k) (m_nHashTableSize m)"
  let ?m = "m\<lparr>m_pHashTable := Some (t[?i := map (isk.assign k v) (t ! ?i)])\<rparr>"
  have "SetAt_is mem dv m k v = Inr ?m"
    using a(1) t f GetAssocAt_is_find [OF assms(1) k]
    by (simp add: SetAt_is_def subscript_is_def assign_is_def Let_def)
  moreover have "is_ok ?m" using a(2,4) assms(1) t ok(2) by (simp add: is_ok_def map_ok_def)
  moreover have "contents ?m = (contents m)[p := (contents m ! p)\<lparr>assoc_value := v\<rparr>]"
    using a(5) t by (simp add: upd)
  ultimately show ?thesis using a(6) t by (intro exI [of _ ?m]) (simp add: shape_def)
qed

section \<open>Strings and consecutive indexes\<close>

text \<open>
  The loop over all associations of \<open>ShiftIndexes\<close> and \<open>Move\<close>: \<open>f\<close> tells which new index the
  body stores for an index, if any. The loop makes at most \<open>n\<close> steps; as many as there are
  associations are enough.
\<close>

fun update_each ::
  "nat \<Rightarrow> bool \<Rightarrow> (int \<Rightarrow> int option) \<Rightarrow> int istrmap \<Rightarrow> position option \<Rightarrow> int istrmap outcome" where
  "update_each n mem f m None = Inr m"
| "update_each 0 mem f m (Some p) = Inl UseAfterFree"
| "update_each (Suc n) mem f m (Some p) =
     bindE (GetNextAssoc_is m p)
       (\<lambda>(p', sHashKey, nHashIndex).
          bindE (case f nHashIndex of None \<Rightarrow> Inr m | Some i \<Rightarrow> SetAt_is mem 0 m sHashKey i)
            (\<lambda>m'. update_each n mem f m' p'))"

definition ShiftIndexes :: "bool \<Rightarrow> int \<Rightarrow> int \<Rightarrow> int istrmap \<Rightarrow> int istrmap outcome" where
  "ShiftIndexes mem nStartIndex nDelta m =
     update_each (GetCount_is m) mem
       (\<lambda>nHashIndex. if nHashIndex \<ge> nStartIndex then Some (nHashIndex + nDelta) else None)
       m (GetStartPosition_is m)"

definition Add_ix :: "bool \<Rightarrow> int istrmap \<Rightarrow> bytes \<Rightarrow> (int \<times> int istrmap) outcome" where
  "Add_ix mem m szKey =
     bindE (Lookup_is m szKey)
       (\<lambda>_. let nIndex = int (GetCount_is m) in
            bindE (SetAt_is mem 0 m szKey nIndex) (\<lambda>m'. Inr (nIndex, m')))"

definition Insert_ix :: "bool \<Rightarrow> int istrmap \<Rightarrow> int \<Rightarrow> bytes \<Rightarrow> int istrmap outcome" where
  "Insert_ix mem m nIndex szKey =
     bindE (Lookup_is m szKey)
       (\<lambda>_. bindE (ShiftIndexes mem nIndex 1 m) (\<lambda>m'. SetAt_is mem 0 m' szKey nIndex))"

text \<open>The index of a key that is not there is whatever the variable \<open>nIndex\<close> holds, \<open>junk\<close>.\<close>

definition Remove_ix :: "bool \<Rightarrow> int \<Rightarrow> int istrmap \<Rightarrow> bytes \<Rightarrow> (int \<times> int istrmap) outcome" where
  "Remove_ix mem junk m szKey =
     bindE (Lookup_is m szKey)
       (\<lambda>r. let nIndex = (case r of None \<Rightarrow> junk | Some i \<Rightarrow> i) in
            bindE (RemoveKey_is m szKey)
              (\<lambda>(_, m1). bindE (ShiftIndexes mem nIndex (-1) m1) (\<lambda>m'. Inr (nIndex, m'))))"

text \<open>The loop that looks for the key of an index and removes it.\<close>

fun remove_index :: "nat \<Rightarrow> int \<Rightarrow> int istrmap \<Rightarrow> position option \<Rightarrow> int istrmap outcome" where
  "remove_index n nIndex m None = Inr m"
| "remove_index 0 nIndex m (Some p) = Inl UseAfterFree"
| "remove_index (Suc n) nIndex m (Some p) =
     bindE (GetNextAssoc_is m p)
       (\<lambda>(p', sHashKey, nHashIndex).
          if nHashIndex = nIndex then bindE (RemoveKey_is m sHashKey) (\<lambda>(_, m'). Inr m')
          else remove_index n nIndex m p')"

definition RemoveAt_ix :: "bool \<Rightarrow> int istrmap \<Rightarrow> int \<Rightarrow> int istrmap outcome" where
  "RemoveAt_ix mem m nIndex =
     bindE (remove_index (GetCount_is m) nIndex m (GetStartPosition_is m))
       (ShiftIndexes mem nIndex (-1))"

definition Move_ix :: "bool \<Rightarrow> int istrmap \<Rightarrow> int \<Rightarrow> int \<Rightarrow> int istrmap outcome" where
  "Move_ix mem m nIndex nOffset =
     (let nNewIndex = nIndex + nOffset;
          (nFirst, nLast) = (if nOffset > 0 then (nIndex, nNewIndex) else (nNewIndex, nIndex)) in
      update_each (GetCount_is m) mem
        (\<lambda>nHashIndex.
           if nHashIndex = nIndex then Some nNewIndex
           else if nFirst \<le> nHashIndex \<and> nHashIndex \<le> nLast
           then Some (if nOffset < 0 then nHashIndex + 1 else nHashIndex - 1)
           else None)
        m (GetStartPosition_is m))"

section \<open>The loops over all indexes\<close>

definition stored :: "('v \<Rightarrow> 'v option) \<Rightarrow> 'v \<Rightarrow> 'v" where
  "stored f v = (case f v of None \<Rightarrow> v | Some w \<Rightarrow> w)"

lemma update_each_from:
  assumes "is_ok m" "p < length (contents m)" "length (contents m) - p \<le> n"
  shows "\<exists>m'. update_each n mem f m (Some (position_of (shape m) p)) = Inr m' \<and> is_ok m' \<and>
    contents m' = take p (contents m) @ map (\<lambda>a. a\<lparr>assoc_value := stored f (assoc_value a)\<rparr>) (drop p (contents m)) \<and>
    m_bUseExternalKeys m' = m_bUseExternalKeys m"
  using assms
proof (induction n arbitrary: m p)
  case (Suc n)
  let ?a = "contents m ! p"
  have d: "drop p (contents m) = ?a # drop (Suc p) (contents m)" using Suc.prems(2) by (simp add: Cons_nth_drop_Suc)
  have "\<exists>m1. (case f (assoc_value ?a) of None \<Rightarrow> Inr m | Some i \<Rightarrow> SetAt_is mem 0 m (assoc_key ?a) i) = Inr m1 \<and>
      is_ok m1 \<and> shape m1 = shape m \<and>
      contents m1 = (contents m)[p := ?a\<lparr>assoc_value := stored f (assoc_value ?a)\<rparr>] \<and>
      m_bUseExternalKeys m1 = m_bUseExternalKeys m"
    using SetAt_is_existing [OF Suc.prems(1,2) refl, of mem 0] Suc.prems(1)
    by (cases "f (assoc_value ?a)") (auto simp: stored_def)
  then obtain m1 where m1: "(case f (assoc_value ?a) of None \<Rightarrow> Inr m | Some i \<Rightarrow> SetAt_is mem 0 m (assoc_key ?a) i) = Inr m1"
    "is_ok m1" "shape m1 = shape m" "contents m1 = (contents m)[p := ?a\<lparr>assoc_value := stored f (assoc_value ?a)\<rparr>]"
    "m_bUseExternalKeys m1 = m_bUseExternalKeys m" by blast
  note g = GetNextAssoc_is_nth [OF Suc.prems(1,2)]
  show ?case
  proof (cases "Suc p < length (contents m)")
    case True
    then have "Suc p < length (contents m1)" "length (contents m1) - Suc p \<le> n"
      using m1(4) Suc.prems(3) by simp_all
    from Suc.IH [OF m1(2) this] obtain m' where m': "update_each n mem f m1 (Some (position_of (shape m1) (Suc p))) = Inr m'" "is_ok m'"
      "contents m' = take (Suc p) (contents m1) @
         map (\<lambda>a. a\<lparr>assoc_value := stored f (assoc_value a)\<rparr>) (drop (Suc p) (contents m1))"
      "m_bUseExternalKeys m' = m_bUseExternalKeys m1" by blast
    have "update_each (Suc n) mem f m (Some (position_of (shape m) p)) = Inr m'"
      using True m'(1) m1(1,3) by (simp add: g)
    with m' m1 Suc.prems(2) show ?thesis by (simp add: d take_Suc_conv_app_nth)
  next
    case False
    then have "drop (Suc p) (contents m) = []" by simp
    moreover have "update_each (Suc n) mem f m (Some (position_of (shape m) p)) = Inr m1"
      using False m1(1) by (simp add: g)
    ultimately show ?thesis using m1 Suc.prems(2) by (simp add: d upd_conv_take_nth_drop)
  qed
qed simp

lemma update_each_start:
  assumes "is_ok m"
  shows "\<exists>m'. update_each (GetCount_is m) mem f m (GetStartPosition_is m) = Inr m' \<and> is_ok m' \<and>
    contents m' = map (\<lambda>a. a\<lparr>assoc_value := stored f (assoc_value a)\<rparr>) (contents m) \<and>
    m_bUseExternalKeys m' = m_bUseExternalKeys m"
proof (cases "m_nCount m")
  case 0
  with assms show ?thesis by (auto simp: GetStartPosition_is_def is_ok_def map_ok_def)
next
  case (Suc n)
  then have c: "m_nCount m = length (contents m)" "contents m \<noteq> []" using assms by (auto simp: is_ok_def map_ok_def)
  have "update_each (m_nCount m) mem f m (Some BeforeStart) =
      update_each (m_nCount m) mem f m (Some (position_of (shape m) 0))"
    using GetNextAssoc_is_start [OF c(2)] Suc by simp
  with update_each_from [OF assms, of 0 "m_nCount m" mem f] c show ?thesis
    by (simp add: GetStartPosition_is_def GetCount_is_def)
qed

section \<open>The indexes are the positions in a list\<close>

text \<open>
  What a \<open>CIStringMapToIndex\<close> stands for: a list of keys, up to case and without repetition, in
  which every key has its position as its value.
\<close>

definition indexed :: "u32 list list \<Rightarrow> int istrmap \<Rightarrow> bool" where
  "indexed ks m \<longleftrightarrow> is_ok m \<and> distinct ks \<and> dom (is_abs m) = set ks \<and>
     (\<forall>n < length ks. is_abs m (ks ! n) = Some (int n))"

lemma indexed_new: "indexed [] (CIStringMap bs ext)"
  using is_ok_new [of bs ext] by (simp add: indexed_def)

lemma indexed_count:
  assumes "indexed ks m"
  shows "m_nCount m = length ks"
proof -
  let ?l = "map (\<lambda>a. map upper (assoc_key a)) (contents m)"
  have "map_ok (map upper) HashKey m" using assms by (simp add: indexed_def is_ok_def)
  then have "distinct ?l" "m_nCount m = length ?l"
    using map_ok_keys [of "map upper" HashKey m] by (simp_all add: keys_ok_def) (simp add: map_ok_def)
  moreover have "set ?l = dom (is_abs m)"
    by (auto simp: map_abs_def assoc_map_def dom_map_of_conv_image_fst image_image)
  ultimately show ?thesis using assms by (metis distinct_card indexed_def)
qed

lemma indexed_lookup: "indexed ks m \<Longrightarrow> is_abs m x = Some i \<Longrightarrow> \<exists>n < length ks. ks ! n = x \<and> i = int n"
  unfolding indexed_def by (metis domI in_set_conv_nth option.inject)

lemma indexed_None: "indexed ks m \<Longrightarrow> x \<notin> set ks \<Longrightarrow> is_abs m x = None"
  unfolding indexed_def by blast

lemma update_each_abs:
  assumes "is_ok m"
  shows "\<exists>m'. update_each (GetCount_is m) mem f m (GetStartPosition_is m) = Inr m' \<and> is_ok m' \<and>
    is_abs m' = (\<lambda>x. map_option (stored f) (is_abs m x)) \<and> m_bUseExternalKeys m' = m_bUseExternalKeys m"
proof -
  from update_each_start [OF assms, of mem f] obtain m' where m':
    "update_each (GetCount_is m) mem f m (GetStartPosition_is m) = Inr m'" "is_ok m'"
    "contents m' = map (\<lambda>a. a\<lparr>assoc_value := stored f (assoc_value a)\<rparr>) (contents m)"
    "m_bUseExternalKeys m' = m_bUseExternalKeys m" by blast
  have "assoc_map (map upper) (map (\<lambda>a. a\<lparr>assoc_value := stored f (assoc_value a)\<rparr>) as) x =
      map_option (stored f) (assoc_map (map upper) as x)" for as x
    by (induction as) (auto simp: assoc_map_def)
  with m' show ?thesis by (intro exI [of _ m']) (auto simp: map_abs_def)
qed

text \<open>Lists of keys after an insertion, a removal and a move.\<close>

definition insert_nth :: "nat \<Rightarrow> 'a \<Rightarrow> 'a list \<Rightarrow> 'a list" where
  "insert_nth n x xs = take n xs @ x # drop n xs"

definition remove_nth :: "nat \<Rightarrow> 'a list \<Rightarrow> 'a list" where
  "remove_nth n xs = take n xs @ drop (Suc n) xs"

lemma length_insert_nth [simp]: "n \<le> length xs \<Longrightarrow> length (insert_nth n x xs) = Suc (length xs)"
  by (simp add: insert_nth_def)

lemma length_remove_nth [simp]: "n < length xs \<Longrightarrow> length (remove_nth n xs) = length xs - 1"
  by (simp add: remove_nth_def)

lemma nth_insert_nth:
  "n \<le> length xs \<Longrightarrow> i \<le> length xs \<Longrightarrow>
     insert_nth n x xs ! i = (if i < n then xs ! i else if i = n then x else xs ! (i - 1))"
  by (auto simp: insert_nth_def nth_append nth_Cons' min_def)

lemma nth_remove_nth:
  "n < length xs \<Longrightarrow> i < length xs - 1 \<Longrightarrow> remove_nth n xs ! i = (if i < n then xs ! i else xs ! Suc i)"
  by (auto simp: remove_nth_def nth_append min_def)

lemma set_insert_nth [simp]: "set (insert_nth n x xs) = insert x (set xs)"
proof -
  have "set xs = set (take n xs) \<union> set (drop n xs)" by (metis append_take_drop_id set_append)
  then show ?thesis by (simp add: insert_nth_def)
qed

lemma distinct_insert_nth: "distinct (insert_nth n x xs) \<longleftrightarrow> x \<notin> set xs \<and> distinct xs"
proof -
  have "mset xs = mset (take n xs) + mset (drop n xs)" by (metis append_take_drop_id mset_append)
  then have "mset (insert_nth n x xs) = mset (x # xs)" by (simp add: insert_nth_def)
  then have "distinct (insert_nth n x xs) = distinct (x # xs)" by (rule mset_eq_imp_distinct_iff)
  then show ?thesis by simp
qed

lemma insert_remove_nth: "n < length xs \<Longrightarrow> insert_nth n (xs ! n) (remove_nth n xs) = xs"
  by (simp add: insert_nth_def remove_nth_def id_take_nth_drop [symmetric])

lemma set_remove_nth: "n < length xs \<Longrightarrow> distinct xs \<Longrightarrow> set (remove_nth n xs) = set xs - {xs ! n}"
  using distinct_insert_nth [of n "xs ! n" "remove_nth n xs"] set_insert_nth [of n "xs ! n" "remove_nth n xs"]
  by (simp add: insert_remove_nth)

lemma distinct_remove_nth: "n < length xs \<Longrightarrow> distinct xs \<Longrightarrow> distinct (remove_nth n xs)"
  using distinct_insert_nth [of n "xs ! n" "remove_nth n xs"] by (simp add: insert_remove_nth)

lemma indexedI:
  assumes "is_ok m" "distinct ks" "\<And>x. x \<notin> set ks \<Longrightarrow> is_abs m x = None"
    "\<And>n. n < length ks \<Longrightarrow> is_abs m (ks ! n) = Some (int n)"
  shows "indexed ks m"
proof -
  have "dom (is_abs m) = set ks"
  proof (intro equalityI subsetI)
    fix x assume "x \<in> dom (is_abs m)"
    then show "x \<in> set ks" using assms(3) [of x] by (cases "x \<in> set ks") auto
  next
    fix x assume "x \<in> set ks"
    then obtain n where "n < length ks" "ks ! n = x" by (auto simp: in_set_conv_nth)
    then show "x \<in> dom (is_abs m)" using assms(4) [of n] by auto
  qed
  with assms(1,2,4) show ?thesis unfolding indexed_def by blast
qed

lemma indexedD:
  assumes "indexed ks m"
  shows "is_ok m" "distinct ks" "n < length ks \<Longrightarrow> is_abs m (ks ! n) = Some (int n)"
  using assms by (simp_all add: indexed_def)

lemma Add_ix_indexed:
  assumes "indexed ks m" "0 \<notin> set k" "map upper k \<notin> set ks" "mem \<or> m_bUseExternalKeys m"
  shows "\<exists>m'. Add_ix mem m k = Inr (int (length ks), m') \<and> indexed (ks @ [map upper k]) m' \<and>
    m_bUseExternalKeys m' = m_bUseExternalKeys m"
proof -
  note d = indexedD [OF assms(1)]
  from SetAt_is_ok [OF d(1) assms(2,4), of 0 "int (length ks)"] obtain m' where m':
    "SetAt_is mem 0 m k (int (length ks)) = Inr m'" "is_ok m'" "is_abs m' = (is_abs m)(map upper k \<mapsto> int (length ks))"
    "m_bUseExternalKeys m' = m_bUseExternalKeys m" by blast
  have ne: "ks ! n \<noteq> map upper k" if "n < length ks" for n using assms(3) that by (metis nth_mem)
  have "indexed (ks @ [map upper k]) m'"
  proof (rule indexedI)
    fix n assume "n < length (ks @ [map upper k])"
    then consider "n < length ks" | "n = length ks" by fastforce
    then show "is_abs m' ((ks @ [map upper k]) ! n) = Some (int n)"
      using ne d(3) by cases (simp_all add: m'(3) nth_append)
  next
    fix x assume "x \<notin> set (ks @ [map upper k])"
    then show "is_abs m' x = None" using indexed_None [OF assms(1), of x] by (simp add: m'(3))
  qed (use m'(2) d(2) assms(3) in simp_all)
  with m' show ?thesis
    by (simp add: Add_ix_def Lookup_is_abs [OF d(1) assms(2)] GetCount_is_def indexed_count [OF assms(1)])
qed

lemma ShiftIndexes_abs:
  assumes "is_ok m"
  shows "\<exists>m'. ShiftIndexes mem s d m = Inr m' \<and> is_ok m' \<and>
    is_abs m' = (\<lambda>x. map_option (\<lambda>i. if s \<le> i then i + d else i) (is_abs m x)) \<and>
    m_bUseExternalKeys m' = m_bUseExternalKeys m"
proof -
  have "stored (\<lambda>i. if s \<le> i then Some (i + d) else None) = (\<lambda>i. if s \<le> i then i + d else i)"
    by (auto simp: stored_def)
  with update_each_abs [OF assms, of mem "\<lambda>i. if s \<le> i then Some (i + d) else None"]
  show ?thesis by (simp add: ShiftIndexes_def)
qed

lemma Insert_ix_indexed:
  assumes "indexed ks m" "0 \<notin> set k" "map upper k \<notin> set ks" "i \<le> length ks" "mem \<or> m_bUseExternalKeys m"
  shows "\<exists>m'. Insert_ix mem m (int i) k = Inr m' \<and> indexed (insert_nth i (map upper k) ks) m' \<and>
    m_bUseExternalKeys m' = m_bUseExternalKeys m"
proof -
  note d = indexedD [OF assms(1)]
  from ShiftIndexes_abs [OF d(1), of mem "int i" 1] obtain m1 where m1: "ShiftIndexes mem (int i) 1 m = Inr m1"
    "is_ok m1" "is_abs m1 = (\<lambda>x. map_option (\<lambda>j. if int i \<le> j then j + 1 else j) (is_abs m x))"
    "m_bUseExternalKeys m1 = m_bUseExternalKeys m" by blast
  from SetAt_is_ok [OF m1(2) assms(2), of mem 0 "int i"] assms(5) m1(4) obtain m' where m':
    "SetAt_is mem 0 m1 k (int i) = Inr m'" "is_ok m'" "is_abs m' = (is_abs m1)(map upper k \<mapsto> int i)"
    "m_bUseExternalKeys m' = m_bUseExternalKeys m" by auto
  have ne: "ks ! n \<noteq> map upper k" if "n < length ks" for n using assms(3) that by (metis nth_mem)
  have "indexed (insert_nth i (map upper k) ks) m'"
  proof (rule indexedI)
    fix n assume "n < length (insert_nth i (map upper k) ks)"
    then have n: "n \<le> length ks" using assms(4) by simp
    then show "is_abs m' (insert_nth i (map upper k) ks ! n) = Some (int n)"
      using assms(4) ne d(3) by (auto simp: nth_insert_nth m'(3) m1(3))
  next
    fix x assume "x \<notin> set (insert_nth i (map upper k) ks)"
    then show "is_abs m' x = None" using indexed_None [OF assms(1), of x] by (simp add: m'(3) m1(3))
  qed (use m'(2) d(2) assms(3) in \<open>simp_all add: distinct_insert_nth\<close>)
  with m' m1 show ?thesis by (simp add: Insert_ix_def Lookup_is_abs [OF d(1) assms(2)])
qed

text \<open>After a key has been taken out, shifting closes the gap.\<close>

lemma shift_after_removal:
  assumes "indexed ks m" "n < length ks" "is_ok m1" "is_abs m1 = (is_abs m)(ks ! n := None)"
  shows "\<exists>m'. ShiftIndexes mem (int n) (-1) m1 = Inr m' \<and> indexed (remove_nth n ks) m' \<and>
    m_bUseExternalKeys m' = m_bUseExternalKeys m1"
proof -
  note d = indexedD [OF assms(1)]
  from ShiftIndexes_abs [OF assms(3), of mem "int n" "-1"] obtain m' where m':
    "ShiftIndexes mem (int n) (-1) m1 = Inr m'" "is_ok m'"
    "is_abs m' = (\<lambda>x. map_option (\<lambda>j. if int n \<le> j then j + -1 else j) (is_abs m1 x))"
    "m_bUseExternalKeys m' = m_bUseExternalKeys m1" by blast
  have ne: "ks ! i \<noteq> ks ! n" if "i < length ks" "i \<noteq> n" for i
    using that assms(2) d(2) by (simp add: nth_eq_iff_index_eq)
  have "indexed (remove_nth n ks) m'"
  proof (rule indexedI)
    fix i assume "i < length (remove_nth n ks)"
    then have "i < length ks - 1" using assms(2) by simp
    then show "is_abs m' (remove_nth n ks ! i) = Some (int i)"
      using assms(2) ne d(3) by (auto simp: nth_remove_nth m'(3) assms(4))
  next
    fix x assume "x \<notin> set (remove_nth n ks)"
    then show "is_abs m' x = None"
      using indexed_None [OF assms(1), of x] assms(2) d(2) by (auto simp: set_remove_nth m'(3) assms(4))
  qed (use m'(2) d(2) assms(2) in \<open>simp_all add: distinct_remove_nth\<close>)
  with m' show ?thesis by blast
qed

lemma Remove_ix_indexed:
  assumes "indexed ks m" "0 \<notin> set k" "n < length ks" "ks ! n = map upper k"
  shows "\<exists>m'. Remove_ix mem junk m k = Inr (int n, m') \<and> indexed (remove_nth n ks) m' \<and>
    m_bUseExternalKeys m' = m_bUseExternalKeys m"
proof -
  note d = indexedD [OF assms(1)]
  have v: "is_abs m (map upper k) = Some (int n)" using d(3) assms(3,4) by metis
  from RemoveKey_is_ok [OF d(1) assms(2)] obtain m1 where m1: "RemoveKey_is m k = Inr (True, m1)" "is_ok m1"
    "is_abs m1 = (is_abs m)(map upper k := None)" "m_bUseExternalKeys m1 = m_bUseExternalKeys m" using v by auto
  from shift_after_removal [OF assms(1,3) m1(2), of mem] m1(3,4) assms(4) obtain m' where
    "ShiftIndexes mem (int n) (-1) m1 = Inr m'" "indexed (remove_nth n ks) m'"
    "m_bUseExternalKeys m' = m_bUseExternalKeys m" by metis
  with m1(1) v show ?thesis by (simp add: Remove_ix_def Lookup_is_abs [OF d(1) assms(2)])
qed

lemma remove_index_from:
  assumes "is_ok m" "p \<le> q" "q < length (contents m)" "q - p < fuel"
    "assoc_value (contents m ! q) = i" "\<And>r. p \<le> r \<Longrightarrow> r < q \<Longrightarrow> assoc_value (contents m ! r) \<noteq> i"
  shows "remove_index fuel i m (Some (position_of (shape m) p)) =
    bindE (RemoveKey_is m (assoc_key (contents m ! q))) (\<lambda>(_, m'). Inr m')"
  using assms
proof (induction fuel arbitrary: p)
  case (Suc fuel)
  have "p < length (contents m)" using Suc.prems(2,3) by simp
  note g = GetNextAssoc_is_nth [OF Suc.prems(1) this]
  show ?case
  proof (cases "p = q")
    case True
    with g Suc.prems(5) show ?thesis by simp
  next
    case False
    with Suc.prems(2) have "Suc p \<le> q" by simp
    moreover from False have "assoc_value (contents m ! p) \<noteq> i" using Suc.prems(2,6) by simp
    moreover have "q - Suc p < fuel" using \<open>Suc p \<le> q\<close> Suc.prems(4) by linarith
    ultimately show ?thesis using g Suc.prems(1,3,5,6) Suc.IH [of "Suc p"] by simp
  qed
qed simp

lemma index_key:
  assumes "indexed ks m" "b \<in> set (contents m)" "assoc_value b = int n"
  shows "map upper (assoc_key b) = ks ! n"
proof -
  have "keys_ok (map upper) HashKey (contents m)" using indexedD(1) [OF assms(1)] by (simp add: is_ok_def map_ok_keys)
  then have "distinct (map (\<lambda>a. map upper (assoc_key a)) (contents m))" by (simp add: keys_ok_def)
  from find_unique [OF this assms(2) refl]
  have "is_abs m (map upper (assoc_key b)) = Some (int n)" using assms(3) by (simp add: map_abs_def assoc_map_find)
  from indexed_lookup [OF assms(1) this] show ?thesis by auto
qed

lemma first_index:
  fixes Q :: "nat \<Rightarrow> bool"
  assumes "r < l \<and> Q r"
  shows "\<exists>q < l. Q q \<and> (\<forall>r < q. \<not> Q r)"
proof -
  have "Q (LEAST q. Q q)" "(LEAST q. Q q) \<le> r" using assms by (auto intro: LeastI Least_le)
  with assms show ?thesis by (intro exI [of _ "LEAST q. Q q"]) (auto dest: not_less_Least)
qed

lemma remove_index_indexed:
  assumes "indexed ks m" "n < length ks"
  shows "\<exists>m1. remove_index (GetCount_is m) (int n) m (GetStartPosition_is m) = Inr m1 \<and> is_ok m1 \<and>
    is_abs m1 = (is_abs m)(ks ! n := None) \<and> m_bUseExternalKeys m1 = m_bUseExternalKeys m"
proof -
  note d = indexedD [OF assms(1)]
  have c: "m_nCount m = length (contents m)" using d(1) by (simp add: is_ok_def map_ok_def)
  have "find (\<lambda>a. map upper (assoc_key a) = ks ! n) (contents m) \<noteq> None"
    using d(3) [OF assms(2)] by (auto simp: map_abs_def assoc_map_find)
  then obtain a where "find (\<lambda>a. map upper (assoc_key a) = ks ! n) (contents m) = Some a" by blast
  then have a: "a \<in> set (contents m)" "map upper (assoc_key a) = ks ! n" "assoc_value a = int n"
    using d(3) [OF assms(2)] by (auto simp: map_abs_def assoc_map_find dest: find_SomeD)
  from a(1,3) obtain r where "r < length (contents m) \<and> assoc_value (contents m ! r) = int n"
    by (auto simp: in_set_conv_nth)
  from first_index [of r _ "\<lambda>r. assoc_value (contents m ! r) = int n", OF this] obtain q where q: "q < length (contents m)" "assoc_value (contents m ! q) = int n"
    "\<And>r. r < q \<Longrightarrow> assoc_value (contents m ! r) \<noteq> int n" by blast
  have b: "map upper (assoc_key (contents m ! q)) = ks ! n"
    using index_key [OF assms(1) nth_mem [OF q(1)] q(2)] .
  have "hashed HashKey (contents m ! q)"
    using d(1) map_ok_keys [of "map upper" HashKey m] nth_mem [OF q(1)] unfolding is_ok_def keys_ok_def by blast
  then have "0 \<notin> set (assoc_key (contents m ! q))" by (simp add: hashed_def)
  from RemoveKey_is_ok [OF d(1) this] obtain m1 where m1:
    "RemoveKey_is m (assoc_key (contents m ! q)) = Inr (is_abs m (ks ! n) \<noteq> None, m1)" "is_ok m1"
    "is_abs m1 = (is_abs m)(ks ! n := None)" "m_bUseExternalKeys m1 = m_bUseExternalKeys m"
    unfolding b by blast
  have ne: "contents m \<noteq> []" using q(1) by auto
  have "remove_index (m_nCount m) (int n) m (Some (position_of (shape m) 0)) = Inr m1"
    using remove_index_from [OF d(1) _ q(1) _ q(2), of 0 "m_nCount m"] q(1,3) by (simp add: m1(1) c)
  moreover have "remove_index (m_nCount m) (int n) m (Some BeforeStart) =
      remove_index (m_nCount m) (int n) m (Some (position_of (shape m) 0))"
    using GetNextAssoc_is_start [OF ne] by (cases "m_nCount m") simp_all
  moreover have "m_nCount m \<noteq> 0" using ne c by simp
  ultimately show ?thesis using m1(2-4) by (simp add: GetCount_is_def GetStartPosition_is_def)
qed

lemma RemoveAt_ix_indexed:
  assumes "indexed ks m" "n < length ks"
  shows "\<exists>m'. RemoveAt_ix mem m (int n) = Inr m' \<and> indexed (remove_nth n ks) m' \<and>
    m_bUseExternalKeys m' = m_bUseExternalKeys m"
proof -
  from remove_index_indexed [OF assms] obtain m1 where m1:
    "remove_index (GetCount_is m) (int n) m (GetStartPosition_is m) = Inr m1" "is_ok m1"
    "is_abs m1 = (is_abs m)(ks ! n := None)" "m_bUseExternalKeys m1 = m_bUseExternalKeys m" by blast
  from shift_after_removal [OF assms m1(2,3)] m1(1,4) show ?thesis by (simp add: RemoveAt_ix_def)
qed

lemma Move_ix_indexed:
  assumes "indexed ks m" "n < length ks" "n' < length ks" "n' \<noteq> n"
  shows "\<exists>m'. Move_ix mem m (int n) (int n' - int n) = Inr m' \<and>
    indexed (insert_nth n' (ks ! n) (remove_nth n ks)) m' \<and> m_bUseExternalKeys m' = m_bUseExternalKeys m"
proof -
  note d = indexedD [OF assms(1)]
  let ?f = "\<lambda>j. if j = int n then Some (int n')
      else if (if n < n' then int n \<le> j \<and> j \<le> int n' else int n' \<le> j \<and> j \<le> int n)
      then Some (if int n' - int n < 0 then j + 1 else j - 1) else None"
  from update_each_abs [OF d(1), of mem ?f] obtain m' where m':
    "update_each (GetCount_is m) mem ?f m (GetStartPosition_is m) = Inr m'" "is_ok m'"
    "is_abs m' = (\<lambda>x. map_option (stored ?f) (is_abs m x))" "m_bUseExternalKeys m' = m_bUseExternalKeys m" by blast
  have "Move_ix mem m (int n) (int n' - int n) = Inr m'"
    using m'(1) by (cases "n < n'") (simp_all add: Move_ix_def Let_def cong: if_cong)
  moreover have "indexed (insert_nth n' (ks ! n) (remove_nth n ks)) m'"
  proof (rule indexedI)
    fix j assume "j < length (insert_nth n' (ks ! n) (remove_nth n ks))"
    then have "j < length ks" "j \<le> length (remove_nth n ks)" using assms(2,3) by simp_all
    then show "is_abs m' (insert_nth n' (ks ! n) (remove_nth n ks) ! j) = Some (int j)"
      using assms(2-4) d(3) by (auto simp: nth_insert_nth nth_remove_nth m'(3) stored_def)
  next
    fix x assume "x \<notin> set (insert_nth n' (ks ! n) (remove_nth n ks))"
    then have "x \<notin> set ks" using assms(2) d(2) by (auto simp: set_remove_nth)
    then show "is_abs m' x = None" using indexed_None [OF assms(1), of x] by (simp add: m'(3))
  qed (use m'(2) d(2) assms(2) in \<open>simp_all add: distinct_insert_nth distinct_remove_nth set_remove_nth\<close>)
  ultimately show ?thesis using m'(4) by blast
qed

section \<open>Archives\<close>

text \<open>
  An archive is the sequence of things written to it and not yet read; reading something else
  than what is there, or at the end, throws the exception of the archive.
\<close>

datatype 'v ar_item = ArCount nat | ArKey bytes | ArValue 'v

definition Serialize_store :: "'v istrmap \<Rightarrow> 'v ar_item list" where
  "Serialize_store m =
     ArCount (m_nCount m) #
     (if m_nCount m = 0 then []
      else concat (map (\<lambda>a. [ArKey (assoc_key a), ArValue (assoc_value a)])
             (case m_pHashTable m of None \<Rightarrow> [] | Some t \<Rightarrow> concat t)))"

fun load_loop :: "bool \<Rightarrow> 'v \<Rightarrow> nat \<Rightarrow> 'v ar_item list \<Rightarrow> 'v istrmap \<Rightarrow> ('v istrmap \<times> 'v ar_item list) outcome" where
  "load_loop mem dv 0 ar m = Inr (m, ar)"
| "load_loop mem dv (Suc nNewCount) (ArKey newKey # ArValue newValue # ar) m =
     bindE (SetAt_is mem dv m newKey newValue) (load_loop mem dv nNewCount ar)"
| "load_loop mem dv (Suc nNewCount) ar m = Inl (RuntimeError ''CArchiveException'')"

fun Serialize_load :: "bool \<Rightarrow> 'v \<Rightarrow> 'v ar_item list \<Rightarrow> 'v istrmap \<Rightarrow> ('v istrmap \<times> 'v ar_item list) outcome" where
  "Serialize_load mem dv (ArCount n # ar) m = load_loop mem dv n ar m"
| "Serialize_load mem dv ar m = Inl (RuntimeError ''CArchiveException'')"

lemma load_loop_assocs:
  assumes "\<forall>a \<in> set as. 0 \<notin> set (assoc_key a)" "is_ok m"
  shows "\<exists>m'. load_loop True dv (length as)
      (concat (map (\<lambda>a. [ArKey (assoc_key a), ArValue (assoc_value a)]) as) @ ar) m = Inr (m', ar) \<and> is_ok m' \<and>
    is_abs m' = fold (\<lambda>a f. f(map upper (assoc_key a) \<mapsto> assoc_value a)) as (is_abs m)"
  using assms
proof (induction as arbitrary: m)
  case (Cons a as)
  then obtain m1 where m1: "SetAt_is True dv m (assoc_key a) (assoc_value a) = Inr m1" "is_ok m1"
    "is_abs m1 = (is_abs m)(map upper (assoc_key a) \<mapsto> assoc_value a)"
    using SetAt_is_ok [of m "assoc_key a" True dv "assoc_value a"] by auto
  with Cons.IH [of m1] Cons.prems show ?case by simp
qed simp

lemma fold_assoc_map:
  "keys_ok norm hash as \<Longrightarrow>
     fold (\<lambda>a f. f(norm (assoc_key a) \<mapsto> assoc_value a)) as f = f ++ assoc_map norm as"
proof (induction as arbitrary: f)
  case (Cons a as)
  then have "assoc_map norm as (norm (assoc_key a)) = None" by (simp add: keys_ok_Cons)
  with Cons show ?case by (auto simp: keys_ok_Cons assoc_map_Cons map_add_def fun_eq_iff split: option.splits)
qed (simp add: assoc_map_def)



text \<open>
  C2: any sequence of insertions and removals with string keys runs without a fault on a new
  map, through every growth and shrinking of its table, and a lookup afterwards finds what was
  stored last under the key, up to the case of the code page 1251.
\<close>

theorem istrmap_refines:
  assumes "\<forall>p \<in> set ps. 0 \<notin> set (op_key p)" "0 \<notin> set k"
  shows "bindE (run_ops (SetAt_is True dv) RemoveKey_is ps (CIStringMap bs ext)) (\<lambda>m. Lookup_is m k) =
    Inr (fold (op_abs (map upper)) ps Map.empty (map upper k))"
  using assms by (rule ism.lookup_after)

theorem istrmap_refines_witness:
  "bindE (run_ops (SetAt_is True 0) RemoveKey_is
       [SetOp (bytes_of ''Host'') 1, SetOp (bytes_of ''HOST'') (3 :: nat), RemoveOp (bytes_of ''date'')]
       (CIStringMap 0 False))
     (\<lambda>m. Lookup_is m (bytes_of ''host'')) = Inr (Some 3)"
  by (subst istrmap_refines) (simp_all add: bytes_of_def upper_def m_CS1251_upper_def)

section \<open>Sequences of index operations\<close>

datatype ix_op = AddOp bytes | InsertOp nat bytes | RemoveKeyOp bytes | RemoveAtOp nat | MoveOp nat nat

text \<open>
  One operation on the map, and on the list it stands for; the latter has no result where an
  assertion of the code would fail. \<open>MoveOp n n'\<close> moves the key of index \<open>n\<close> to index \<open>n'\<close>.
\<close>

fun ix_step :: "ix_op \<Rightarrow> int istrmap \<Rightarrow> int istrmap outcome" where
  "ix_step (AddOp k) m = bindE (Add_ix True m k) (\<lambda>(_, m'). Inr m')"
| "ix_step (InsertOp n k) m = Insert_ix True m (int n) k"
| "ix_step (RemoveKeyOp k) m = bindE (Remove_ix True 0 m k) (\<lambda>(_, m'). Inr m')"
| "ix_step (RemoveAtOp n) m = RemoveAt_ix True m (int n)"
| "ix_step (MoveOp n n') m = Move_ix True m (int n) (int n' - int n)"

fun list_step :: "ix_op \<Rightarrow> u32 list list \<Rightarrow> u32 list list option" where
  "list_step (AddOp k) ks =
     (if 0 \<notin> set k \<and> map upper k \<notin> set ks then Some (ks @ [map upper k]) else None)"
| "list_step (InsertOp n k) ks =
     (if 0 \<notin> set k \<and> map upper k \<notin> set ks \<and> n \<le> length ks then Some (insert_nth n (map upper k) ks) else None)"
| "list_step (RemoveKeyOp k) ks =
     (if 0 \<notin> set k \<and> map upper k \<in> set ks then Some (remove1 (map upper k) ks) else None)"
| "list_step (RemoveAtOp n) ks = (if n < length ks then Some (remove_nth n ks) else None)"
| "list_step (MoveOp n n') ks =
     (if n < length ks \<and> n' < length ks \<and> n' \<noteq> n then Some (insert_nth n' (ks ! n) (remove_nth n ks)) else None)"

fun ix_run :: "ix_op list \<Rightarrow> int istrmap \<Rightarrow> int istrmap outcome" where
  "ix_run [] m = Inr m"
| "ix_run (p # ps) m = bindE (ix_step p m) (ix_run ps)"

fun list_run :: "ix_op list \<Rightarrow> u32 list list \<Rightarrow> u32 list list option" where
  "list_run [] ks = Some ks"
| "list_run (p # ps) ks = (case list_step p ks of None \<Rightarrow> None | Some ks' \<Rightarrow> list_run ps ks')"

lemma remove1_nth: "distinct ks \<Longrightarrow> n < length ks \<Longrightarrow> remove1 (ks ! n) ks = remove_nth n ks"
proof (induction ks arbitrary: n)
  case (Cons k ks)
  then show ?case by (cases n) (auto simp: remove_nth_def)
qed simp

lemma ix_step_indexed:
  assumes "indexed ks m" "list_step p ks = Some ks'"
  shows "\<exists>m'. ix_step p m = Inr m' \<and> indexed ks' m'"
proof (cases p)
  case (AddOp k)
  with assms Add_ix_indexed [of ks m k True] show ?thesis by (auto split: if_splits)
next
  case (InsertOp n k)
  with assms Insert_ix_indexed [of ks m k n True] show ?thesis by (auto split: if_splits)
next
  case (RemoveKeyOp k)
  with assms(2) have k: "0 \<notin> set k" "map upper k \<in> set ks" "ks' = remove1 (map upper k) ks" by (auto split: if_splits)
  then obtain n where n: "n < length ks" "ks ! n = map upper k" by (auto simp: in_set_conv_nth)
  with k(3) have "ks' = remove_nth n ks" using remove1_nth [OF indexedD(2) [OF assms(1)] n(1)] by simp
  with Remove_ix_indexed [OF assms(1) k(1) n, of True 0] RemoveKeyOp show ?thesis by auto
next
  case (RemoveAtOp n)
  with assms RemoveAt_ix_indexed [of ks m n True] show ?thesis by (auto split: if_splits)
next
  case (MoveOp n n')
  with assms Move_ix_indexed [of ks m n n' True] show ?thesis by (auto split: if_splits)
qed

lemma ix_run_indexed:
  "indexed ks m \<Longrightarrow> list_run ps ks = Some ks' \<Longrightarrow> \<exists>m'. ix_run ps m = Inr m' \<and> indexed ks' m'"
proof (induction ps arbitrary: ks m)
  case (Cons p ps)
  from Cons.prems(2) obtain ks1 where ks1: "list_step p ks = Some ks1" "list_run ps ks1 = Some ks'"
    by (auto split: option.splits)
  from ix_step_indexed [OF Cons.prems(1) ks1(1)] obtain m1 where "ix_step p m = Inr m1" "indexed ks1 m1" by blast
  with Cons.IH ks1(2) show ?case by auto
qed simp

text \<open>
  C3: a \<open>CIStringMapToIndex\<close> is a list of keys in which every key has its position as its index.
  Any sequence of additions, insertions, removals by key or by index, and moves that keeps
  within the assertions of the code runs without a fault and does to the keys what the
  operations on lists do; a lookup returns the position of the key.
\<close>

theorem index_map_refines:
  assumes "list_run ps [] = Some ks"
  shows "\<exists>m. ix_run ps (CIStringMap bs ext) = Inr m \<and> GetCount_is m = length ks \<and>
    (\<forall>k i. 0 \<notin> set k \<longrightarrow>
       Lookup_is m k = Inr (Some i) \<longleftrightarrow> (\<exists>n < length ks. ks ! n = map upper k \<and> i = int n))"
proof -
  from ix_run_indexed [OF indexed_new assms] obtain m where m: "ix_run ps (CIStringMap bs ext) = Inr m" "indexed ks m"
    by blast
  note d = indexedD [OF m(2)]
  have "is_abs m x = Some i \<longleftrightarrow> (\<exists>n < length ks. ks ! n = x \<and> i = int n)" for x i
    using indexed_lookup [OF m(2)] d(3) by metis
  with m indexed_count [OF m(2)] d(1) show ?thesis
    by (intro exI [of _ m]) (simp add: GetCount_is_def Lookup_is_abs)
qed

theorem index_map_refines_witness:
  "\<exists>m. ix_run [AddOp [65], AddOp [66], InsertOp 0 [67], MoveOp 0 2, RemoveKeyOp [97]] (CIStringMap 0 False) = Inr m \<and>
     Lookup_is m [99] = Inr (Some 1)"
proof -
  have u: "map upper [65] = [65]" "map upper [66] = [66]" "map upper [67] = [67]" "map upper [97] = [65]" "map upper [99] = [67]"
    by (simp_all add: upper_def m_CS1251_upper_def)
  have "list_run [AddOp [65], AddOp [66], InsertOp 0 [67], MoveOp 0 2, RemoveKeyOp [97]] [] = Some [[66], [67]]"
    using u by (simp add: insert_nth_def remove_nth_def)
  from index_map_refines [OF this, of 0 False] obtain m where
    "ix_run [AddOp [65], AddOp [66], InsertOp 0 [67], MoveOp 0 2, RemoveKeyOp [97]] (CIStringMap 0 False) = Inr m"
    "\<forall>k i. 0 \<notin> set k \<longrightarrow>
       Lookup_is m k = Inr (Some i) \<longleftrightarrow> (\<exists>n < length [[66 :: u32], [67]]. [[66], [67]] ! n = map upper k \<and> i = int n)" by blast
  moreover have "\<exists>n < length [[66 :: u32], [67]]. [[66], [67]] ! n = map upper [99] \<and> (1 :: int) = int n"
    by (intro exI [of _ 1]) (simp add: u del: list.map)
  moreover have "(0 :: byte) \<notin> set [99]" by simp
  ultimately show ?thesis by blast
qed

end
