(* ===== verification/Collection.thy ===== *)
theory Collection
imports IStrMap
begin

text \<open>
  The collection of named items \<open>CCollection\<close> and its items \<open>CCollectionItem\<close> of
  \<open>_1Common/BLColl/istrmap.cpp\<close>: an array of item pointers and a map from their names to their
  positions in the array, which have to agree after every operation.

  Items live in a store from addresses to items; the collection has an address of its own,
  \<open>this\<close>. The notifications \<open>OnAdd\<close>, \<open>OnRemove\<close> and \<open>OnRename\<close> do nothing in this class.
\<close>

section \<open>Items and collections\<close>

record item =
  m_Name :: "bytes option"
  m_pCollection :: "nat option"

type_synonym items = "nat \<Rightarrow> item"

record collection =
  m_Items :: "nat list"
  m_ItemsHash :: "int istrmap"

definition CCollectionItem :: item where
  "CCollectionItem = \<lparr>m_Name = None, m_pCollection = None\<rparr>"

definition CCollection :: "nat \<Rightarrow> collection" where
  "CCollection bs = \<lparr>m_Items = [], m_ItemsHash = CIStringMap bs True\<rparr>"

definition GetName :: "items \<Rightarrow> nat \<Rightarrow> bytes option" where
  "GetName h pItem = m_Name (h pItem)"

definition SetCollection :: "nat option \<Rightarrow> nat \<Rightarrow> items \<Rightarrow> items" where
  "SetCollection c pItem h = h(pItem := (h pItem)\<lparr>m_pCollection := c\<rparr>)"

text \<open>A name that is used as a key must not be a null pointer.\<close>

definition name_of :: "items \<Rightarrow> nat \<Rightarrow> bytes outcome" where
  "name_of h pItem = (case GetName h pItem of None \<Rightarrow> Inl NullDeref | Some n \<Rightarrow> Inr n)"

definition GetCount_coll :: "collection \<Rightarrow> nat" where
  "GetCount_coll c = length (m_Items c)"

definition Add_coll :: "nat \<Rightarrow> nat \<Rightarrow> collection \<times> items \<Rightarrow> (collection \<times> items) outcome" where
  "Add_coll this pItem = (\<lambda>(c, h).
     bindE (name_of h pItem)
       (\<lambda>n. bindE (Add_ix True (m_ItemsHash c) n)
         (\<lambda>(nHashIndex, m). Inr (c\<lparr>m_Items := m_Items c @ [pItem], m_ItemsHash := m\<rparr>,
                               SetCollection (Some this) pItem h))))"

definition Insert_coll :: "nat \<Rightarrow> nat \<Rightarrow> nat \<Rightarrow> collection \<times> items \<Rightarrow> (collection \<times> items) outcome" where
  "Insert_coll this nIndex pItem = (\<lambda>(c, h).
     let items = insert_nth nIndex pItem (m_Items c) in
     bindE (name_of h pItem)
       (\<lambda>n. bindE (Insert_ix True (m_ItemsHash c) (int nIndex) n)
         (\<lambda>m. Inr (c\<lparr>m_Items := items, m_ItemsHash := m\<rparr>, SetCollection (Some this) pItem h))))"

definition Remove_coll :: "nat \<Rightarrow> collection \<times> items \<Rightarrow> (collection \<times> items) outcome" where
  "Remove_coll nIndex = (\<lambda>(c, h).
     if length (m_Items c) \<le> nIndex then Inl OobRead
     else let pItem = m_Items c ! nIndex in
       bindE (name_of h pItem)
         (\<lambda>n. bindE (Remove_ix True 0 (m_ItemsHash c) n)
           (\<lambda>(nHashIndex, m). Inr (c\<lparr>m_Items := remove_nth nIndex (m_Items c), m_ItemsHash := m\<rparr>,
                                 SetCollection None pItem h))))"

definition Clear_coll :: "collection \<times> items \<Rightarrow> collection \<times> items" where
  "Clear_coll = (\<lambda>(c, h).
     (c\<lparr>m_Items := [], m_ItemsHash := snd (RemoveAll_is (m_ItemsHash c))\<rparr>,
      fold (SetCollection None) (m_Items c) h))"

definition item_at :: "collection \<Rightarrow> int \<Rightarrow> nat option" where
  "item_at c nIndex =
     (if nIndex < 0 then None
      else if nIndex > int (length (m_Items c)) - 1 then None
      else Some (m_Items c ! nat nIndex))"

definition item_named :: "collection \<Rightarrow> bytes \<Rightarrow> nat option outcome" where
  "item_named c szName =
     bindE (Lookup_is (m_ItemsHash c) szName)
       (\<lambda>r. case r of
              None \<Rightarrow> Inr None
            | Some nIndex \<Rightarrow>
                if 0 \<le> nIndex \<and> nat nIndex < length (m_Items c) then Inr (Some (m_Items c ! nat nIndex))
                else Inl OobRead)"

fun index_loop :: "nat \<Rightarrow> nat list \<Rightarrow> nat \<Rightarrow> int" where
  "index_loop i [] pItem = -1"
| "index_loop i (p # ps) pItem = (if p = pItem then int i else index_loop (Suc i) ps pItem)"

definition GetIndex_item :: "collection \<Rightarrow> nat \<Rightarrow> int" where
  "GetIndex_item c pItem = index_loop 0 (m_Items c) pItem"

definition GetIndex_name :: "collection \<Rightarrow> bytes \<Rightarrow> int outcome" where
  "GetIndex_name c szName =
     bindE (Lookup_is (m_ItemsHash c) szName) (\<lambda>r. Inr (case r of None \<Rightarrow> -1 | Some nIndex \<Rightarrow> nIndex))"

definition Move_coll :: "nat \<Rightarrow> nat \<Rightarrow> collection \<times> items \<Rightarrow> (collection \<times> items) outcome" where
  "Move_coll nIndex nNewIndex = (\<lambda>(c, h).
     if length (m_Items c) \<le> nIndex then Inl OobRead
     else let pItem = m_Items c ! nIndex;
              items = insert_nth nNewIndex pItem (remove_nth nIndex (m_Items c)) in
       bindE (Move_ix True (m_ItemsHash c) (int nIndex) (int nNewIndex - int nIndex))
         (\<lambda>m. Inr (c\<lparr>m_Items := items, m_ItemsHash := m\<rparr>, h)))"

text \<open>
  The rename in the map of the collection the item is in, then the copy of the name. The
  result of \<open>realloc\<close> is thrown away: when it moves the block, which \<open>in_place\<close> tells, the copy
  goes to memory that has been freed.
\<close>

definition rename_key :: "collection \<Rightarrow> bytes \<Rightarrow> bytes \<Rightarrow> collection outcome" where
  "rename_key c old szName =
     bindE (subscript_is True 0 (m_ItemsHash c) old)
       (\<lambda>m0. bindE (Lookup_is m0 old)
         (\<lambda>r. let nIndex = (case r of None \<Rightarrow> 0 | Some i \<Rightarrow> i) in
              bindE (RemoveKey_is m0 old)
                (\<lambda>(_, m1). bindE (SetAt_is True 0 m1 szName nIndex)
                  (\<lambda>m2. Inr (c\<lparr>m_ItemsHash := m2\<rparr>)))))"

definition SetName :: "bool \<Rightarrow> nat \<Rightarrow> bytes \<Rightarrow> collection \<times> items \<Rightarrow> (collection \<times> items) outcome" where
  "SetName in_place pItem szName = (\<lambda>(c, h).
     bindE (case m_pCollection (h pItem) of
              None \<Rightarrow> Inr c
            | Some _ \<Rightarrow> bindE (name_of h pItem) (\<lambda>old. rename_key c old szName))
       (\<lambda>c'. if m_Name (h pItem) \<noteq> None \<and> \<not> in_place then Inl UseAfterFree
             else Inr (c', h(pItem := (h pItem)\<lparr>m_Name := Some szName\<rparr>))))"

section \<open>Array and map agree\<close>

text \<open>
  The names of the items, up to case, are the keys of the map in the order of the array; all
  items of the array point back to the collection.
\<close>

definition key_of :: "items \<Rightarrow> nat \<Rightarrow> u32 list" where
  "key_of h p = (case m_Name (h p) of None \<Rightarrow> [] | Some n \<Rightarrow> map upper n)"

definition coll_ok :: "nat \<Rightarrow> collection \<times> items \<Rightarrow> bool" where
  "coll_ok this = (\<lambda>(c, h).
     indexed (map (key_of h) (m_Items c)) (m_ItemsHash c) \<and> m_bUseExternalKeys (m_ItemsHash c) \<and>
     (\<forall>p \<in> set (m_Items c). m_pCollection (h p) = Some this \<and> (\<exists>n. m_Name (h p) = Some n \<and> 0 \<notin> set n)))"

lemma coll_ok_new: "coll_ok this (CCollection bs, h)"
  by (simp add: coll_ok_def CCollection_def indexed_new) (simp add: CIStringMap_def)

lemma key_of_SetCollection [simp]: "key_of (SetCollection c p h) = key_of h"
  by (auto simp: key_of_def SetCollection_def)

lemma name_of_SetCollection [simp]: "m_Name (SetCollection c p h q) = m_Name (h q)"
  by (simp add: SetCollection_def)

lemma owner_SetCollection [simp]:
  "m_pCollection (SetCollection c p h q) = (if q = p then c else m_pCollection (h q))"
  by (simp add: SetCollection_def)

lemma distinct_items: "coll_ok this (c, h) \<Longrightarrow> distinct (m_Items c)"
  unfolding coll_ok_def indexed_def by (simp add: distinct_map)

lemma map_insert_nth: "map f (insert_nth n x xs) = insert_nth n (f x) (map f xs)"
  by (simp add: insert_nth_def take_map drop_map)

lemma map_remove_nth: "map f (remove_nth n xs) = remove_nth n (map f xs)"
  by (simp add: remove_nth_def take_map drop_map)

lemma coll_okD:
  assumes "coll_ok this (c, h)"
  shows "indexed (map (key_of h) (m_Items c)) (m_ItemsHash c)" "m_bUseExternalKeys (m_ItemsHash c)"
    "p \<in> set (m_Items c) \<Longrightarrow> m_pCollection (h p) = Some this"
    "p \<in> set (m_Items c) \<Longrightarrow> \<exists>n. m_Name (h p) = Some n \<and> 0 \<notin> set n"
  using assms by (auto simp: coll_ok_def)

definition named :: "items \<Rightarrow> nat \<Rightarrow> bytes \<Rightarrow> bool" where
  "named h p n \<longleftrightarrow> m_Name (h p) = Some n \<and> 0 \<notin> set n"

lemma namedD: "named h p n \<Longrightarrow> m_Name (h p) = Some n" "named h p n \<Longrightarrow> 0 \<notin> set n"
    "named h p n \<Longrightarrow> name_of h p = Inr n" "named h p n \<Longrightarrow> key_of h p = map upper n"
  by (simp_all add: named_def name_of_def GetName_def key_of_def)

lemma Add_coll_ok:
  assumes "coll_ok this (c, h)" "named h p n" "map upper n \<notin> key_of h ` set (m_Items c)"
  shows "\<exists>c'. Add_coll this p (c, h) = Inr (c', SetCollection (Some this) p h) \<and>
    m_Items c' = m_Items c @ [p] \<and> coll_ok this (c', SetCollection (Some this) p h)"
proof -
  note d = coll_okD [OF assms(1)]
  from Add_ix_indexed [OF d(1) namedD(2) [OF assms(2)], of True] assms(3) obtain m where m:
    "Add_ix True (m_ItemsHash c) n = Inr (int (length (map (key_of h) (m_Items c))), m)"
    "indexed (map (key_of h) (m_Items c) @ [map upper n]) m"
    "m_bUseExternalKeys m = m_bUseExternalKeys (m_ItemsHash c)" by auto
  let ?c = "c\<lparr>m_Items := m_Items c @ [p], m_ItemsHash := m\<rparr>"
  have "coll_ok this (?c, SetCollection (Some this) p h)"
    using m(2,3) d(2-4) namedD [OF assms(2)] by (auto simp: coll_ok_def)
  with m(1) show ?thesis by (simp add: Add_coll_def namedD(3) [OF assms(2)])
qed

lemma Insert_coll_ok:
  assumes "coll_ok this (c, h)" "named h p n" "map upper n \<notin> key_of h ` set (m_Items c)" "i \<le> length (m_Items c)"
  shows "\<exists>c'. Insert_coll this i p (c, h) = Inr (c', SetCollection (Some this) p h) \<and>
    m_Items c' = insert_nth i p (m_Items c) \<and> coll_ok this (c', SetCollection (Some this) p h)"
proof -
  note d = coll_okD [OF assms(1)]
  from Insert_ix_indexed [OF d(1) namedD(2) [OF assms(2)], of i True] assms(3,4) obtain m where m:
    "Insert_ix True (m_ItemsHash c) (int i) n = Inr m"
    "indexed (insert_nth i (map upper n) (map (key_of h) (m_Items c))) m"
    "m_bUseExternalKeys m = m_bUseExternalKeys (m_ItemsHash c)" by auto
  let ?c = "c\<lparr>m_Items := insert_nth i p (m_Items c), m_ItemsHash := m\<rparr>"
  have "coll_ok this (?c, SetCollection (Some this) p h)"
    using m(2,3) d(2-4) namedD [OF assms(2)] by (auto simp: coll_ok_def map_insert_nth)
  with m(1) show ?thesis by (simp add: Insert_coll_def namedD(3) [OF assms(2)] Let_def)
qed

lemma Remove_coll_ok:
  assumes "coll_ok this (c, h)" "i < length (m_Items c)"
  shows "\<exists>c'. Remove_coll i (c, h) = Inr (c', SetCollection None (m_Items c ! i) h) \<and>
    m_Items c' = remove_nth i (m_Items c) \<and> coll_ok this (c', SetCollection None (m_Items c ! i) h)"
proof -
  note d = coll_okD [OF assms(1)]
  let ?p = "m_Items c ! i"
  have p: "?p \<in> set (m_Items c)" using assms(2) by simp
  from d(4) [OF p] obtain n where n: "named h ?p n" by (auto simp: named_def)
  have "i < length (map (key_of h) (m_Items c))" "map (key_of h) (m_Items c) ! i = map upper n"
    using assms(2) namedD(4) [OF n] by simp_all
  from Remove_ix_indexed [OF d(1) namedD(2) [OF n] this, of True 0] obtain m where m:
    "Remove_ix True 0 (m_ItemsHash c) n = Inr (int i, m)" "indexed (remove_nth i (map (key_of h) (m_Items c))) m"
    "m_bUseExternalKeys m = m_bUseExternalKeys (m_ItemsHash c)" by blast
  let ?c = "c\<lparr>m_Items := remove_nth i (m_Items c), m_ItemsHash := m\<rparr>"
  have s: "set (remove_nth i (m_Items c)) = set (m_Items c) - {?p}"
    by (rule set_remove_nth [OF assms(2) distinct_items [OF assms(1)]])
  have "coll_ok this (?c, SetCollection None ?p h)"
    using m(2,3) d(2-4) by (auto simp: coll_ok_def map_remove_nth s)
  with m(1) assms(2) show ?thesis by (simp add: Remove_coll_def namedD(3) [OF n] Let_def)
qed

lemma Move_coll_ok:
  assumes "coll_ok this (c, h)" "i < length (m_Items c)" "j < length (m_Items c)" "j \<noteq> i"
  shows "\<exists>c'. Move_coll i j (c, h) = Inr (c', h) \<and>
    m_Items c' = insert_nth j (m_Items c ! i) (remove_nth i (m_Items c)) \<and> coll_ok this (c', h)"
proof -
  note d = coll_okD [OF assms(1)]
  from Move_ix_indexed [OF d(1), of i j True] assms(2-4) obtain m where m:
    "Move_ix True (m_ItemsHash c) (int i) (int j - int i) = Inr m"
    "indexed (insert_nth j (map (key_of h) (m_Items c) ! i) (remove_nth i (map (key_of h) (m_Items c)))) m"
    "m_bUseExternalKeys m = m_bUseExternalKeys (m_ItemsHash c)" by auto
  let ?items = "insert_nth j (m_Items c ! i) (remove_nth i (m_Items c))"
  let ?c = "c\<lparr>m_Items := ?items, m_ItemsHash := m\<rparr>"
  have s: "set ?items = set (m_Items c)"
    using set_remove_nth [OF assms(2) distinct_items [OF assms(1)]] nth_mem [OF assms(2)]
    by (simp add: insert_absorb)
  have "\<forall>p \<in> set ?items. m_pCollection (h p) = Some this \<and> (\<exists>n. m_Name (h p) = Some n \<and> 0 \<notin> set n)"
    unfolding s using d(3,4) by blast
  then have "coll_ok this (?c, h)"
    using m(2,3) d(2) assms(2) by (simp add: coll_ok_def map_insert_nth map_remove_nth del: set_insert_nth)
  with m(1) assms(2) show ?thesis by (simp add: Move_coll_def Let_def)
qed

lemma fold_SetCollection:
  "fold (SetCollection None) ps h p = (if p \<in> set ps then (h p)\<lparr>m_pCollection := None\<rparr> else h p)"
  by (induction ps arbitrary: h) (auto simp: SetCollection_def)

lemma Clear_coll_ok:
  "coll_ok this (c, h) \<Longrightarrow> coll_ok this (Clear_coll (c, h))"
  by (auto simp: coll_ok_def Clear_coll_def RemoveAll_is_def indexed_def is_ok_def map_ok_def map_abs_def assoc_map_def)

lemma item_named_ok:
  assumes "coll_ok this (c, h)" "0 \<notin> set n"
  shows "item_named c n = Inr (find (\<lambda>p. key_of h p = map upper n) (m_Items c))"
proof -
  note d = coll_okD [OF assms(1)]
  have l: "Lookup_is (m_ItemsHash c) n = Inr (is_abs (m_ItemsHash c) (map upper n))"
    by (rule Lookup_is_abs [OF indexedD(1) [OF d(1)] assms(2)])
  show ?thesis
  proof (cases "is_abs (m_ItemsHash c) (map upper n)")
    case None
    then have "map upper n \<notin> set (map (key_of h) (m_Items c))"
      using d(1) unfolding indexed_def by blast
    then have "\<forall>p \<in> set (m_Items c). key_of h p \<noteq> map upper n" by force
    then have "find (\<lambda>p. key_of h p = map upper n) (m_Items c) = None" unfolding find_None .
    with None l show ?thesis by (simp add: item_named_def)
  next
    case (Some i)
    from indexed_lookup [OF d(1) this] obtain k where k: "k < length (m_Items c)"
      "key_of h (m_Items c ! k) = map upper n" "i = int k" by auto
    have "distinct (map (key_of h) (m_Items c))" using indexedD(2) [OF d(1)] .
    from find_unique [OF this nth_mem [OF k(1)] k(2)]
    show ?thesis using Some l k by (simp add: item_named_def)
  qed
qed

lemma rename_indexed:
  assumes "indexed ks m" "i < length ks" "0 \<notin> set old" "ks ! i = map upper old" "0 \<notin> set new"
    "map upper new \<notin> set ks - {ks ! i}" "m_bUseExternalKeys m" "m_ItemsHash c = m"
  shows "\<exists>m'. rename_key c old new = Inr (c\<lparr>m_ItemsHash := m'\<rparr>) \<and> indexed (ks[i := map upper new]) m' \<and>
    m_bUseExternalKeys m'"
proof -
  note d = indexedD [OF assms(1)]
  have v: "is_abs m (map upper old) = Some (int i)" using d(3) [OF assms(2)] assms(4) by simp
  have "subscript_is True 0 m old = Inr m" using subscript_is_ok [OF d(1) assms(3), of True 0] v by auto
  moreover have "Lookup_is m old = Inr (Some (int i))" using Lookup_is_abs [OF d(1) assms(3)] v by simp
  moreover from RemoveKey_is_ok [OF d(1) assms(3)] v obtain m1 where m1: "RemoveKey_is m old = Inr (True, m1)" "is_ok m1"
    "is_abs m1 = (is_abs m)(map upper old := None)" "m_bUseExternalKeys m1" using assms(7) by auto
  moreover from SetAt_is_ok [OF m1(2) assms(5), of True 0 "int i"] m1(4) obtain m2 where m2:
    "SetAt_is True 0 m1 new (int i) = Inr m2" "is_ok m2" "is_abs m2 = (is_abs m1)(map upper new \<mapsto> int i)"
    "m_bUseExternalKeys m2" by auto
  ultimately have "rename_key c old new = Inr (c\<lparr>m_ItemsHash := m2\<rparr>)" using assms(8) by (simp add: rename_key_def)
  moreover have "indexed (ks[i := map upper new]) m2"
  proof (rule indexedI)
    show "distinct (ks[i := map upper new])" using d(2) assms(2,6) by (simp add: distinct_list_update)
  next
    fix x assume x: "x \<notin> set (ks[i := map upper new])"
    have "x \<noteq> map upper new" using x assms(2) by (metis set_update_memI)
    moreover have "x = ks ! i \<or> x \<notin> set ks"
      using x by (metis in_set_conv_nth length_list_update nth_list_update_neq)
    ultimately show "is_abs m2 x = None"
      using indexed_None [OF assms(1), of x] assms(4) by (auto simp: m2(3) m1(3))
  next
    fix n assume "n < length (ks[i := map upper new])"
    then have n: "n < length ks" by simp
    show "is_abs m2 (ks[i := map upper new] ! n) = Some (int n)"
    proof (cases "n = i")
      case False
      then have "ks ! n \<noteq> ks ! i" using d(2) n assms(2) by (simp add: nth_eq_iff_index_eq)
      moreover then have "ks ! n \<noteq> map upper new" using assms(6) n by (metis Diff_iff nth_mem singletonD)
      ultimately show ?thesis using False d(3) [OF n] assms(4) by (simp add: m2(3) m1(3))
    qed (use n in \<open>simp add: m2(3)\<close>)
  qed (rule m2(2))
  ultimately show ?thesis using m2(4) by blast
qed

lemma SetName_ok:
  assumes "coll_ok this (c, h)" "i < length (m_Items c)" "0 \<notin> set new"
    "map upper new \<notin> key_of h ` (set (m_Items c) - {m_Items c ! i})"
  shows "\<exists>c' h'. SetName True (m_Items c ! i) new (c, h) = Inr (c', h') \<and> m_Items c' = m_Items c \<and>
    coll_ok this (c', h') \<and> h' = h(m_Items c ! i := (h (m_Items c ! i))\<lparr>m_Name := Some new\<rparr>)"
proof -
  note d = coll_okD [OF assms(1)]
  let ?p = "m_Items c ! i"
  let ?ks = "map (key_of h) (m_Items c)"
  let ?h = "h(?p := (h ?p)\<lparr>m_Name := Some new\<rparr>)"
  have p: "?p \<in> set (m_Items c)" using assms(2) by simp
  from d(4) [OF p] obtain old where old: "named h ?p old" by (auto simp: named_def)
  have dis: "distinct (m_Items c)" by (rule distinct_items [OF assms(1)])
  have "map upper new \<notin> set ?ks - {?ks ! i}" using assms(2,4) by auto
  from rename_indexed [OF d(1) _ namedD(2) [OF old] _ assms(3) this d(2) refl]
  obtain m where m: "rename_key c old new = Inr (c\<lparr>m_ItemsHash := m\<rparr>)" "indexed (?ks[i := map upper new]) m"
    "m_bUseExternalKeys m" using assms(2) namedD(4) [OF old] by auto
  have "map (key_of ?h) (m_Items c) = ?ks[i := map upper new]"
  proof (rule nth_equalityI)
    fix j assume "j < length (map (key_of ?h) (m_Items c))"
    then show "map (key_of ?h) (m_Items c) ! j = ?ks[i := map upper new] ! j"
      using assms(2) dis by (cases "j = i") (auto simp: key_of_def nth_eq_iff_index_eq)
  qed simp
  moreover have "SetName True ?p new (c, h) = Inr (c\<lparr>m_ItemsHash := m\<rparr>, ?h)"
    using d(3) [OF p] m(1) by (simp add: SetName_def namedD(3) [OF old])
  ultimately show ?thesis using m(2,3) d(3,4) assms(3)
    by (intro exI [of _ "c\<lparr>m_ItemsHash := m\<rparr>"] exI [of _ ?h]) (auto simp: coll_ok_def)
qed

section \<open>Histories of a collection\<close>

text \<open>
  The states a collection and its items go through, as long as the callers keep to the
  assertions: names are set and not in use, indexes are in range, and the block of a name
  that grows does not move.
\<close>

inductive coll_step :: "nat \<Rightarrow> collection \<times> items \<Rightarrow> (collection \<times> items) outcome \<Rightarrow> bool" for this where
  step_add: "named h p n \<Longrightarrow> map upper n \<notin> key_of h ` set (m_Items c) \<Longrightarrow>
    coll_step this (c, h) (Add_coll this p (c, h))"
| step_insert: "named h p n \<Longrightarrow> map upper n \<notin> key_of h ` set (m_Items c) \<Longrightarrow> i \<le> length (m_Items c) \<Longrightarrow>
    coll_step this (c, h) (Insert_coll this i p (c, h))"
| step_remove: "i < length (m_Items c) \<Longrightarrow> coll_step this (c, h) (Remove_coll i (c, h))"
| step_move: "i < length (m_Items c) \<Longrightarrow> j < length (m_Items c) \<Longrightarrow> j \<noteq> i \<Longrightarrow>
    coll_step this (c, h) (Move_coll i j (c, h))"
| step_clear: "coll_step this (c, h) (Inr (Clear_coll (c, h)))"
| step_rename: "i < length (m_Items c) \<Longrightarrow> 0 \<notin> set new \<Longrightarrow>
    map upper new \<notin> key_of h ` (set (m_Items c) - {m_Items c ! i}) \<Longrightarrow>
    coll_step this (c, h) (SetName True (m_Items c ! i) new (c, h))"

inductive coll_reach :: "nat \<Rightarrow> (collection \<times> items) outcome \<Rightarrow> bool" for this where
  reach_new: "coll_reach this (Inr (CCollection bs, h))"
| reach_step: "coll_reach this (Inr s) \<Longrightarrow> coll_step this s r \<Longrightarrow> coll_reach this r"

lemma coll_step_ok: "coll_step this s r \<Longrightarrow> coll_ok this s \<Longrightarrow> \<exists>s'. r = Inr s' \<and> coll_ok this s'"
proof (induction rule: coll_step.induct)
  case (step_add h p n c)
  from Add_coll_ok [OF step_add(3,1,2)] show ?case by blast
next
  case (step_insert h p n c i)
  from Insert_coll_ok [OF step_insert(4,1,2,3)] show ?case by blast
next
  case (step_remove i c h)
  from Remove_coll_ok [OF step_remove(2,1)] show ?case by blast
next
  case (step_move i c j h)
  from Move_coll_ok [OF step_move(4,1,2,3)] show ?case by blast
next
  case (step_clear c h)
  then show ?case using Clear_coll_ok by blast
next
  case (step_rename i c new h)
  from SetName_ok [OF step_rename(4,1,2,3)] show ?case by blast
qed

lemma coll_reach_ok: "coll_reach this r \<Longrightarrow> \<exists>s. r = Inr s \<and> coll_ok this s"
proof (induction rule: coll_reach.induct)
  case (reach_new bs h)
  then show ?case using coll_ok_new by blast
next
  case (reach_step s r)
  then show ?case using coll_step_ok by blast
qed



end
