(* ===== verification/Dispatch.thy ===== *)
theory Dispatch
imports NoCaseMap
begin

text \<open>
  The framework for objects of the 1C runtime of \<open>_1Common/contextimpl.hpp\<close>: from the list of
  methods and properties that a class declares, templates build the search of a method by
  its name, the names by number, and the calls by number.

  The declarations form a chain that starts with the last one: each has a link \<open>prev\<close> to the
  one before it and the number \<open>prev::val + 1\<close>. A list stands for this chain, so the number of
  the first element of \<open>M # prev\<close> is the length of \<open>prev\<close>.

  As in the theory of the map with case-insensitive keys, the table of lower-case letters is
  the argument \<open>lo\<close>; here the code also relies on letters being single bytes and on lower-case
  letters being their own lower case (\<open>lo_bytes\<close>).
\<close>

section \<open>Comparing names\<close>

definition lo_bytes :: "lotable \<Rightarrow> bool" where
  "lo_bytes lo \<longleftrightarrow> lo_table lo \<and> (\<forall>c. lo c < 256 \<and> lo (ucast (lo c)) = lo c)"

definition low :: "lotable \<Rightarrow> byte \<Rightarrow> byte" where
  "low lo c = ucast (lo c)"

text \<open>\<open>makelower\<close> into a buffer that has \<open>n\<close> bytes left: what is written in front of the terminator.\<close>

fun makelower :: "lotable \<Rightarrow> nat \<Rightarrow> bytes \<Rightarrow> bytes outcome" where
  "makelower lo 0 ptr = Inl OobWrite"
| "makelower lo (Suc n) ptr =
     (let s = lo (symbol ptr) in
      if s = 0 then Inr []
      else case ptr of
             [] \<Rightarrow> Inl OobRead
           | c # p \<Rightarrow> bindE (makelower lo n p) (\<lambda>r. Inr (ucast s # r)))"

text \<open>
  The three comparisons have the same loop; they differ in which side is already in lower
  case. \<open>f\<close> and \<open>g\<close> read the two sides.
\<close>

fun compare_names :: "(byte \<Rightarrow> u32) \<Rightarrow> (byte \<Rightarrow> u32) \<Rightarrow> bytes \<Rightarrow> bytes \<Rightarrow> bool outcome" where
  "compare_names f g ptr1 ptr2 =
     (if symbol ptr1 \<noteq> 0 \<and> f (symbol ptr1) = g (symbol ptr2)
      then case ptr1 of
             [] \<Rightarrow> Inl OobRead
           | _ # p1 \<Rightarrow> (case ptr2 of [] \<Rightarrow> Inl OobRead | _ # p2 \<Rightarrow> compare_names f g p1 p2)
      else Inr (symbol ptr1 = symbol ptr2))"

declare compare_names.simps [simp del]

definition compareUU :: "lotable \<Rightarrow> bytes \<Rightarrow> bytes \<Rightarrow> bool outcome" where
  "compareUU lo = compare_names lo lo"

definition compareLU :: "lotable \<Rightarrow> bytes \<Rightarrow> bytes \<Rightarrow> bool outcome" where
  "compareLU lo = compare_names ucast lo"

definition compareLL :: "bytes \<Rightarrow> bytes \<Rightarrow> bool outcome" where
  "compareLL = compare_names ucast ucast"

section \<open>Declarations\<close>

text \<open>
  A declaration with the names of a method or property and the rest of what is declared. The
  handlers are functions from a state \<open>'s\<close> of the object and parameters \<open>'p\<close>.
\<close>

record decl =
  GetEngName :: bytes
  GetRusName :: bytes

record ('s, 'p) meth_decl = decl +
  nParam :: nat
  IsFunc :: bool
  IsDefVal :: bool
  call :: "'s \<Rightarrow> 'p \<Rightarrow> (bool \<times> 's) outcome"
  DefVal :: "nat \<Rightarrow> bool"

record ('s, 'p) prop_decl = decl +
  IsRead :: bool
  IsWrite :: bool
  read_prop :: "'s \<Rightarrow> (bool \<times> 'p) outcome"
  write_prop :: "'s \<Rightarrow> 'p \<Rightarrow> (bool \<times> 's) outcome"

section \<open>Search of a number by its name\<close>

definition onefnd :: "lotable \<Rightarrow> ('z decl_scheme) list \<Rightarrow> bytes \<Rightarrow> int outcome" where
  "onefnd lo ds name =
     (case ds of
        [] \<Rightarrow> Inl NullDeref
      | M # _ \<Rightarrow>
          bindE (compareUU lo name (GetRusName M))
            (\<lambda>e. if e then Inr 0
                 else bindE (compareUU lo name (GetEngName M)) (\<lambda>e. Inr (if e then 0 else -1))))"

fun simple_find :: "lotable \<Rightarrow> bytes \<Rightarrow> ('z decl_scheme) list \<Rightarrow> int outcome" where
  "simple_find lo buf [] = Inr (-1)"
| "simple_find lo buf (M # prev) =
     bindE (compareLU lo buf (GetRusName M))
       (\<lambda>e. if e then Inr (int (length prev))
            else bindE (compareLU lo buf (GetEngName M))
              (\<lambda>e. if e then Inr (int (length prev)) else simple_find lo buf prev))"

definition simplefnd :: "lotable \<Rightarrow> ('z decl_scheme) list \<Rightarrow> bytes \<Rightarrow> int outcome" where
  "simplefnd lo ds name = bindE (makelower lo 512 name) (\<lambda>buf. simple_find lo buf ds)"

text \<open>The sizes of the hash table, computed by the compiler.\<close>

function nearest_bigger :: "nat \<Rightarrow> nat" where
  "nearest_bigger i = (if i \<in> {13, 19, 29, 37, 47, 53} \<or> 53 < i then i else nearest_bigger (i + 1))"
  by pat_completeness auto

termination nearest_bigger
  by (relation "measure (\<lambda>i. 54 - i)") auto

declare nearest_bigger.simps [simp del]

definition hashsizes :: "nat \<Rightarrow> nat" where
  "hashsizes i = (if i < 53 then nearest_bigger i else (i + i div 2) OR 1)"

definition hash_step :: "u32 \<Rightarrow> u32 \<Rightarrow> u32" where
  "hash_step h symb = push_bit 1 h XOR symb"

text \<open>The full hash of a name, and the name in lower case written to a buffer of \<open>n\<close> bytes.\<close>

fun name_hash :: "lotable \<Rightarrow> nat \<Rightarrow> bytes \<Rightarrow> u32 \<Rightarrow> (u32 \<times> bytes) outcome" where
  "name_hash lo 0 k h = Inl OobWrite"
| "name_hash lo (Suc n) k h =
     (let symb = lo (symbol k) in
      if symb = 0 then Inr (h, [])
      else case k of
             [] \<Rightarrow> Inl OobRead
           | c # k' \<Rightarrow>
               bindE (name_hash lo n k' (hash_step h symb)) (\<lambda>(h', buf). Inr (h', ucast symb # buf)))"

type_synonym name_table = "int table"

definition Insert_name :: "lotable \<Rightarrow> bytes \<Rightarrow> int \<Rightarrow> name_table \<Rightarrow> name_table outcome" where
  "Insert_name lo name p t =
     bindE (name_hash lo (strlen name + 1) name 0)
       (\<lambda>(h, k). Inr (link \<lparr>nHashValue = h, assoc_key = k, assoc_value = p\<rparr> t))"

fun AddNames :: "lotable \<Rightarrow> ('z decl_scheme) list \<Rightarrow> name_table \<Rightarrow> name_table outcome" where
  "AddNames lo [] t = Inr t"
| "AddNames lo (M # prev) t =
     bindE (Insert_name lo (GetRusName M) (int (length prev)) t)
       (\<lambda>t1. bindE (Insert_name lo (GetEngName M) (int (length prev)) t1) (AddNames lo prev))"

definition OnInitFirstObject :: "lotable \<Rightarrow> ('z decl_scheme) list \<Rightarrow> name_table outcome" where
  "OnInitFirstObject lo ds = AddNames lo ds (replicate (hashsizes (length ds * 2)) [])"

definition find_name :: "lotable \<Rightarrow> name_table \<Rightarrow> bytes \<Rightarrow> int outcome" where
  "find_name lo t name =
     bindE (name_hash lo 512 name 0)
       (\<lambda>(h, buf). bindE (chain_find compareLL h buf (t ! bucket h (length t)))
         (\<lambda>r. Inr (case r of None \<Rightarrow> -1 | Some a \<Rightarrow> assoc_value a)))"

text \<open>
  \<open>fndselector\<close>: the search that belongs to the number of declarations. A null pointer for the
  name is not found. The hash table is built when the first object is created.
\<close>

definition Find :: "lotable \<Rightarrow> ('z decl_scheme) list \<Rightarrow> bytes option \<Rightarrow> int outcome" where
  "Find lo ds name =
     (case name of
        None \<Rightarrow> Inr (-1)
      | Some n \<Rightarrow>
          if length ds = 0 then Inr (-1)
          else if length ds = 1 then onefnd lo ds n
          else if length ds < 4 then simplefnd lo ds n
          else bindE (OnInitFirstObject lo ds) (\<lambda>t. find_name lo t n))"

text \<open>
  \<open>getname\<close>: the names by number, English with language 0 and Russian with language 1. The
  array of names is not initialised (\<open>junk\<close>) before it is filled.
\<close>

fun fill_names :: "('z decl_scheme) list \<Rightarrow> (bytes \<times> bytes) list \<Rightarrow> (bytes \<times> bytes) list" where
  "fill_names [] names = names"
| "fill_names (M # prev) names = fill_names prev (names[length prev := (GetEngName M, GetRusName M)])"

definition GetName_by :: "('z decl_scheme) list \<Rightarrow> (bytes \<times> bytes) list \<Rightarrow> u32 \<Rightarrow> u32 \<Rightarrow> bytes option" where
  "GetName_by ds junk dwMethod dwLang =
     (if unat dwMethod < length ds \<and> dwLang < 2
      then let names = fill_names ds (take (length ds) junk) in
           Some (if dwLang = 0 then fst (names ! unat dwMethod) else snd (names ! unat dwMethod))
      else None)"

section \<open>Numbers of parameters, results, and calls by number\<close>

text \<open>
  Counting the declarations with a flag, and the two searches that tell whether a declaration
  has it: among those that have it, or among those that do not. The templates use the search
  with the shorter list.
\<close>

fun count_flag :: "('a \<Rightarrow> bool) \<Rightarrow> 'a list \<Rightarrow> nat" where
  "count_flag f [] = 0"
| "count_flag f (M # prev) = of_bool (f M) + count_flag f prev"

fun flag_min :: "('a \<Rightarrow> bool) \<Rightarrow> 'a list \<Rightarrow> nat \<Rightarrow> bool" where
  "flag_min f [] d = False"
| "flag_min f (M # prev) d = (if f M \<and> d = length prev then True else flag_min f prev d)"

fun flag_max :: "('a \<Rightarrow> bool) \<Rightarrow> 'a list \<Rightarrow> nat \<Rightarrow> bool" where
  "flag_max f [] d = True"
| "flag_max f (M # prev) d = (if \<not> f M \<and> d = length prev then False else flag_max f prev d)"

text \<open>The number of parameters that all methods share, and \<open>-1\<close> when they differ.\<close>

fun some_np_loop :: "('s, 'p) meth_decl list \<Rightarrow> int" where
  "some_np_loop [] = 0"
| "some_np_loop [M] = int (nParam M)"
| "some_np_loop (M # N # prev) = (if nParam M = nParam N then some_np_loop (N # prev) else -1)"

definition HasRetVal :: "('s, 'p) meth_decl list \<Rightarrow> nat \<Rightarrow> bool" where
  "HasRetVal ds d =
     (let func = count_flag IsFunc ds; proc = length ds - func in
      if func \<le> proc then flag_min IsFunc ds d else flag_max IsFunc ds d)"

fun nparams_loop :: "('s, 'p) meth_decl list \<Rightarrow> nat \<Rightarrow> int" where
  "nparams_loop [] d = -1"
| "nparams_loop (M # prev) d = (if d = length prev then int (nParam M) else nparams_loop prev d)"

definition GetNParams :: "('s, 'p) meth_decl list \<Rightarrow> nat \<Rightarrow> int" where
  "GetNParams ds d =
     (if some_np_loop ds = -1 then if d < length ds then nparams_loop ds d else -1 else some_np_loop ds)"

fun GetDefVal :: "('s, 'p) meth_decl list \<Rightarrow> nat \<Rightarrow> nat \<Rightarrow> bool" where
  "GetDefVal [] d p = False"
| "GetDefVal (M # prev) d p =
     (if IsDefVal M \<and> d = length prev \<and> p < nParam M then DefVal M p else GetDefVal prev d p)"

fun CallAsProc :: "('s, 'p) meth_decl list \<Rightarrow> 's \<Rightarrow> nat \<Rightarrow> 'p \<Rightarrow> (bool \<times> 's) outcome" where
  "CallAsProc [] s d p = Inr (False, s)"
| "CallAsProc (M # prev) s d p = (if \<not> IsFunc M \<and> d = length prev then call M s p else CallAsProc prev s d p)"

fun CallAsFunc :: "('s, 'p) meth_decl list \<Rightarrow> 's \<Rightarrow> nat \<Rightarrow> 'p \<Rightarrow> (bool \<times> 's) outcome" where
  "CallAsFunc [] s d p = Inr (False, s)"
| "CallAsFunc (M # prev) s d p = (if IsFunc M \<and> d = length prev then call M s p else CallAsFunc prev s d p)"

definition IsPropReadable :: "('s, 'p) prop_decl list \<Rightarrow> nat \<Rightarrow> bool" where
  "IsPropReadable ds d =
     (let r = count_flag IsRead ds in
      if r < length ds - r then flag_min IsRead ds d else flag_max IsRead ds d)"

definition IsPropWritable :: "('s, 'p) prop_decl list \<Rightarrow> nat \<Rightarrow> bool" where
  "IsPropWritable ds d =
     (let w = count_flag IsWrite ds in
      if w < length ds - w then flag_min IsWrite ds d else flag_max IsWrite ds d)"

fun ReadProp :: "('s, 'p) prop_decl list \<Rightarrow> 's \<Rightarrow> nat \<Rightarrow> 'p \<Rightarrow> (bool \<times> 'p) outcome" where
  "ReadProp [] s d v = Inr (False, v)"
| "ReadProp (M # prev) s d v = (if IsRead M \<and> d = length prev then read_prop M s else ReadProp prev s d v)"

fun WriteProp :: "('s, 'p) prop_decl list \<Rightarrow> 's \<Rightarrow> nat \<Rightarrow> 'p \<Rightarrow> (bool \<times> 's) outcome" where
  "WriteProp [] s d v = Inr (False, s)"
| "WriteProp (M # prev) s d v = (if IsWrite M \<and> d = length prev then write_prop M s v else WriteProp prev s d v)"

text \<open>
  The number of parameters of a method that takes a variable number of arguments: the flag is
  in the upper half of the declared number, and \<open>dwCallParams\<close> is the number of the call.
\<close>

fun variable_nparams_loop :: "('s, 'p) meth_decl list \<Rightarrow> nat \<Rightarrow> u32 \<Rightarrow> int" where
  "variable_nparams_loop [] d dwCallParams = -1"
| "variable_nparams_loop (M # prev) d dwCallParams =
     (if d = length prev
      then let n = of_nat (nParam M) :: u32 in
           if drop_bit 16 n = 0 then sint n
           else if dwCallParams = -1 then sint (n AND 0xFFFF)
           else sint (if dwCallParams > n AND 0xFFFF then dwCallParams else n AND 0xFFFF)
      else variable_nparams_loop prev d dwCallParams)"

definition variable_nparams :: "('s, 'p) meth_decl list \<Rightarrow> nat \<Rightarrow> u32 \<Rightarrow> int" where
  "variable_nparams ds d dwCallParams =
     (if d < length ds then variable_nparams_loop ds d dwCallParams else -1)"

section \<open>The object of the component\<close>

text \<open>
  The methods and properties of \<open>CcURL\<close> (\<open>curl1c/Context.h\<close>) with their names, from the last
  to the first. The Russian names are in the code page 1251.
\<close>

definition decl_of :: "string \<Rightarrow> bytes \<Rightarrow> decl" where
  "decl_of eng rus = \<lparr>GetEngName = bytes_of eng, GetRusName = rus\<rparr>"

definition CcURL_meths :: "decl list" where
  "CcURL_meths =
    [decl_of ''FromBase64'' (bytes_of ''FromBase64''),
     decl_of ''ToBase64'' (bytes_of ''ToBase64''),
     decl_of ''FromURL'' (bytes_of ''FromURL''),
     decl_of ''ToURL'' (bytes_of ''ToURL''),
     decl_of ''FromUTF8'' (bytes_of ''FromUTF8''),
     decl_of ''ToUTF8'' (bytes_of ''ToUTF8''),
     decl_of ''free_all'' ([0xCE, 0xF7, 0xE8, 0xF1, 0xF2, 0xE8, 0xF2, 0xFC, 0xD1, 0xF2, 0xF0, 0xEE,
        0xEA, 0xE8]),
     decl_of ''mime_init'' ([0xD1, 0xEE, 0xE7, 0xE4, 0xE0, 0xF2, 0xFC, 0xC7, 0xE0, 0xEF, 0xF0, 0xEE, 0xF1]),
     decl_of ''UseCache'' ([0xC8, 0xF1, 0xEF, 0xEE, 0xEB, 0xFC, 0xE7, 0xEE, 0xE2, 0xE0, 0xF2, 0xFC,
        0xCA, 0xFD, 0xF8]),
     decl_of ''AssignCurlCache'' ([0xCE, 0xF7, 0xE8, 0xF1, 0xF2, 0xE8, 0xF2, 0xFC, 0xCA, 0xFD, 0xF8]),
     decl_of ''GetStatistics'' ([0xCF, 0xEE, 0xEB, 0xF3, 0xF7, 0xE8, 0xF2, 0xFC, 0xD1, 0xF2, 0xE0,
        0xF2, 0xE8, 0xF1, 0xF2, 0xE8, 0xEA, 0xF3]),
     decl_of ''GetHeaders'' ([0xCF, 0xEE, 0xEB, 0xF3, 0xF7, 0xE8, 0xF2, 0xFC, 0xC7, 0xE0, 0xE3,
        0xEE, 0xEB, 0xEE, 0xE2, 0xEA, 0xE8]),
     decl_of ''StatusLine'' ([0xC2, 0xFB, 0xE2, 0xEE, 0xE4, 0xE8, 0xF2, 0xFC, 0xD1, 0xEE, 0xF1,
        0xF2, 0xEE, 0xFF, 0xED, 0xE8, 0xE5]),
     decl_of ''Trace'' ([0xD2, 0xF0, 0xE0, 0xF1, 0xF1, 0xE8, 0xF0, 0xEE, 0xE2, 0xEA, 0xE0]),
     decl_of ''Debug'' ([0xCE, 0xF2, 0xEB, 0xE0, 0xE4, 0xEA, 0xE0]),
     decl_of ''easy_perform'' ([0xC2, 0xFB, 0xEF, 0xEE, 0xEB, 0xED, 0xE8, 0xF2, 0xFC]),
     decl_of ''easy_setopt'' ([0xD3, 0xF1, 0xF2, 0xE0, 0xED, 0xEE, 0xE2, 0xE8, 0xF2, 0xFC, 0xCF,
        0xE0, 0xF0, 0xE0, 0xEC, 0xE5, 0xF2, 0xF0]),
     decl_of ''easy_cleanup'' ([0xCE, 0xF7, 0xE8, 0xF1, 0xF2, 0xE8, 0xF2, 0xFC, 0xCF, 0xE0, 0xF0,
        0xE0, 0xEC, 0xE5, 0xF2, 0xF0, 0xFB]),
     decl_of ''easy_init'' ([0xC8, 0xED, 0xE8, 0xF2]),
     decl_of ''ComponentsVersion'' ([0xC2, 0xE5, 0xF0, 0xF1, 0xE8, 0xE8, 0xCA, 0xEE, 0xEC, 0xEF,
        0xEE, 0xED, 0xE5, 0xED, 0xF2, 0xEE, 0xE2]),
     decl_of ''Version'' ([0xC2, 0xE5, 0xF0, 0xF1, 0xE8, 0xFF])]"

definition CcURL_props :: "decl list" where
  "CcURL_props =
    [decl_of ''Dest'' ([0xCF, 0xF0, 0xE8, 0xE5, 0xEC, 0xED, 0xE8, 0xEA]),
     decl_of ''Source'' ([0xC8, 0xF1, 0xF2, 0xEE, 0xF7, 0xED, 0xE8, 0xEA])]"

text \<open>
  The complete declarations of the method \<open>Trace\<close>, whose handler only sets the flag
  \<open>isTrace\<close> from its numeric parameter, and of the two properties, which read the objects
  \<open>pSrc\<close> and \<open>pDest\<close>.
\<close>

definition Trace_decl :: "(bool, int) meth_decl" where
  "Trace_decl =
    \<lparr>GetEngName = bytes_of ''Trace'',
     GetRusName = [0xD2, 0xF0, 0xE0, 0xF1, 0xF1, 0xE8, 0xF0, 0xEE, 0xE2, 0xEA, 0xE0],
     nParam = 1, IsFunc = True, IsDefVal = False,
     call = (\<lambda>isTrace trace. Inr (True, trace \<noteq> 0)), DefVal = (\<lambda>_. False)\<rparr>"

definition Source_decl :: "('v \<times> 'v, 'v) prop_decl" where
  "Source_decl =
    \<lparr>GetEngName = bytes_of ''Source'', GetRusName = [0xC8, 0xF1, 0xF2, 0xEE, 0xF7, 0xED, 0xE8, 0xEA],
     IsRead = True, IsWrite = False,
     read_prop = (\<lambda>(pSrc, pDest). Inr (True, pSrc)), write_prop = (\<lambda>s v. Inr (False, s))\<rparr>"

definition Dest_decl :: "('v \<times> 'v, 'v) prop_decl" where
  "Dest_decl =
    \<lparr>GetEngName = bytes_of ''Dest'', GetRusName = [0xCF, 0xF0, 0xE8, 0xE5, 0xEC, 0xED, 0xE8, 0xEA],
     IsRead = True, IsWrite = False,
     read_prop = (\<lambda>(pSrc, pDest). Inr (True, pDest)), write_prop = (\<lambda>s v. Inr (False, s))\<rparr>"

section \<open>The comparisons\<close>

lemma lo_bytesD:
  assumes "lo_bytes lo"
  shows "lo c = 0 \<longleftrightarrow> c = 0" "lo c < 256" "lo (low lo c) = lo c" "lo_table lo"
  using assms by (simp_all add: lo_bytes_def lo_tableD low_def)

lemma ucast_low:
  assumes "lo_bytes lo"
  shows "(ucast (low lo c) :: u32) = lo c"
proof -
  have "lo c < 256" using assms by (rule lo_bytesD)
  then have "unat (lo c) < 256" by (simp add: word_less_nat_alt)
  then show ?thesis by (simp add: low_def word_unat_eq_iff unsigned_ucast_eq unsigned_take_bit_eq take_bit_nat_eq_self)
qed

lemma low_0_iff [simp]: "lo_bytes lo \<Longrightarrow> low lo c = 0 \<longleftrightarrow> c = 0"
  using ucast_low [of lo c] lo_bytesD(1) [of lo c] ucast_u32_0 [of "low lo c"] by simp

lemma zero_map_low [simp]: "lo_bytes lo \<Longrightarrow> 0 \<notin> set s \<Longrightarrow> 0 \<notin> set (map (low lo) s)"
  by (auto simp: image_iff eq_commute [of 0])

lemma map_lo: "lo_bytes lo \<Longrightarrow> map lo s = map ucast (map (low lo) s)"
  by (simp add: ucast_low comp_def)

lemma map_ucast_eq: "map (ucast :: byte \<Rightarrow> u32) xs = map ucast ys \<longleftrightarrow> xs = ys"
  by (rule inj_map_eq_map) (auto intro!: injI)

text \<open>What all three comparisons compute: equality of what they read.\<close>

lemma compare_names_eq:
  assumes "\<And>c. f c = 0 \<longleftrightarrow> c = 0" "\<And>c. g c = 0 \<longleftrightarrow> c = 0"
  shows "\<lbrakk>0 \<notin> set p1; 0 \<notin> set p2; \<forall>c \<in> set p1. f c = g c\<rbrakk> \<Longrightarrow>
     compare_names f g p1 p2 = Inr (map f p1 = map g p2)"
proof (induction p1 arbitrary: p2)
  case Nil
  then show ?case by (cases p2) (auto simp: compare_names.simps [of f g "[]"])
next
  case (Cons c p1)
  show ?case
  proof (cases p2)
    case Nil
    with Cons.prems assms(1) [of c] assms(2) [of 0] show ?thesis
      by (simp add: compare_names.simps [of f g "c # p1"])
  next
    case (Cons d p2')
    with Cons.prems Cons.IH [of p2'] show ?thesis
      by (auto simp: compare_names.simps [of f g "c # p1"])
  qed
qed

lemma compareUU_eq:
  assumes "lo_bytes lo" "0 \<notin> set p1" "0 \<notin> set p2"
  shows "compareUU lo p1 p2 = Inr (map (low lo) p1 = map (low lo) p2)"
  using assms lo_bytesD(1) [OF assms(1)]
  by (simp add: compareUU_def compare_names_eq map_lo map_ucast_eq del: map_map)

lemma compareLU_eq:
  assumes "lo_bytes lo" "0 \<notin> set p1" "0 \<notin> set p2"
  shows "compareLU lo (map (low lo) p1) p2 = Inr (map (low lo) p1 = map (low lo) p2)"
proof -
  have "\<forall>c \<in> set (map (low lo) p1). ucast c = lo c"
    using ucast_low [OF assms(1)] lo_bytesD(3) [OF assms(1)] by simp
  then show ?thesis
    using assms zero_map_low [OF assms(1,2)] lo_bytesD(1) [OF assms(1)]
    by (simp add: compareLU_def compare_names_eq map_lo [of lo p2] map_ucast_eq del: map_map set_map)
qed

lemma compareLL_eq: "\<lbrakk>0 \<notin> set p1; 0 \<notin> set p2\<rbrakk> \<Longrightarrow> compareLL p1 p2 = Inr (p1 = p2)"
  by (simp add: compareLL_def compare_names_eq map_ucast_eq)

lemma makelower_eq:
  assumes "lo_bytes lo"
  shows "0 \<notin> set s \<Longrightarrow>
     makelower lo n s = (if length s < n then Inr (map (low lo) s) else Inl OobWrite)"
proof (induction s arbitrary: n)
  case Nil
  then show ?case using lo_bytesD(1) [OF assms, of 0] by (cases n) simp_all
next
  case (Cons c s)
  then show ?case using lo_bytesD(1) [OF assms, of c] by (cases n) (simp_all add: low_def)
qed

section \<open>The hash table of names\<close>

definition raw_hash :: "bytes \<Rightarrow> u32" where
  "raw_hash k = foldl (\<lambda>h c. hash_step h (ucast c)) 0 k"

lemma name_hash_eq:
  assumes "lo_bytes lo"
  shows "0 \<notin> set s \<Longrightarrow>
     name_hash lo n s h =
       (if length s < n
        then Inr (foldl (\<lambda>h c. hash_step h (ucast c)) h (map (low lo) s), map (low lo) s)
        else Inl OobWrite)"
proof (induction s arbitrary: n h)
  case Nil
  then show ?case using lo_bytesD(1) [OF assms, of 0] by (cases n) simp_all
next
  case (Cons c s)
  then show ?case using lo_bytesD(1) [OF assms, of c] ucast_low [OF assms, of c]
    by (cases n) (simp_all add: low_def [of lo c] Let_def)
qed

interpretation ll: string_keys "\<lambda>k. k" raw_hash compareLL
  by unfold_locales (simp_all add: compareLL_eq)

definition name_assoc :: "lotable \<Rightarrow> bytes \<Rightarrow> int \<Rightarrow> int assoc" where
  "name_assoc lo name p =
     \<lparr>nHashValue = raw_hash (map (low lo) name), assoc_key = map (low lo) name, assoc_value = p\<rparr>"

fun entries :: "lotable \<Rightarrow> ('z decl_scheme) list \<Rightarrow> int assoc list" where
  "entries lo [] = []"
| "entries lo (M # prev) =
     name_assoc lo (GetRusName M) (int (length prev)) # name_assoc lo (GetEngName M) (int (length prev)) #
     entries lo prev"

definition names_ok :: "('z decl_scheme) list \<Rightarrow> bool" where
  "names_ok ds \<longleftrightarrow> (\<forall>M \<in> set ds. 0 \<notin> set (GetRusName M) \<and> 0 \<notin> set (GetEngName M))"

lemma names_ok_simps [simp]:
  "names_ok []"
  "names_ok (M # ds) \<longleftrightarrow> 0 \<notin> set (GetRusName M) \<and> 0 \<notin> set (GetEngName M) \<and> names_ok ds"
  by (auto simp: names_ok_def)

lemma Insert_name_eq:
  assumes "lo_bytes lo" "0 \<notin> set name"
  shows "Insert_name lo name p t = Inr (link (name_assoc lo name p) t)"
  using assms by (simp add: Insert_name_def name_hash_eq strlen_def name_assoc_def raw_hash_def del: name_hash.simps)

lemma AddNames_eq:
  "lo_bytes lo \<Longrightarrow> names_ok ds \<Longrightarrow> AddNames lo ds t = Inr (fold link (entries lo ds) t)"
  by (induction ds arbitrary: t) (simp_all add: Insert_name_eq)

lemma entries_hashed:
  "lo_bytes lo \<Longrightarrow> names_ok ds \<Longrightarrow> \<forall>a \<in> set (entries lo ds). hashed raw_hash a"
  by (induction ds) (simp_all add: hashed_def name_assoc_def del: set_map)

lemma fold_link_names:
  assumes "0 < length t"
  shows "length (fold link as t) = length t"
    and "i < length t \<Longrightarrow>
      fold link as t ! i = rev (filter (\<lambda>a. bucket (nHashValue a) (length t) = i) as) @ t ! i"
  using assms
proof (induction as arbitrary: t)
  case (Cons a as)
  {
    case 1
    then show ?case using Cons.IH(1) [of "link a t"] by (simp add: link_def Let_def)
  next
    case 2
    then show ?case using Cons.IH(2) [of "link a t"]
      by (auto simp: link_def Let_def nth_list_update)
  }
qed simp_all

lemma find_rev_filter:
  assumes "\<And>a. a \<in> set as \<Longrightarrow> P a \<Longrightarrow> B a"
  shows "find P (rev (filter B as)) = find P (rev as)"
proof -
  have "find P (filter B xs) = find P xs" if "\<And>a. a \<in> set xs \<Longrightarrow> P a \<Longrightarrow> B a" for xs
    using that by (induction xs) auto
  from this [of "rev as"] show ?thesis using assms by (simp add: rev_filter)
qed

lemma nearest_bigger_ge: "i \<le> nearest_bigger i"
proof (induction i rule: nearest_bigger.induct)
  case (1 i)
  then show ?case by (subst nearest_bigger.simps) auto
qed

lemma hashsizes_ge: "i \<le> hashsizes i"
proof -
  have "i \<le> (i + i div 2) OR 1"
    unfolding or_one_eq by simp
  then show ?thesis using nearest_bigger_ge [of i] by (simp add: hashsizes_def)
qed

lemma find_name_eq:
  assumes "lo_bytes lo" "names_ok ds" "0 \<notin> set name" "ds \<noteq> []" "OnInitFirstObject lo ds = Inr t"
  shows "find_name lo t name =
    (if length name < 512
     then Inr (case find (\<lambda>a. assoc_key a = map (low lo) name) (rev (entries lo ds)) of
                 None \<Rightarrow> -1 | Some a \<Rightarrow> assoc_value a)
     else Inl OobWrite)"
proof -
  let ?k = "map (low lo) name" and ?n = "hashsizes (length ds * 2)" and ?as = "entries lo ds"
  have n: "0 < ?n" using hashsizes_ge [of "length ds * 2"] assms(4) by (cases ds) auto
  have t: "t = fold link ?as (replicate ?n [])"
    using assms(5) by (simp add: OnInitFirstObject_def AddNames_eq assms)
  have len: "length t = ?n" using fold_link_names(1) [of "replicate ?n []" ?as] n t by simp
  let ?i = "bucket (raw_hash ?k) ?n"
  have i: "?i < ?n" using n by (simp add: bucket_def)
  have ch: "t ! ?i = rev (filter (\<lambda>a. bucket (nHashValue a) ?n = ?i) ?as)"
    using fold_link_names(2) [of "replicate ?n []" ?i ?as] n i by (simp add: t)
  have h: "\<forall>a \<in> set ?as. hashed raw_hash a" using assms by (intro entries_hashed)
  then have "find (\<lambda>a. assoc_key a = ?k) (t ! ?i) = find (\<lambda>a. assoc_key a = ?k) (rev ?as)"
    unfolding ch by (intro find_rev_filter) (auto simp: hashed_def)
  moreover have "\<forall>a \<in> set (t ! ?i). hashed raw_hash a" unfolding ch using h by simp
  then have "chain_find compareLL (raw_hash ?k) ?k (t ! ?i) = Inr (find (\<lambda>a. assoc_key a = ?k) (t ! ?i))"
    by (rule ll.chain_find_eq [OF _ zero_map_low [OF assms(1,3)]])
  ultimately have "chain_find compareLL (raw_hash ?k) ?k (t ! ?i) = Inr (find (\<lambda>a. assoc_key a = ?k) (rev ?as))"
    by (simp only:)
  then show ?thesis
    by (cases "length name < 512")
      (simp_all only: find_name_def name_hash_eq [OF assms(1,3)] len raw_hash_def [symmetric]
         if_True if_False bindE_simps prod.case)
qed


section \<open>All searches agree\<close>

definition matches :: "lotable \<Rightarrow> bytes \<Rightarrow> 'z decl_scheme \<Rightarrow> bool" where
  "matches lo name M \<longleftrightarrow>
     map (low lo) (GetRusName M) = map (low lo) name \<or> map (low lo) (GetEngName M) = map (low lo) name"

text \<open>The number of the declaration with a name, by a linear search in the order of declaration.\<close>

fun first_match :: "('a \<Rightarrow> bool) \<Rightarrow> 'a list \<Rightarrow> nat \<Rightarrow> int" where
  "first_match P [] i = -1"
| "first_match P (M # Ms) i = (if P M then int i else first_match P Ms (i + 1))"

text \<open>No name stands for two declarations.\<close>

fun unambiguous :: "lotable \<Rightarrow> ('z decl_scheme) list \<Rightarrow> bool" where
  "unambiguous lo [] = True"
| "unambiguous lo (M # prev) \<longleftrightarrow>
     (\<forall>N \<in> set prev. \<not> matches lo (GetRusName M) N \<and> \<not> matches lo (GetEngName M) N) \<and> unambiguous lo prev"

fun last_match :: "('a \<Rightarrow> bool) \<Rightarrow> 'a list \<Rightarrow> int" where
  "last_match P [] = -1"
| "last_match P (M # prev) = (if P M then int (length prev) else last_match P prev)"

lemma first_match_append:
  "first_match P (xs @ ys) i = (if \<exists>x \<in> set xs. P x then first_match P xs i else first_match P ys (i + length xs))"
  by (induction xs arbitrary: i) auto

lemma last_match_None: "(\<forall>x \<in> set xs. \<not> P x) \<Longrightarrow> last_match P xs = -1"
  by (induction xs) auto

lemma first_match_None: "(\<forall>x \<in> set xs. \<not> P x) \<Longrightarrow> first_match P xs i = -1"
  by (induction xs arbitrary: i) auto

lemma unambiguous_ConsD:
  assumes "unambiguous lo (M # prev)" "matches lo name M"
  shows "\<forall>N \<in> set prev. \<not> matches lo name N"
  using assms by (auto simp: matches_def)

lemma last_match_eq_first:
  "unambiguous lo ds \<Longrightarrow> last_match (matches lo name) ds = first_match (matches lo name) (rev ds) 0"
proof (induction ds)
  case (Cons M prev)
  show ?case
  proof (cases "matches lo name M")
    case True
    with unambiguous_ConsD [OF Cons.prems True] show ?thesis by (simp add: first_match_append)
  next
    case False
    with Cons show ?thesis
      by (auto simp: first_match_append first_match_None)
  qed
qed simp

lemma simple_find_eq:
  assumes "lo_bytes lo" "0 \<notin> set name"
  shows "names_ok ds \<Longrightarrow> simple_find lo (map (low lo) name) ds = Inr (last_match (matches lo name) ds)"
  by (induction ds) (auto simp: compareLU_eq assms matches_def)

lemma entries_find:
  "(case find (\<lambda>a. assoc_key a = map (low lo) name) (rev (entries lo ds)) of
      None \<Rightarrow> -1 | Some a \<Rightarrow> assoc_value a) = first_match (matches lo name) (rev ds) 0 \<and>
   (find (\<lambda>a. assoc_key a = map (low lo) name) (rev (entries lo ds)) = None \<longleftrightarrow>
      (\<forall>M \<in> set ds. \<not> matches lo name M))"
  (is "?P ds")
proof (induction ds)
  case (Cons M prev)
  show ?case
  proof (cases "find (\<lambda>a. assoc_key a = map (low lo) name) (rev (entries lo prev))")
    case None
    with Cons have n: "\<forall>M \<in> set prev. \<not> matches lo name M" by simp
    with None show ?thesis
      by (auto simp: find_append first_match_append name_assoc_def matches_def)
  next
    case (Some a)
    with Cons have "\<exists>M \<in> set prev. matches lo name M" by simp
    with Some Cons show ?thesis by (auto simp: find_append first_match_append)
  qed
qed simp

lemma Find_eq:
  assumes "lo_bytes lo" "names_ok ds" "unambiguous lo ds" "0 \<notin> set name" "length name < 512"
  shows "Find lo ds (Some name) = Inr (first_match (matches lo name) (rev ds) 0)"
proof -
  consider "ds = []" | M where "ds = [M]" | "1 < length ds" "length ds < 4" | "4 \<le> length ds"
    by (cases ds; cases "tl ds") force+
  then show ?thesis
  proof cases
    case 1
    then show ?thesis by (simp add: Find_def)
  next
    case 2
    with assms show ?thesis by (auto simp: Find_def onefnd_def compareUU_eq matches_def)
  next
    case 3
    with assms show ?thesis
      by (auto simp: Find_def simplefnd_def makelower_eq simple_find_eq last_match_eq_first simp del: makelower.simps)
  next
    case 4
    let ?t = "fold link (entries lo ds) (replicate (hashsizes (length ds * 2)) [])"
    have t: "OnInitFirstObject lo ds = Inr ?t" by (simp add: OnInitFirstObject_def AddNames_eq assms)
    moreover from 4 have "ds \<noteq> []" by auto
    ultimately have "find_name lo ?t name = Inr (first_match (matches lo name) (rev ds) 0)"
      using find_name_eq [OF assms(1,2,4) _ t] assms(5) entries_find [of lo name ds] by simp
    with 4 t show ?thesis by (simp add: Find_def)
  qed
qed

lemma Find_overflow_eq:
  assumes "lo_bytes lo" "names_ok ds" "0 \<notin> set name" "512 \<le> length name" "2 \<le> length ds"
  shows "Find lo ds (Some name) = Inl OobWrite"
proof (cases "length ds < 4")
  case True
  with assms show ?thesis
    by (auto simp: Find_def simplefnd_def makelower_eq simp del: makelower.simps)
next
  case False
  let ?t = "fold link (entries lo ds) (replicate (hashsizes (length ds * 2)) [])"
  have t: "OnInitFirstObject lo ds = Inr ?t" by (simp add: OnInitFirstObject_def AddNames_eq assms)
  from False have "ds \<noteq> []" by auto
  then have "find_name lo ?t name = Inl OobWrite"
    using find_name_eq [OF assms(1,2,3) _ t] assms(4) by simp
  with False t \<open>ds \<noteq> []\<close> show ?thesis by (simp add: Find_def)
qed


section \<open>Names and calls by number\<close>

lemma fill_names_eq:
  "length ds \<le> length names \<Longrightarrow>
     fill_names ds names = map (\<lambda>M. (GetEngName M, GetRusName M)) (rev ds) @ drop (length ds) names"
proof (induction ds arbitrary: names)
  case (Cons M prev)
  then have n: "length prev < length names" by simp
  have "fill_names (M # prev) names =
    map (\<lambda>M. (GetEngName M, GetRusName M)) (rev prev) @
    drop (length prev) (names[length prev := (GetEngName M, GetRusName M)])"
    using Cons by simp
  also have "drop (length prev) (names[length prev := (GetEngName M, GetRusName M)]) =
    (GetEngName M, GetRusName M) # drop (Suc (length prev)) names"
    using n by (simp add: list_update_append drop_update_swap flip: Cons_nth_drop_Suc)
  finally show ?case by simp
qed simp

lemma GetName_by_eq:
  assumes "length ds \<le> length junk" "unat m < length ds" "l < 2"
  shows "GetName_by ds junk m l =
    Some (if l = 0 then GetEngName (rev ds ! unat m) else GetRusName (rev ds ! unat m))"
  using assms by (simp add: GetName_by_def fill_names_eq)

lemma rev_Cons_nth:
  "d < length (M # prev) \<Longrightarrow> rev (M # prev) ! d = (if d = length prev then M else rev prev ! d)"
  by (auto simp: nth_append)

lemma first_match_nth:
  assumes "i < length xs" "P (xs ! i)" "\<And>j. j < length xs \<Longrightarrow> P (xs ! j) \<Longrightarrow> j = i"
  shows "first_match P xs k = int (k + i)"
  using assms
proof (induction xs arbitrary: i k)
  case (Cons x xs)
  show ?case
  proof (cases i)
    case 0
    with Cons.prems show ?thesis by simp
  next
    case (Suc i')
    have "\<not> P x" using Cons.prems(3) [of 0] Suc by auto
    moreover have "first_match P xs (k + 1) = int (k + 1 + i')"
    proof (rule Cons.IH)
      show "j = i'" if "j < length xs" "P (xs ! j)" for j
        using Cons.prems(3) [of "Suc j"] that Suc by simp
    qed (use Cons.prems Suc in simp_all)
    ultimately show ?thesis using Suc by simp
  qed
qed simp

lemma unambiguous_nth:
  "\<lbrakk>unambiguous lo ds; i < length ds; j < length ds; matches lo name (rev ds ! i); matches lo name (rev ds ! j)\<rbrakk>
     \<Longrightarrow> j = i"
proof (induction ds)
  case (Cons M prev)
  show ?case
  proof (cases "matches lo name M")
    case True
    from unambiguous_ConsD [OF Cons.prems(1) True] have n: "\<And>k. k < length prev \<Longrightarrow> \<not> matches lo name (rev prev ! k)"
      by (metis length_rev nth_mem set_rev)
    have "k = length prev" if "k < length (M # prev)" "matches lo name (rev (M # prev) ! k)" for k
      using that n [of k] by (auto simp: rev_Cons_nth simp del: rev.simps split: if_splits)
    with Cons.prems show ?thesis by metis
  next
    case False
    have "k < length prev \<and> matches lo name (rev prev ! k)"
      if "k < length (M # prev)" "matches lo name (rev (M # prev) ! k)" for k
      using that False by (auto simp: rev_Cons_nth simp del: rev.simps split: if_splits)
    with Cons show ?thesis by simp
  qed
qed simp

text \<open>The recursions over the chain are a choice by number.\<close>

lemma flag_min_eq: "flag_min f ds d \<longleftrightarrow> d < length ds \<and> f (rev ds ! d)"
  by (induction ds) (auto simp: nth_append less_Suc_eq)

lemma flag_max_eq: "flag_max f ds d \<longleftrightarrow> (d < length ds \<longrightarrow> f (rev ds ! d))"
  by (induction ds) (auto simp: nth_append less_Suc_eq)

lemma nparams_loop_eq: "d < length ds \<Longrightarrow> nparams_loop ds d = int (nParam (rev ds ! d))"
  by (induction ds) (auto simp: nth_append less_Suc_eq)

lemma some_np_loop_eq:
  "some_np_loop ds \<noteq> -1 \<Longrightarrow> \<forall>M \<in> set ds. int (nParam M) = some_np_loop ds"
  by (induction ds rule: some_np_loop.induct) (auto split: if_splits)

lemma GetNParams_eq: "d < length ds \<Longrightarrow> GetNParams ds d = int (nParam (rev ds ! d))"
  using some_np_loop_eq [of ds] nth_mem [of d "rev ds"]
  by (auto simp: GetNParams_def nparams_loop_eq)

lemma CallAsFunc_eq:
  "CallAsFunc ds s d p = (if d < length ds \<and> IsFunc (rev ds ! d) then call (rev ds ! d) s p else Inr (False, s))"
  by (induction ds) (auto simp: nth_append less_Suc_eq)

lemma CallAsProc_eq:
  "CallAsProc ds s d p = (if d < length ds \<and> \<not> IsFunc (rev ds ! d) then call (rev ds ! d) s p else Inr (False, s))"
  by (induction ds) (auto simp: nth_append less_Suc_eq)

lemma ReadProp_eq:
  "ReadProp ds s d v = (if d < length ds \<and> IsRead (rev ds ! d) then read_prop (rev ds ! d) s else Inr (False, v))"
  by (induction ds) (auto simp: nth_append less_Suc_eq)

lemma WriteProp_eq:
  "WriteProp ds s d v = (if d < length ds \<and> IsWrite (rev ds ! d) then write_prop (rev ds ! d) s v else Inr (False, s))"
  by (induction ds) (auto simp: nth_append less_Suc_eq)

lemma GetDefVal_eq:
  "GetDefVal ds d p \<longleftrightarrow>
     d < length ds \<and> IsDefVal (rev ds ! d) \<and> p < nParam (rev ds ! d) \<and> DefVal (rev ds ! d) p"
  by (induction ds) (auto simp: nth_append less_Suc_eq)

lemma lo_bytes_ascii: "lo_bytes ascii_lower"
proof -
  have "ascii_lower c < 256 \<and> ascii_lower (ucast (ascii_lower c)) = ascii_lower c" for c
  proof (cases "0x41 \<le> c \<and> c \<le> 0x5A")
    case True
    then have "unat (c + 0x20) = unat c + 32" by (simp add: unat_byte_add word_le_nat_alt)
    with True have "\<not> c + 0x20 \<le> 0x5A" by (simp add: word_le_nat_alt)
    with True show ?thesis by (simp add: ascii_lower_def ucast_u32_less ucast_ucast_byte)
  next
    case False
    then show ?thesis by (auto simp: ascii_lower_def ucast_u32_less ucast_ucast_byte)
  qed
  with lo_table_ascii show ?thesis by (simp add: lo_bytes_def)
qed

text \<open>To check a concrete list, all names are brought to lower case once.\<close>

fun apart :: "(bytes \<times> bytes) list \<Rightarrow> bool" where
  "apart [] = True"
| "apart ((r, e) # ps) \<longleftrightarrow> list_all (\<lambda>(r', e'). r \<noteq> r' \<and> r \<noteq> e' \<and> e \<noteq> r' \<and> e \<noteq> e') ps \<and> apart ps"

lemma unambiguous_apart:
  "unambiguous lo ds = apart (map (\<lambda>M. (map (low lo) (GetRusName M), map (low lo) (GetEngName M))) ds)"
  by (induction ds) (auto simp: matches_def list_all_iff)

lemma CcURL_meths_ok: "names_ok CcURL_meths" "unambiguous ascii_lower CcURL_meths"
  unfolding unambiguous_apart by code_simp+

lemma CcURL_props_ok: "names_ok CcURL_props" "unambiguous ascii_lower CcURL_props"
  unfolding unambiguous_apart by code_simp+

section \<open>Properties\<close>

text \<open>
  C11: whatever search the number of declarations selects, one comparison, a linear search
  over a lower-case copy, or a hash table, it finds the number of the declaration that has the
  name in one of the two languages, without regard to case, and \<open>-1\<close> when there is none.
\<close>

theorem Find_correct:
  assumes "lo_bytes lo" "names_ok ds" "unambiguous lo ds" "0 \<notin> set name" "length name < 512"
  shows "Find lo ds (Some name) = Inr (first_match (matches lo name) (rev ds) 0)"
  using assms by (rule Find_eq)

theorem Find_correct_witness:
  "Find ascii_lower CcURL_meths (Some (bytes_of ''EASY_Perform'')) = Inr 5"
proof -
  have "Find ascii_lower CcURL_meths (Some (bytes_of ''EASY_Perform'')) =
    Inr (first_match (matches ascii_lower (bytes_of ''EASY_Perform'')) (rev CcURL_meths) 0)"
    by (rule Find_correct [OF lo_bytes_ascii CcURL_meths_ok]) (simp_all add: bytes_of_def)
  also have "first_match (matches ascii_lower (bytes_of ''EASY_Perform'')) (rev CcURL_meths) 0 = 5"
    by code_simp
  finally show ?thesis .
qed

text \<open>
  C21: a name that the object reports for a method number, in either language, is found again
  and leads to that number.
\<close>

theorem Find_GetName:
  assumes "lo_bytes lo" "names_ok ds" "unambiguous lo ds" "length ds \<le> length junk"
    and "GetName_by ds junk m l = Some name" "length name < 512"
  shows "Find lo ds (Some name) = Inr (int (unat m))"
proof -
  from assms(5) have m: "unat m < length ds" and l: "l < 2" by (auto simp: GetName_by_def split: if_splits)
  then have name: "name = (if l = 0 then GetEngName (rev ds ! unat m) else GetRusName (rev ds ! unat m))"
    using GetName_by_eq [OF assms(4)] assms(5) by simp
  then have "matches lo name (rev ds ! unat m)" by (auto simp: matches_def)
  moreover have "rev ds ! unat m \<in> set ds" using m by (metis length_rev nth_mem set_rev)
  then have "0 \<notin> set name" using assms(2) name by (auto simp: names_ok_def)
  moreover have "first_match (matches lo name) (rev ds) 0 = int (0 + unat m)"
  proof (rule first_match_nth)
    show "j = unat m" if "j < length (rev ds)" "matches lo name (rev ds ! j)" for j
      using unambiguous_nth [OF assms(3) m _ _ that(2)] that(1) calculation by simp
  qed (use m calculation in simp_all)
  ultimately show ?thesis using Find_eq [OF assms(1-3) _ assms(6)] by simp
qed

theorem Find_GetName_witness:
  "Find ascii_lower CcURL_meths
     (Some [0xC2, 0xFB, 0xEF, 0xEE, 0xEB, 0xED, 0xE8, 0xF2, 0xFC]) = Inr 5"
proof -
  have "GetName_by CcURL_meths (replicate 21 ([], [])) 5 1 =
    Some [0xC2, 0xFB, 0xEF, 0xEE, 0xEB, 0xED, 0xE8, 0xF2, 0xFC]"
    by code_simp
  from Find_GetName [OF lo_bytes_ascii CcURL_meths_ok _ this] show ?thesis
    by (simp add: CcURL_meths_def)
qed

text \<open>
  C22: a class with two or more methods copies the name it is asked for into an array of 512
  bytes on the stack without looking at its length; every name of 512 bytes or more is
  written past the end of the array.
\<close>

theorem Find_overflow:
  assumes "lo_bytes lo" "names_ok ds" "0 \<notin> set name" "512 \<le> length name" "2 \<le> length ds"
  shows "Find lo ds (Some name) = Inl OobWrite"
  using assms by (rule Find_overflow_eq)

theorem Find_overflow_witness:
  "Find ascii_lower CcURL_props (Some (replicate 600 0x41)) = Inl OobWrite"
  by (rule Find_overflow [OF lo_bytes_ascii CcURL_props_ok(1)]) (simp_all add: CcURL_props_def)

text \<open>
  C23: the answers by number are those of the declaration with that number: the number of
  parameters, whether there is a result, and the flags of a property; a call runs exactly the
  handler of that number, only through the entry for its kind, and otherwise fails and leaves
  the object as it is.
\<close>

theorem dispatch_correct:
  assumes "d < length ms" "e < length ps"
  shows "GetNParams ms d = int (nParam (rev ms ! d)) \<and> HasRetVal ms d = IsFunc (rev ms ! d) \<and>
    IsPropReadable ps e = IsRead (rev ps ! e) \<and> IsPropWritable ps e = IsWrite (rev ps ! e) \<and>
    CallAsFunc ms s d p = (if IsFunc (rev ms ! d) then call (rev ms ! d) s p else Inr (False, s)) \<and>
    CallAsProc ms s d p = (if IsFunc (rev ms ! d) then Inr (False, s) else call (rev ms ! d) s p) \<and>
    ReadProp ps r e v = (if IsRead (rev ps ! e) then read_prop (rev ps ! e) r else Inr (False, v)) \<and>
    WriteProp ps r e v = (if IsWrite (rev ps ! e) then write_prop (rev ps ! e) r v else Inr (False, r))"
  using assms
  by (simp add: GetNParams_eq HasRetVal_def IsPropReadable_def IsPropWritable_def flag_min_eq flag_max_eq
      CallAsFunc_eq CallAsProc_eq ReadProp_eq WriteProp_eq Let_def)

theorem dispatch_correct_witness:
  "GetNParams [Trace_decl] 0 = 1 \<and> HasRetVal [Trace_decl] 0 \<and>
   CallAsFunc [Trace_decl] False 0 7 = Inr (True, True) \<and>
   CallAsProc [Trace_decl] False 0 7 = Inr (False, False) \<and>
   ReadProp [Dest_decl, Source_decl] (3 :: nat, 4) 0 9 = Inr (True, 3) \<and>
   WriteProp [Dest_decl, Source_decl] (3 :: nat, 4) 0 9 = Inr (False, 3, 4)"
  using dispatch_correct [of 0 "[Trace_decl]" 0 "[Dest_decl, Source_decl]" False 7 "(3 :: nat, 4)" 9]
  by (simp add: Trace_decl_def Dest_decl_def Source_decl_def)

end
