(* ===== verification/Curl_Strcase.thy ===== *)
theory Curl_Strcase
imports Prelude
begin

text \<open>
  Comparison of strings without regard to the case of ASCII letters, from
  \<open>curl-8.6.0/lib/strcase.c\<close>. A null pointer is \<open>None\<close>.
\<close>

definition touppermap :: "byte list" where
  "touppermap =
    [0, 1, 2, 3, 4, 5, 6, 7, 8, 9, 10, 11, 12, 13, 14, 15, 16, 17, 18, 19, 20, 21, 22, 23, 24, 25,
     26, 27, 28, 29, 30, 31, 32, 33, 34, 35, 36, 37, 38, 39, 40, 41, 42, 43, 44, 45, 46, 47, 48,
     49, 50, 51, 52, 53, 54, 55, 56, 57, 58, 59, 60, 61, 62, 63, 64, 65, 66, 67, 68, 69, 70, 71,
     72, 73, 74, 75, 76, 77, 78, 79, 80, 81, 82, 83, 84, 85, 86, 87, 88, 89, 90, 91, 92, 93, 94,
     95, 96, 65, 66, 67, 68, 69, 70, 71, 72, 73, 74, 75, 76, 77, 78, 79, 80, 81, 82, 83, 84, 85,
     86, 87, 88, 89, 90, 123, 124, 125, 126, 127, 128, 129, 130, 131, 132, 133, 134, 135, 136,
     137, 138, 139, 140, 141, 142, 143, 144, 145, 146, 147, 148, 149, 150, 151, 152, 153, 154,
     155, 156, 157, 158, 159, 160, 161, 162, 163, 164, 165, 166, 167, 168, 169, 170, 171, 172,
     173, 174, 175, 176, 177, 178, 179, 180, 181, 182, 183, 184, 185, 186, 187, 188, 189, 190,
     191, 192, 193, 194, 195, 196, 197, 198, 199, 200, 201, 202, 203, 204, 205, 206, 207, 208,
     209, 210, 211, 212, 213, 214, 215, 216, 217, 218, 219, 220, 221, 222, 223, 224, 225, 226,
     227, 228, 229, 230, 231, 232, 233, 234, 235, 236, 237, 238, 239, 240, 241, 242, 243, 244,
     245, 246, 247, 248, 249, 250, 251, 252, 253, 254, 255]"

definition tolowermap :: "byte list" where
  "tolowermap =
    [0, 1, 2, 3, 4, 5, 6, 7, 8, 9, 10, 11, 12, 13, 14, 15, 16, 17, 18, 19, 20, 21, 22, 23, 24, 25,
     26, 27, 28, 29, 30, 31, 32, 33, 34, 35, 36, 37, 38, 39, 40, 41, 42, 43, 44, 45, 46, 47, 48,
     49, 50, 51, 52, 53, 54, 55, 56, 57, 58, 59, 60, 61, 62, 63, 64, 97, 98, 99, 100, 101, 102,
     103, 104, 105, 106, 107, 108, 109, 110, 111, 112, 113, 114, 115, 116, 117, 118, 119, 120,
     121, 122, 91, 92, 93, 94, 95, 96, 97, 98, 99, 100, 101, 102, 103, 104, 105, 106, 107, 108,
     109, 110, 111, 112, 113, 114, 115, 116, 117, 118, 119, 120, 121, 122, 123, 124, 125, 126,
     127, 128, 129, 130, 131, 132, 133, 134, 135, 136, 137, 138, 139, 140, 141, 142, 143, 144,
     145, 146, 147, 148, 149, 150, 151, 152, 153, 154, 155, 156, 157, 158, 159, 160, 161, 162,
     163, 164, 165, 166, 167, 168, 169, 170, 171, 172, 173, 174, 175, 176, 177, 178, 179, 180,
     181, 182, 183, 184, 185, 186, 187, 188, 189, 190, 191, 192, 193, 194, 195, 196, 197, 198,
     199, 200, 201, 202, 203, 204, 205, 206, 207, 208, 209, 210, 211, 212, 213, 214, 215, 216,
     217, 218, 219, 220, 221, 222, 223, 224, 225, 226, 227, 228, 229, 230, 231, 232, 233, 234,
     235, 236, 237, 238, 239, 240, 241, 242, 243, 244, 245, 246, 247, 248, 249, 250, 251, 252,
     253, 254, 255]"

definition Curl_raw_toupper :: "byte \<Rightarrow> byte" where
  "Curl_raw_toupper c = touppermap ! unat c"

definition Curl_raw_tolower :: "byte \<Rightarrow> byte" where
  "Curl_raw_tolower c = tolowermap ! unat c"

fun casecompare :: "bytes \<Rightarrow> bytes \<Rightarrow> bool" where
  "casecompare (a # first) (b # second) =
     (if a \<noteq> 0 \<and> b \<noteq> 0
      then if Curl_raw_toupper a \<noteq> Curl_raw_toupper b then False else casecompare first second
      else (a = 0) = (b = 0))"
| "casecompare first second = ((symbol first = 0) = (symbol second = 0))"

definition curl_strequal :: "bytes option \<Rightarrow> bytes option \<Rightarrow> bool" where
  "curl_strequal first second =
     (case (first, second) of
        (Some f, Some s) \<Rightarrow> casecompare f s
      | _ \<Rightarrow> first = None \<and> second = None)"

fun ncasecompare :: "bytes \<Rightarrow> bytes \<Rightarrow> nat \<Rightarrow> bool" where
  "ncasecompare (a # first) (b # second) m =
     (if a \<noteq> 0 \<and> b \<noteq> 0 \<and> m \<noteq> 0
      then if Curl_raw_toupper a \<noteq> Curl_raw_toupper b then False else ncasecompare first second (m - 1)
      else m = 0 \<or> Curl_raw_toupper a = Curl_raw_toupper b)"
| "ncasecompare first second m =
     (m = 0 \<or> Curl_raw_toupper (symbol first) = Curl_raw_toupper (symbol second))"

definition curl_strnequal :: "bytes option \<Rightarrow> bytes option \<Rightarrow> nat \<Rightarrow> bool" where
  "curl_strnequal first second m =
     (case (first, second) of
        (Some f, Some s) \<Rightarrow> ncasecompare f s m
      | _ \<Rightarrow> first = None \<and> second = None \<and> m \<noteq> 0)"

text \<open>The bytes that the two copying functions write, the terminator included when it is reached.\<close>

fun copy_chars :: "(byte \<Rightarrow> byte) \<Rightarrow> bytes \<Rightarrow> nat \<Rightarrow> bytes" where
  "copy_chars f src 0 = []"
| "copy_chars f src (Suc n) =
     f (symbol src) # (case src of [] \<Rightarrow> [] | c # s \<Rightarrow> if c = 0 then [] else copy_chars f s n)"

definition Curl_strntoupper :: "bytes \<Rightarrow> nat \<Rightarrow> bytes" where
  "Curl_strntoupper src n = (if n < 1 then [] else copy_chars Curl_raw_toupper src n)"

definition Curl_strntolower :: "bytes \<Rightarrow> nat \<Rightarrow> bytes" where
  "Curl_strntolower src n = (if n < 1 then [] else copy_chars Curl_raw_tolower src n)"

definition Curl_safecmp :: "bytes option \<Rightarrow> bytes option \<Rightarrow> bool" where
  "Curl_safecmp a b =
     (case (a, b) of
        (Some x, Some y) \<Rightarrow> c_str x = c_str y
      | _ \<Rightarrow> a = None \<and> b = None)"

text \<open>The characters are promoted to \<open>int\<close> before they are combined.\<close>

fun timestrcmp_loop :: "bytes \<Rightarrow> bytes \<Rightarrow> u32 \<Rightarrow> u32" where
  "timestrcmp_loop (x # a) (y # b) m =
     (let m' = m OR (scast x XOR scast y) in
      if x = 0 \<or> y = 0 then m' else timestrcmp_loop a b m')"
| "timestrcmp_loop a b m = m OR (scast (symbol a) XOR scast (symbol b))"

definition Curl_timestrcmp :: "bytes option \<Rightarrow> bytes option \<Rightarrow> u32" where
  "Curl_timestrcmp a b =
     (case (a, b) of
        (Some x, Some y) \<Rightarrow> timestrcmp_loop x y 0
      | _ \<Rightarrow> of_bool (a \<noteq> None \<or> b \<noteq> None))"

section \<open>What they compute\<close>

lemma touppermap_eq: "touppermap = map word_of_nat ([0..<97] @ [65..<91] @ [123..<256])"
  by (simp add: touppermap_def upt_conv_Cons)

lemma tolowermap_eq: "tolowermap = map word_of_nat ([0..<65] @ [97..<123] @ [91..<256])"
  by (simp add: tolowermap_def upt_conv_Cons)

text \<open>A table in which only the range from \<open>a\<close> to below \<open>d\<close> is moved to \<open>b\<close>.\<close>

lemma moved_range:
  assumes "t = map f ([0..<a] @ [b..<b'] @ [d..<e])" "b' = b + (d - a)" "a \<le> d" "n < e"
  shows "t ! n = f (if n < a then n else if n < d then b + (n - a) else n)"
  using assms(2-4) unfolding assms(1) by (auto simp: nth_append)

lemma Curl_raw_toupper_eq: "Curl_raw_toupper c = (if 0x61 \<le> c \<and> c \<le> 0x7A then c - 0x20 else c)"
proof -
  have "Curl_raw_toupper c = word_of_nat (if unat c < 97 then unat c else if unat c < 123 then 65 + (unat c - 97) else unat c)"
    unfolding Curl_raw_toupper_def by (rule moved_range [OF touppermap_eq]) simp_all
  moreover have "65 + (unat c - 97) = unat c - 32" if "97 \<le> unat c" using that by simp
  ultimately show ?thesis by (auto simp: word_le_nat_alt)
qed

lemma Curl_raw_tolower_eq: "Curl_raw_tolower c = (if 0x41 \<le> c \<and> c \<le> 0x5A then c + 0x20 else c)"
proof -
  have "Curl_raw_tolower c = word_of_nat (if unat c < 65 then unat c else if unat c < 91 then 97 + (unat c - 65) else unat c)"
    unfolding Curl_raw_tolower_def by (rule moved_range [OF tolowermap_eq]) simp_all
  moreover have "97 + (unat c - 65) = unat c + 32" if "65 \<le> unat c" using that by simp
  ultimately show ?thesis by (auto simp: word_le_nat_alt)
qed

lemma Curl_raw_toupper_0 [simp]: "Curl_raw_toupper c = 0 \<longleftrightarrow> c = 0"
proof (cases "0x61 \<le> c \<and> c \<le> 0x7A")
  case True
  then have "c \<noteq> 0x20" "c \<noteq> 0" by auto
  with True show ?thesis by (simp add: Curl_raw_toupper_eq)
qed (auto simp: Curl_raw_toupper_eq)

lemma upper_zero [simp]: "Curl_raw_toupper 0 = 0" by simp

lemma symbol_0: "symbol s = 0 \<longleftrightarrow> c_str s = []"
  by (cases s) auto

lemma casecompare_eq:
  "casecompare a b \<longleftrightarrow> map Curl_raw_toupper (c_str a) = map Curl_raw_toupper (c_str b)"
  by (induction a b rule: casecompare.induct) (auto simp: symbol_0)

lemma ncasecompare_eq:
  "ncasecompare a b m \<longleftrightarrow>
     take m (map Curl_raw_toupper (c_str a)) = take m (map Curl_raw_toupper (c_str b))"
proof (induction a b m rule: ncasecompare.induct)
  case (1 a first b second m)
  then show ?case by (cases m) auto
qed (auto simp: symbol_0 eq_commute [of 0])

lemma scast_byte_eq [simp]: "(scast (x :: byte) :: u32) = scast y \<longleftrightarrow> x = y"
proof
  assume "(scast x :: u32) = scast y"
  then have "(ucast (scast x :: u32) :: byte) = ucast (scast y :: u32)" by simp
  moreover have "(ucast (scast z :: u32) :: byte) = z" for z :: byte
    by (rule bit_word_eqI) (auto simp: bit_simps min_def less_8_cases)
  ultimately show "x = y" by simp
qed simp

lemma xor_0_iff: "(a XOR b :: u32) = 0 \<longleftrightarrow> a = b"
  by (auto simp: bit_eq_iff bit_simps)

lemma scast_byte_0 [simp]: "(scast (x :: byte) :: u32) = 0 \<longleftrightarrow> x = 0"
  using scast_byte_eq [of x 0] by simp

lemma timestrcmp_loop_eq: "timestrcmp_loop a b m = 0 \<longleftrightarrow> m = 0 \<and> c_str a = c_str b"
proof (induction a b m rule: timestrcmp_loop.induct)
  case (1 x a y b m)
  then show ?case by (auto simp: Let_def or_eq_0_iff xor_0_iff)
qed (auto simp: or_eq_0_iff xor_0_iff symbol_0 eq_commute [of 0])

lemma copy_chars_eq: "f 0 = 0 \<Longrightarrow> copy_chars f src n = take n (map f (c_str src) @ [0])"
  by (induction f src n rule: copy_chars.induct) (auto split: list.splits)

section \<open>Properties\<close>

text \<open>
  C31: the case-insensitive comparisons are equality of the strings in upper case, of the whole
  strings or of their first \<open>m\<close> characters, a null pointer is equal to a null pointer only, and
  the comparison in constant time returns zero exactly for identical strings.
\<close>

theorem strequal_correct:
  "(curl_strequal a b \<longleftrightarrow>
      map_option (\<lambda>s. map Curl_raw_toupper (c_str s)) a = map_option (\<lambda>s. map Curl_raw_toupper (c_str s)) b) \<and>
   (curl_strnequal (Some x) (Some y) m \<longleftrightarrow>
      take m (map Curl_raw_toupper (c_str x)) = take m (map Curl_raw_toupper (c_str y))) \<and>
   (Curl_timestrcmp a b = 0 \<longleftrightarrow> Curl_safecmp a b) \<and>
   (Curl_safecmp a b \<longleftrightarrow> map_option c_str a = map_option c_str b)"
  by (cases a; cases b)
    (simp_all add: curl_strequal_def curl_strnequal_def casecompare_eq ncasecompare_eq Curl_timestrcmp_def
      Curl_safecmp_def timestrcmp_loop_eq)

end
