(* ===== verification/Option_Tables.thy ===== *)
theory Option_Tables
imports Curl_Strcase
begin

text \<open>
  The tables of options by name: the one of the component (\<open>curl1c/Common.h\<close>) and
  libcurl's own (\<open>curl-8.6.0/lib/easyoptions.c\<close>). An option is the number that
  \<open>include/curl/curl.h\<close> gives it: the base of its type plus its own number. Both tables end with an
  entry that has no name.
\<close>

datatype curl_easytype =
    CURLOT_LONG | CURLOT_VALUES | CURLOT_OFF_T | CURLOT_OBJECT | CURLOT_STRING
  | CURLOT_SLIST | CURLOT_CBPTR | CURLOT_BLOB | CURLOT_FUNCTION

type_synonym CURLoption = nat

record curl_easyoption =
  opt_name :: "bytes option"
  opt_id :: CURLoption
  opt_type :: curl_easytype
  opt_flags :: nat

definition CURLOT_FLAG_ALIAS :: nat where
  "CURLOT_FLAG_ALIAS = 1"

definition CURLOPT_LASTENTRY :: CURLoption where
  "CURLOPT_LASTENTRY = 325"

section \<open>The table of libcurl\<close>

text \<open>The entries of \<open>Curl_easyopts\<close> with a name, in three parts.\<close>

type_synonym easyopt_row = "string \<times> CURLoption \<times> curl_easytype \<times> nat"

definition Curl_easyopts_1 :: "easyopt_row list" where
  "Curl_easyopts_1 =
    [(''ABSTRACT_UNIX_SOCKET'', 10264, CURLOT_STRING, 0),
     (''ACCEPTTIMEOUT_MS'', 212, CURLOT_LONG, 0),
     (''ACCEPT_ENCODING'', 10102, CURLOT_STRING, 0),
     (''ADDRESS_SCOPE'', 171, CURLOT_LONG, 0),
     (''ALTSVC'', 10287, CURLOT_STRING, 0),
     (''ALTSVC_CTRL'', 286, CURLOT_LONG, 0),
     (''APPEND'', 50, CURLOT_LONG, 0),
     (''AUTOREFERER'', 58, CURLOT_LONG, 0),
     (''AWS_SIGV4'', 10305, CURLOT_STRING, 0),
     (''BUFFERSIZE'', 98, CURLOT_LONG, 0),
     (''CAINFO'', 10065, CURLOT_STRING, 0),
     (''CAINFO_BLOB'', 40309, CURLOT_BLOB, 0),
     (''CAPATH'', 10097, CURLOT_STRING, 0),
     (''CA_CACHE_TIMEOUT'', 321, CURLOT_LONG, 0),
     (''CERTINFO'', 172, CURLOT_LONG, 0),
     (''CHUNK_BGN_FUNCTION'', 20198, CURLOT_FUNCTION, 0),
     (''CHUNK_DATA'', 10201, CURLOT_CBPTR, 0),
     (''CHUNK_END_FUNCTION'', 20199, CURLOT_FUNCTION, 0),
     (''CLOSESOCKETDATA'', 10209, CURLOT_CBPTR, 0),
     (''CLOSESOCKETFUNCTION'', 20208, CURLOT_FUNCTION, 0),
     (''CONNECTTIMEOUT'', 78, CURLOT_LONG, 0),
     (''CONNECTTIMEOUT_MS'', 156, CURLOT_LONG, 0),
     (''CONNECT_ONLY'', 141, CURLOT_LONG, 0),
     (''CONNECT_TO'', 10243, CURLOT_SLIST, 0),
     (''CONV_FROM_NETWORK_FUNCTION'', 20142, CURLOT_FUNCTION, 0),
     (''CONV_FROM_UTF8_FUNCTION'', 20144, CURLOT_FUNCTION, 0),
     (''CONV_TO_NETWORK_FUNCTION'', 20143, CURLOT_FUNCTION, 0),
     (''COOKIE'', 10022, CURLOT_STRING, 0),
     (''COOKIEFILE'', 10031, CURLOT_STRING, 0),
     (''COOKIEJAR'', 10082, CURLOT_STRING, 0),
     (''COOKIELIST'', 10135, CURLOT_STRING, 0),
     (''COOKIESESSION'', 96, CURLOT_LONG, 0),
     (''COPYPOSTFIELDS'', 10165, CURLOT_OBJECT, 0),
     (''CRLF'', 27, CURLOT_LONG, 0),
     (''CRLFILE'', 10169, CURLOT_STRING, 0),
     (''CURLU'', 10282, CURLOT_OBJECT, 0),
     (''CUSTOMREQUEST'', 10036, CURLOT_STRING, 0),
     (''DEBUGDATA'', 10095, CURLOT_CBPTR, 0),
     (''DEBUGFUNCTION'', 20094, CURLOT_FUNCTION, 0),
     (''DEFAULT_PROTOCOL'', 10238, CURLOT_STRING, 0),
     (''DIRLISTONLY'', 48, CURLOT_LONG, 0),
     (''DISALLOW_USERNAME_IN_URL'', 278, CURLOT_LONG, 0),
     (''DNS_CACHE_TIMEOUT'', 92, CURLOT_LONG, 0),
     (''DNS_INTERFACE'', 10221, CURLOT_STRING, 0),
     (''DNS_LOCAL_IP4'', 10222, CURLOT_STRING, 0),
     (''DNS_LOCAL_IP6'', 10223, CURLOT_STRING, 0),
     (''DNS_SERVERS'', 10211, CURLOT_STRING, 0),
     (''DNS_SHUFFLE_ADDRESSES'', 275, CURLOT_LONG, 0),
     (''DNS_USE_GLOBAL_CACHE'', 91, CURLOT_LONG, 0),
     (''DOH_SSL_VERIFYHOST'', 307, CURLOT_LONG, 0),
     (''DOH_SSL_VERIFYPEER'', 306, CURLOT_LONG, 0),
     (''DOH_SSL_VERIFYSTATUS'', 308, CURLOT_LONG, 0),
     (''DOH_URL'', 10279, CURLOT_STRING, 0),
     (''EGDSOCKET'', 10077, CURLOT_STRING, 0),
     (''ENCODING'', 10102, CURLOT_STRING, CURLOT_FLAG_ALIAS),
     (''ERRORBUFFER'', 10010, CURLOT_OBJECT, 0),
     (''EXPECT_100_TIMEOUT_MS'', 227, CURLOT_LONG, 0),
     (''FAILONERROR'', 45, CURLOT_LONG, 0),
     (''FILE'', 10001, CURLOT_CBPTR, CURLOT_FLAG_ALIAS),
     (''FILETIME'', 69, CURLOT_LONG, 0),
     (''FNMATCH_DATA'', 10202, CURLOT_CBPTR, 0),
     (''FNMATCH_FUNCTION'', 20200, CURLOT_FUNCTION, 0),
     (''FOLLOWLOCATION'', 52, CURLOT_LONG, 0),
     (''FORBID_REUSE'', 75, CURLOT_LONG, 0),
     (''FRESH_CONNECT'', 74, CURLOT_LONG, 0),
     (''FTPAPPEND'', 50, CURLOT_LONG, CURLOT_FLAG_ALIAS),
     (''FTPLISTONLY'', 48, CURLOT_LONG, CURLOT_FLAG_ALIAS),
     (''FTPPORT'', 10017, CURLOT_STRING, 0),
     (''FTPSSLAUTH'', 129, CURLOT_VALUES, 0),
     (''FTP_ACCOUNT'', 10134, CURLOT_STRING, 0),
     (''FTP_ALTERNATIVE_TO_USER'', 10147, CURLOT_STRING, 0),
     (''FTP_CREATE_MISSING_DIRS'', 110, CURLOT_LONG, 0),
     (''FTP_FILEMETHOD'', 138, CURLOT_VALUES, 0),
     (''FTP_RESPONSE_TIMEOUT'', 112, CURLOT_LONG, CURLOT_FLAG_ALIAS),
     (''FTP_SKIP_PASV_IP'', 137, CURLOT_LONG, 0),
     (''FTP_SSL'', 119, CURLOT_VALUES, CURLOT_FLAG_ALIAS),
     (''FTP_SSL_CCC'', 154, CURLOT_LONG, 0),
     (''FTP_USE_EPRT'', 106, CURLOT_LONG, 0),
     (''FTP_USE_EPSV'', 85, CURLOT_LONG, 0),
     (''FTP_USE_PRET'', 188, CURLOT_LONG, 0),
     (''GSSAPI_DELEGATION'', 210, CURLOT_VALUES, 0),
     (''HAPPY_EYEBALLS_TIMEOUT_MS'', 271, CURLOT_LONG, 0),
     (''HAPROXYPROTOCOL'', 274, CURLOT_LONG, 0),
     (''HAPROXY_CLIENT_IP'', 10323, CURLOT_STRING, 0),
     (''HEADER'', 42, CURLOT_LONG, 0),
     (''HEADERDATA'', 10029, CURLOT_CBPTR, 0),
     (''HEADERFUNCTION'', 20079, CURLOT_FUNCTION, 0),
     (''HEADEROPT'', 229, CURLOT_VALUES, 0),
     (''HSTS'', 10300, CURLOT_STRING, 0),
     (''HSTSREADDATA'', 10302, CURLOT_CBPTR, 0),
     (''HSTSREADFUNCTION'', 20301, CURLOT_FUNCTION, 0),
     (''HSTSWRITEDATA'', 10304, CURLOT_CBPTR, 0),
     (''HSTSWRITEFUNCTION'', 20303, CURLOT_FUNCTION, 0),
     (''HSTS_CTRL'', 299, CURLOT_LONG, 0),
     (''HTTP09_ALLOWED'', 285, CURLOT_LONG, 0),
     (''HTTP200ALIASES'', 10104, CURLOT_SLIST, 0),
     (''HTTPAUTH'', 107, CURLOT_VALUES, 0),
     (''HTTPGET'', 80, CURLOT_LONG, 0),
     (''HTTPHEADER'', 10023, CURLOT_SLIST, 0),
     (''HTTPPOST'', 10024, CURLOT_OBJECT, 0),
     (''HTTPPROXYTUNNEL'', 61, CURLOT_LONG, 0),
     (''HTTP_CONTENT_DECODING'', 158, CURLOT_LONG, 0),
     (''HTTP_TRANSFER_DECODING'', 157, CURLOT_LONG, 0),
     (''HTTP_VERSION'', 84, CURLOT_VALUES, 0),
     (''IGNORE_CONTENT_LENGTH'', 136, CURLOT_LONG, 0),
     (''INFILE'', 10009, CURLOT_CBPTR, CURLOT_FLAG_ALIAS),
     (''INFILESIZE'', 14, CURLOT_LONG, 0),
     (''INFILESIZE_LARGE'', 30115, CURLOT_OFF_T, 0),
     (''INTERFACE'', 10062, CURLOT_STRING, 0),
     (''INTERLEAVEDATA'', 10195, CURLOT_CBPTR, 0),
     (''INTERLEAVEFUNCTION'', 20196, CURLOT_FUNCTION, 0),
     (''IOCTLDATA'', 10131, CURLOT_CBPTR, 0),
     (''IOCTLFUNCTION'', 20130, CURLOT_FUNCTION, 0),
     (''IPRESOLVE'', 113, CURLOT_VALUES, 0),
     (''ISSUERCERT'', 10170, CURLOT_STRING, 0),
     (''ISSUERCERT_BLOB'', 40295, CURLOT_BLOB, 0)]"

definition Curl_easyopts_2 :: "easyopt_row list" where
  "Curl_easyopts_2 =
    [(''KEEP_SENDING_ON_ERROR'', 245, CURLOT_LONG, 0),
     (''KEYPASSWD'', 10026, CURLOT_STRING, 0),
     (''KRB4LEVEL'', 10063, CURLOT_STRING, CURLOT_FLAG_ALIAS),
     (''KRBLEVEL'', 10063, CURLOT_STRING, 0),
     (''LOCALPORT'', 139, CURLOT_LONG, 0),
     (''LOCALPORTRANGE'', 140, CURLOT_LONG, 0),
     (''LOGIN_OPTIONS'', 10224, CURLOT_STRING, 0),
     (''LOW_SPEED_LIMIT'', 19, CURLOT_LONG, 0),
     (''LOW_SPEED_TIME'', 20, CURLOT_LONG, 0),
     (''MAIL_AUTH'', 10217, CURLOT_STRING, 0),
     (''MAIL_FROM'', 10186, CURLOT_STRING, 0),
     (''MAIL_RCPT'', 10187, CURLOT_SLIST, 0),
     (''MAIL_RCPT_ALLLOWFAILS'', 290, CURLOT_LONG, CURLOT_FLAG_ALIAS),
     (''MAIL_RCPT_ALLOWFAILS'', 290, CURLOT_LONG, 0),
     (''MAXAGE_CONN'', 288, CURLOT_LONG, 0),
     (''MAXCONNECTS'', 71, CURLOT_LONG, 0),
     (''MAXFILESIZE'', 114, CURLOT_LONG, 0),
     (''MAXFILESIZE_LARGE'', 30117, CURLOT_OFF_T, 0),
     (''MAXLIFETIME_CONN'', 314, CURLOT_LONG, 0),
     (''MAXREDIRS'', 68, CURLOT_LONG, 0),
     (''MAX_RECV_SPEED_LARGE'', 30146, CURLOT_OFF_T, 0),
     (''MAX_SEND_SPEED_LARGE'', 30145, CURLOT_OFF_T, 0),
     (''MIMEPOST'', 10269, CURLOT_OBJECT, 0),
     (''MIME_OPTIONS'', 315, CURLOT_LONG, 0),
     (''NETRC'', 51, CURLOT_VALUES, 0),
     (''NETRC_FILE'', 10118, CURLOT_STRING, 0),
     (''NEW_DIRECTORY_PERMS'', 160, CURLOT_LONG, 0),
     (''NEW_FILE_PERMS'', 159, CURLOT_LONG, 0),
     (''NOBODY'', 44, CURLOT_LONG, 0),
     (''NOPROGRESS'', 43, CURLOT_LONG, 0),
     (''NOPROXY'', 10177, CURLOT_STRING, 0),
     (''NOSIGNAL'', 99, CURLOT_LONG, 0),
     (''OPENSOCKETDATA'', 10164, CURLOT_CBPTR, 0),
     (''OPENSOCKETFUNCTION'', 20163, CURLOT_FUNCTION, 0),
     (''PASSWORD'', 10174, CURLOT_STRING, 0),
     (''PATH_AS_IS'', 234, CURLOT_LONG, 0),
     (''PINNEDPUBLICKEY'', 10230, CURLOT_STRING, 0),
     (''PIPEWAIT'', 237, CURLOT_LONG, 0),
     (''PORT'', 3, CURLOT_LONG, 0),
     (''POST'', 47, CURLOT_LONG, 0),
     (''POST301'', 161, CURLOT_VALUES, CURLOT_FLAG_ALIAS),
     (''POSTFIELDS'', 10015, CURLOT_OBJECT, 0),
     (''POSTFIELDSIZE'', 60, CURLOT_LONG, 0),
     (''POSTFIELDSIZE_LARGE'', 30120, CURLOT_OFF_T, 0),
     (''POSTQUOTE'', 10039, CURLOT_SLIST, 0),
     (''POSTREDIR'', 161, CURLOT_VALUES, 0),
     (''PREQUOTE'', 10093, CURLOT_SLIST, 0),
     (''PREREQDATA'', 10313, CURLOT_CBPTR, 0),
     (''PREREQFUNCTION'', 20312, CURLOT_FUNCTION, 0),
     (''PRE_PROXY'', 10262, CURLOT_STRING, 0),
     (''PRIVATE'', 10103, CURLOT_OBJECT, 0),
     (''PROGRESSDATA'', 10057, CURLOT_CBPTR, CURLOT_FLAG_ALIAS),
     (''PROGRESSFUNCTION'', 20056, CURLOT_FUNCTION, 0),
     (''PROTOCOLS'', 181, CURLOT_LONG, 0),
     (''PROTOCOLS_STR'', 10318, CURLOT_STRING, 0),
     (''PROXY'', 10004, CURLOT_STRING, 0),
     (''PROXYAUTH'', 111, CURLOT_VALUES, 0),
     (''PROXYHEADER'', 10228, CURLOT_SLIST, 0),
     (''PROXYPASSWORD'', 10176, CURLOT_STRING, 0),
     (''PROXYPORT'', 59, CURLOT_LONG, 0),
     (''PROXYTYPE'', 101, CURLOT_VALUES, 0),
     (''PROXYUSERNAME'', 10175, CURLOT_STRING, 0),
     (''PROXYUSERPWD'', 10006, CURLOT_STRING, 0),
     (''PROXY_CAINFO'', 10246, CURLOT_STRING, 0),
     (''PROXY_CAINFO_BLOB'', 40310, CURLOT_BLOB, 0),
     (''PROXY_CAPATH'', 10247, CURLOT_STRING, 0),
     (''PROXY_CRLFILE'', 10260, CURLOT_STRING, 0),
     (''PROXY_ISSUERCERT'', 10296, CURLOT_STRING, 0),
     (''PROXY_ISSUERCERT_BLOB'', 40297, CURLOT_BLOB, 0),
     (''PROXY_KEYPASSWD'', 10258, CURLOT_STRING, 0),
     (''PROXY_PINNEDPUBLICKEY'', 10263, CURLOT_STRING, 0),
     (''PROXY_SERVICE_NAME'', 10235, CURLOT_STRING, 0),
     (''PROXY_SSLCERT'', 10254, CURLOT_STRING, 0),
     (''PROXY_SSLCERTTYPE'', 10255, CURLOT_STRING, 0),
     (''PROXY_SSLCERT_BLOB'', 40293, CURLOT_BLOB, 0),
     (''PROXY_SSLKEY'', 10256, CURLOT_STRING, 0),
     (''PROXY_SSLKEYTYPE'', 10257, CURLOT_STRING, 0),
     (''PROXY_SSLKEY_BLOB'', 40294, CURLOT_BLOB, 0),
     (''PROXY_SSLVERSION'', 250, CURLOT_VALUES, 0),
     (''PROXY_SSL_CIPHER_LIST'', 10259, CURLOT_STRING, 0),
     (''PROXY_SSL_OPTIONS'', 261, CURLOT_LONG, 0),
     (''PROXY_SSL_VERIFYHOST'', 249, CURLOT_LONG, 0),
     (''PROXY_SSL_VERIFYPEER'', 248, CURLOT_LONG, 0),
     (''PROXY_TLS13_CIPHERS'', 10277, CURLOT_STRING, 0),
     (''PROXY_TLSAUTH_PASSWORD'', 10252, CURLOT_STRING, 0),
     (''PROXY_TLSAUTH_TYPE'', 10253, CURLOT_STRING, 0),
     (''PROXY_TLSAUTH_USERNAME'', 10251, CURLOT_STRING, 0),
     (''PROXY_TRANSFER_MODE'', 166, CURLOT_LONG, 0),
     (''PUT'', 54, CURLOT_LONG, 0),
     (''QUICK_EXIT'', 322, CURLOT_LONG, 0),
     (''QUOTE'', 10028, CURLOT_SLIST, 0),
     (''RANDOM_FILE'', 10076, CURLOT_STRING, 0),
     (''RANGE'', 10007, CURLOT_STRING, 0),
     (''READDATA'', 10009, CURLOT_CBPTR, 0),
     (''READFUNCTION'', 20012, CURLOT_FUNCTION, 0),
     (''REDIR_PROTOCOLS'', 182, CURLOT_LONG, 0),
     (''REDIR_PROTOCOLS_STR'', 10319, CURLOT_STRING, 0),
     (''REFERER'', 10016, CURLOT_STRING, 0),
     (''REQUEST_TARGET'', 10266, CURLOT_STRING, 0),
     (''RESOLVE'', 10203, CURLOT_SLIST, 0),
     (''RESOLVER_START_DATA'', 10273, CURLOT_CBPTR, 0),
     (''RESOLVER_START_FUNCTION'', 20272, CURLOT_FUNCTION, 0),
     (''RESUME_FROM'', 21, CURLOT_LONG, 0),
     (''RESUME_FROM_LARGE'', 30116, CURLOT_OFF_T, 0),
     (''RTSPHEADER'', 10023, CURLOT_SLIST, CURLOT_FLAG_ALIAS),
     (''RTSP_CLIENT_CSEQ'', 193, CURLOT_LONG, 0),
     (''RTSP_REQUEST'', 189, CURLOT_VALUES, 0),
     (''RTSP_SERVER_CSEQ'', 194, CURLOT_LONG, 0),
     (''RTSP_SESSION_ID'', 10190, CURLOT_STRING, 0),
     (''RTSP_STREAM_URI'', 10191, CURLOT_STRING, 0),
     (''RTSP_TRANSPORT'', 10192, CURLOT_STRING, 0),
     (''SASL_AUTHZID'', 10289, CURLOT_STRING, 0),
     (''SASL_IR'', 218, CURLOT_LONG, 0),
     (''SEEKDATA'', 10168, CURLOT_CBPTR, 0),
     (''SEEKFUNCTION'', 20167, CURLOT_FUNCTION, 0),
     (''SERVER_RESPONSE_TIMEOUT'', 112, CURLOT_LONG, 0)]"

definition Curl_easyopts_3 :: "easyopt_row list" where
  "Curl_easyopts_3 =
    [(''SERVER_RESPONSE_TIMEOUT_MS'', 324, CURLOT_LONG, 0),
     (''SERVICE_NAME'', 10236, CURLOT_STRING, 0),
     (''SHARE'', 10100, CURLOT_OBJECT, 0),
     (''SOCKOPTDATA'', 10149, CURLOT_CBPTR, 0),
     (''SOCKOPTFUNCTION'', 20148, CURLOT_FUNCTION, 0),
     (''SOCKS5_AUTH'', 267, CURLOT_LONG, 0),
     (''SOCKS5_GSSAPI_NEC'', 180, CURLOT_LONG, 0),
     (''SOCKS5_GSSAPI_SERVICE'', 10179, CURLOT_STRING, 0),
     (''SSH_AUTH_TYPES'', 151, CURLOT_VALUES, 0),
     (''SSH_COMPRESSION'', 268, CURLOT_LONG, 0),
     (''SSH_HOSTKEYDATA'', 10317, CURLOT_CBPTR, 0),
     (''SSH_HOSTKEYFUNCTION'', 20316, CURLOT_FUNCTION, 0),
     (''SSH_HOST_PUBLIC_KEY_MD5'', 10162, CURLOT_STRING, 0),
     (''SSH_HOST_PUBLIC_KEY_SHA256'', 10311, CURLOT_STRING, 0),
     (''SSH_KEYDATA'', 10185, CURLOT_CBPTR, 0),
     (''SSH_KEYFUNCTION'', 20184, CURLOT_FUNCTION, 0),
     (''SSH_KNOWNHOSTS'', 10183, CURLOT_STRING, 0),
     (''SSH_PRIVATE_KEYFILE'', 10153, CURLOT_STRING, 0),
     (''SSH_PUBLIC_KEYFILE'', 10152, CURLOT_STRING, 0),
     (''SSLCERT'', 10025, CURLOT_STRING, 0),
     (''SSLCERTPASSWD'', 10026, CURLOT_STRING, CURLOT_FLAG_ALIAS),
     (''SSLCERTTYPE'', 10086, CURLOT_STRING, 0),
     (''SSLCERT_BLOB'', 40291, CURLOT_BLOB, 0),
     (''SSLENGINE'', 10089, CURLOT_STRING, 0),
     (''SSLENGINE_DEFAULT'', 90, CURLOT_LONG, 0),
     (''SSLKEY'', 10087, CURLOT_STRING, 0),
     (''SSLKEYPASSWD'', 10026, CURLOT_STRING, CURLOT_FLAG_ALIAS),
     (''SSLKEYTYPE'', 10088, CURLOT_STRING, 0),
     (''SSLKEY_BLOB'', 40292, CURLOT_BLOB, 0),
     (''SSLVERSION'', 32, CURLOT_VALUES, 0),
     (''SSL_CIPHER_LIST'', 10083, CURLOT_STRING, 0),
     (''SSL_CTX_DATA'', 10109, CURLOT_CBPTR, 0),
     (''SSL_CTX_FUNCTION'', 20108, CURLOT_FUNCTION, 0),
     (''SSL_EC_CURVES'', 10298, CURLOT_STRING, 0),
     (''SSL_ENABLE_ALPN'', 226, CURLOT_LONG, 0),
     (''SSL_ENABLE_NPN'', 225, CURLOT_LONG, 0),
     (''SSL_FALSESTART'', 233, CURLOT_LONG, 0),
     (''SSL_OPTIONS'', 216, CURLOT_VALUES, 0),
     (''SSL_SESSIONID_CACHE'', 150, CURLOT_LONG, 0),
     (''SSL_VERIFYHOST'', 81, CURLOT_LONG, 0),
     (''SSL_VERIFYPEER'', 64, CURLOT_LONG, 0),
     (''SSL_VERIFYSTATUS'', 232, CURLOT_LONG, 0),
     (''STDERR'', 10037, CURLOT_OBJECT, 0),
     (''STREAM_DEPENDS'', 10240, CURLOT_OBJECT, 0),
     (''STREAM_DEPENDS_E'', 10241, CURLOT_OBJECT, 0),
     (''STREAM_WEIGHT'', 239, CURLOT_LONG, 0),
     (''SUPPRESS_CONNECT_HEADERS'', 265, CURLOT_LONG, 0),
     (''TCP_FASTOPEN'', 244, CURLOT_LONG, 0),
     (''TCP_KEEPALIVE'', 213, CURLOT_LONG, 0),
     (''TCP_KEEPIDLE'', 214, CURLOT_LONG, 0),
     (''TCP_KEEPINTVL'', 215, CURLOT_LONG, 0),
     (''TCP_NODELAY'', 121, CURLOT_LONG, 0),
     (''TELNETOPTIONS'', 10070, CURLOT_SLIST, 0),
     (''TFTP_BLKSIZE'', 178, CURLOT_LONG, 0),
     (''TFTP_NO_OPTIONS'', 242, CURLOT_LONG, 0),
     (''TIMECONDITION'', 33, CURLOT_VALUES, 0),
     (''TIMEOUT'', 13, CURLOT_LONG, 0),
     (''TIMEOUT_MS'', 155, CURLOT_LONG, 0),
     (''TIMEVALUE'', 34, CURLOT_LONG, 0),
     (''TIMEVALUE_LARGE'', 30270, CURLOT_OFF_T, 0),
     (''TLS13_CIPHERS'', 10276, CURLOT_STRING, 0),
     (''TLSAUTH_PASSWORD'', 10205, CURLOT_STRING, 0),
     (''TLSAUTH_TYPE'', 10206, CURLOT_STRING, 0),
     (''TLSAUTH_USERNAME'', 10204, CURLOT_STRING, 0),
     (''TRAILERDATA'', 10284, CURLOT_CBPTR, 0),
     (''TRAILERFUNCTION'', 20283, CURLOT_FUNCTION, 0),
     (''TRANSFERTEXT'', 53, CURLOT_LONG, 0),
     (''TRANSFER_ENCODING'', 207, CURLOT_LONG, 0),
     (''UNIX_SOCKET_PATH'', 10231, CURLOT_STRING, 0),
     (''UNRESTRICTED_AUTH'', 105, CURLOT_LONG, 0),
     (''UPKEEP_INTERVAL_MS'', 281, CURLOT_LONG, 0),
     (''UPLOAD'', 46, CURLOT_LONG, 0),
     (''UPLOAD_BUFFERSIZE'', 280, CURLOT_LONG, 0),
     (''URL'', 10002, CURLOT_STRING, 0),
     (''USERAGENT'', 10018, CURLOT_STRING, 0),
     (''USERNAME'', 10173, CURLOT_STRING, 0),
     (''USERPWD'', 10005, CURLOT_STRING, 0),
     (''USE_SSL'', 119, CURLOT_VALUES, 0),
     (''VERBOSE'', 41, CURLOT_LONG, 0),
     (''WILDCARDMATCH'', 197, CURLOT_LONG, 0),
     (''WRITEDATA'', 10001, CURLOT_CBPTR, 0),
     (''WRITEFUNCTION'', 20011, CURLOT_FUNCTION, 0),
     (''WRITEHEADER'', 10029, CURLOT_CBPTR, CURLOT_FLAG_ALIAS),
     (''WS_OPTIONS'', 320, CURLOT_LONG, 0),
     (''XFERINFODATA'', 10057, CURLOT_CBPTR, 0),
     (''XFERINFOFUNCTION'', 20219, CURLOT_FUNCTION, 0),
     (''XOAUTH2_BEARER'', 10220, CURLOT_STRING, 0)]"

definition easyopt :: "easyopt_row \<Rightarrow> curl_easyoption" where
  "easyopt = (\<lambda>(n, i, t, f). \<lparr>opt_name = Some (bytes_of n), opt_id = i, opt_type = t, opt_flags = f\<rparr>)"

definition Curl_easyopts :: "curl_easyoption list" where
  "Curl_easyopts =
     map easyopt (Curl_easyopts_1 @ Curl_easyopts_2 @ Curl_easyopts_3) @
     [\<lparr>opt_name = None, opt_id = CURLOPT_LASTENTRY, opt_type = CURLOT_LONG, opt_flags = 0\<rparr>]"

section \<open>The table of the component\<close>

type_synonym t_curl_options = "bytes option \<times> CURLoption"

definition lookuptable_1 :: "(string \<times> CURLoption) list" where
  "lookuptable_1 =
    [(''ABSTRACT_UNIX_SOCKET'', 10264),
     (''ACCEPTTIMEOUT_MS'', 212),
     (''ACCEPT_ENCODING'', 10102),
     (''ADDRESS_SCOPE'', 171),
     (''ALTSVC'', 10287),
     (''ALTSVC_CTRL'', 286),
     (''APPEND'', 50),
     (''AUTOREFERER'', 58),
     (''AWS_SIGV4'', 10305),
     (''BUFFERSIZE'', 98),
     (''CAINFO'', 10065),
     (''CAINFO_BLOB'', 40309),
     (''CAPATH'', 10097),
     (''CA_CACHE_TIMEOUT'', 321),
     (''CERTINFO'', 172),
     (''CHUNK_BGN_FUNCTION'', 20198),
     (''CHUNK_DATA'', 10201),
     (''CHUNK_END_FUNCTION'', 20199),
     (''CLOSESOCKETDATA'', 10209),
     (''CLOSESOCKETFUNCTION'', 20208),
     (''CONNECTTIMEOUT'', 78),
     (''CONNECTTIMEOUT_MS'', 156),
     (''CONNECT_ONLY'', 141),
     (''CONNECT_TO'', 10243),
     (''CONV_FROM_NETWORK_FUNCTION'', 20142),
     (''CONV_FROM_UTF8_FUNCTION'', 20144),
     (''CONV_TO_NETWORK_FUNCTION'', 20143),
     (''COOKIE'', 10022),
     (''COOKIEFILE'', 10031),
     (''COOKIEJAR'', 10082),
     (''COOKIELIST'', 10135),
     (''COOKIESESSION'', 96),
     (''COPYPOSTFIELDS'', 10165),
     (''CRLF'', 27),
     (''CRLFILE'', 10169),
     (''CURLU'', 10282),
     (''CUSTOMREQUEST'', 10036),
     (''DEBUGDATA'', 10095),
     (''DEBUGFUNCTION'', 20094),
     (''DEFAULT_PROTOCOL'', 10238),
     (''DIRLISTONLY'', 48),
     (''DISALLOW_USERNAME_IN_URL'', 278),
     (''DNS_CACHE_TIMEOUT'', 92),
     (''DNS_INTERFACE'', 10221),
     (''DNS_LOCAL_IP4'', 10222),
     (''DNS_LOCAL_IP6'', 10223),
     (''DNS_SERVERS'', 10211),
     (''DNS_SHUFFLE_ADDRESSES'', 275),
     (''DNS_USE_GLOBAL_CACHE'', 91),
     (''DOH_SSL_VERIFYHOST'', 307),
     (''DOH_SSL_VERIFYPEER'', 306),
     (''DOH_SSL_VERIFYSTATUS'', 308),
     (''DOH_URL'', 10279),
     (''EGDSOCKET'', 10077),
     (''ENCODING'', 10102),
     (''ERRORBUFFER'', 10010),
     (''EXPECT_100_TIMEOUT_MS'', 227),
     (''FAILONERROR'', 45),
     (''FILE'', 10001),
     (''FILETIME'', 69),
     (''FNMATCH_DATA'', 10202),
     (''FNMATCH_FUNCTION'', 20200),
     (''FOLLOWLOCATION'', 52),
     (''FORBID_REUSE'', 75),
     (''FRESH_CONNECT'', 74),
     (''FTPAPPEND'', 50),
     (''FTPLISTONLY'', 48),
     (''FTPPORT'', 10017),
     (''FTPSSLAUTH'', 129),
     (''FTP_ACCOUNT'', 10134),
     (''FTP_ALTERNATIVE_TO_USER'', 10147),
     (''FTP_CREATE_MISSING_DIRS'', 110),
     (''FTP_FILEMETHOD'', 138),
     (''FTP_RESPONSE_TIMEOUT'', 112),
     (''FTP_SKIP_PASV_IP'', 137),
     (''FTP_SSL'', 119),
     (''FTP_SSL_CCC'', 154),
     (''FTP_USE_EPRT'', 106),
     (''FTP_USE_EPSV'', 85),
     (''FTP_USE_PRET'', 188),
     (''GSSAPI_DELEGATION'', 210),
     (''HAPPY_EYEBALLS_TIMEOUT_MS'', 271),
     (''HAPROXYPROTOCOL'', 274),
     (''HAPROXY_CLIENT_IP'', 10323),
     (''HEADER'', 42),
     (''HEADERDATA'', 10029),
     (''HEADERFUNCTION'', 20079),
     (''HEADEROPT'', 229),
     (''HSTS'', 10300),
     (''HSTSREADDATA'', 10302),
     (''HSTSREADFUNCTION'', 20301),
     (''HSTSWRITEDATA'', 10304),
     (''HSTSWRITEFUNCTION'', 20303),
     (''HSTS_CTRL'', 299),
     (''HTTP09_ALLOWED'', 285),
     (''HTTP200ALIASES'', 10104),
     (''HTTPAUTH'', 107),
     (''HTTPGET'', 80),
     (''HTTPHEADER'', 10023),
     (''HTTPPOST'', 10024),
     (''HTTPPROXYTUNNEL'', 61),
     (''HTTP_CONTENT_DECODING'', 158),
     (''HTTP_TRANSFER_DECODING'', 157),
     (''HTTP_VERSION'', 84),
     (''IGNORE_CONTENT_LENGTH'', 136),
     (''INFILE'', 10009),
     (''INFILESIZE'', 14),
     (''INFILESIZE_LARGE'', 30115),
     (''INTERFACE'', 10062),
     (''INTERLEAVEDATA'', 10195),
     (''INTERLEAVEFUNCTION'', 20196),
     (''IOCTLDATA'', 10131),
     (''IOCTLFUNCTION'', 20130),
     (''IPRESOLVE'', 113),
     (''ISSUERCERT'', 10170),
     (''ISSUERCERT_BLOB'', 40295)]"

definition lookuptable_2 :: "(string \<times> CURLoption) list" where
  "lookuptable_2 =
    [(''KEEP_SENDING_ON_ERROR'', 245),
     (''KEYPASSWD'', 10026),
     (''KRB4LEVEL'', 10063),
     (''KRBLEVEL'', 10063),
     (''LOCALPORT'', 139),
     (''LOCALPORTRANGE'', 140),
     (''LOGIN_OPTIONS'', 10224),
     (''LOW_SPEED_LIMIT'', 19),
     (''LOW_SPEED_TIME'', 20),
     (''MAIL_AUTH'', 10217),
     (''MAIL_FROM'', 10186),
     (''MAIL_RCPT'', 10187),
     (''MAIL_RCPT_ALLLOWFAILS'', 290),
     (''MAIL_RCPT_ALLOWFAILS'', 290),
     (''MAXAGE_CONN'', 288),
     (''MAXCONNECTS'', 71),
     (''MAXFILESIZE'', 114),
     (''MAXFILESIZE_LARGE'', 30117),
     (''MAXLIFETIME_CONN'', 314),
     (''MAXREDIRS'', 68),
     (''MAX_RECV_SPEED_LARGE'', 30146),
     (''MAX_SEND_SPEED_LARGE'', 30145),
     (''MIMEPOST'', 10269),
     (''MIME_OPTIONS'', 315),
     (''NETRC'', 51),
     (''NETRC_FILE'', 10118),
     (''NEW_DIRECTORY_PERMS'', 160),
     (''NEW_FILE_PERMS'', 159),
     (''NOBODY'', 44),
     (''NOPROGRESS'', 43),
     (''NOPROXY'', 10177),
     (''NOSIGNAL'', 99),
     (''OPENSOCKETDATA'', 10164),
     (''OPENSOCKETFUNCTION'', 20163),
     (''PASSWORD'', 10174),
     (''PATH_AS_IS'', 234),
     (''PINNEDPUBLICKEY'', 10230),
     (''PIPEWAIT'', 237),
     (''PORT'', 3),
     (''POST'', 47),
     (''POST301'', 161),
     (''POSTFIELDS'', 10015),
     (''POSTFIELDSIZE'', 60),
     (''POSTFIELDSIZE_LARGE'', 30120),
     (''POSTQUOTE'', 10039),
     (''POSTREDIR'', 161),
     (''PREQUOTE'', 10093),
     (''PREREQDATA'', 10313),
     (''PREREQFUNCTION'', 20312),
     (''PRE_PROXY'', 10262),
     (''PRIVATE'', 10103),
     (''PROGRESSDATA'', 10057),
     (''PROGRESSFUNCTION'', 20056),
     (''PROTOCOLS'', 181),
     (''PROTOCOLS_STR'', 10318),
     (''PROXY'', 10004),
     (''PROXYAUTH'', 111),
     (''PROXYHEADER'', 10228),
     (''PROXYPASSWORD'', 10176),
     (''PROXYPORT'', 59),
     (''PROXYTYPE'', 101),
     (''PROXYUSERNAME'', 10175),
     (''PROXYUSERPWD'', 10006),
     (''PROXY_CAINFO'', 10246),
     (''PROXY_CAINFO_BLOB'', 40310),
     (''PROXY_CAPATH'', 10247),
     (''PROXY_CRLFILE'', 10260),
     (''PROXY_ISSUERCERT'', 10296),
     (''PROXY_ISSUERCERT_BLOB'', 40297),
     (''PROXY_KEYPASSWD'', 10258),
     (''PROXY_PINNEDPUBLICKEY'', 10263),
     (''PROXY_SERVICE_NAME'', 10235),
     (''PROXY_SSLCERT'', 10254),
     (''PROXY_SSLCERTTYPE'', 10255),
     (''PROXY_SSLCERT_BLOB'', 40293),
     (''PROXY_SSLKEY'', 10256),
     (''PROXY_SSLKEYTYPE'', 10257),
     (''PROXY_SSLKEY_BLOB'', 40294),
     (''PROXY_SSLVERSION'', 250),
     (''PROXY_SSL_CIPHER_LIST'', 10259),
     (''PROXY_SSL_OPTIONS'', 261),
     (''PROXY_SSL_VERIFYHOST'', 249),
     (''PROXY_SSL_VERIFYPEER'', 248),
     (''PROXY_TLS13_CIPHERS'', 10277),
     (''PROXY_TLSAUTH_PASSWORD'', 10252),
     (''PROXY_TLSAUTH_TYPE'', 10253),
     (''PROXY_TLSAUTH_USERNAME'', 10251),
     (''PROXY_TRANSFER_MODE'', 166),
     (''PUT'', 54),
     (''QUICK_EXIT'', 322),
     (''QUOTE'', 10028),
     (''RANDOM_FILE'', 10076),
     (''RANGE'', 10007),
     (''READDATA'', 10009),
     (''READFUNCTION'', 20012),
     (''REDIR_PROTOCOLS'', 182),
     (''REDIR_PROTOCOLS_STR'', 10319),
     (''REFERER'', 10016),
     (''REQUEST_TARGET'', 10266),
     (''RESOLVE'', 10203),
     (''RESOLVER_START_DATA'', 10273),
     (''RESOLVER_START_FUNCTION'', 20272),
     (''RESUME_FROM'', 21),
     (''RESUME_FROM_LARGE'', 30116),
     (''RTSPHEADER'', 10023),
     (''RTSP_CLIENT_CSEQ'', 193),
     (''RTSP_REQUEST'', 189),
     (''RTSP_SERVER_CSEQ'', 194),
     (''RTSP_SESSION_ID'', 10190),
     (''RTSP_STREAM_URI'', 10191),
     (''RTSP_TRANSPORT'', 10192),
     (''SASL_AUTHZID'', 10289),
     (''SASL_IR'', 218),
     (''SEEKDATA'', 10168),
     (''SEEKFUNCTION'', 20167),
     (''SERVER_RESPONSE_TIMEOUT'', 112)]"

definition lookuptable_3 :: "(string \<times> CURLoption) list" where
  "lookuptable_3 =
    [(''SERVICE_NAME'', 10236),
     (''SHARE'', 10100),
     (''SOCKOPTDATA'', 10149),
     (''SOCKOPTFUNCTION'', 20148),
     (''SOCKS5_AUTH'', 267),
     (''SOCKS5_GSSAPI_NEC'', 180),
     (''SOCKS5_GSSAPI_SERVICE'', 10179),
     (''SSH_AUTH_TYPES'', 151),
     (''SSH_COMPRESSION'', 268),
     (''SSH_HOSTKEYDATA'', 10317),
     (''SSH_HOSTKEYFUNCTION'', 20316),
     (''SSH_HOST_PUBLIC_KEY_MD5'', 10162),
     (''SSH_HOST_PUBLIC_KEY_SHA256'', 10311),
     (''SSH_KEYDATA'', 10185),
     (''SSH_KEYFUNCTION'', 20184),
     (''SSH_KNOWNHOSTS'', 10183),
     (''SSH_PRIVATE_KEYFILE'', 10153),
     (''SSH_PUBLIC_KEYFILE'', 10152),
     (''SSLCERT'', 10025),
     (''SSLCERTPASSWD'', 10026),
     (''SSLCERTTYPE'', 10086),
     (''SSLCERT_BLOB'', 40291),
     (''SSLENGINE'', 10089),
     (''SSLENGINE_DEFAULT'', 90),
     (''SSLKEY'', 10087),
     (''SSLKEYPASSWD'', 10026),
     (''SSLKEYTYPE'', 10088),
     (''SSLKEY_BLOB'', 40292),
     (''SSLVERSION'', 32),
     (''SSL_CIPHER_LIST'', 10083),
     (''SSL_CTX_DATA'', 10109),
     (''SSL_CTX_FUNCTION'', 20108),
     (''SSL_EC_CURVES'', 10298),
     (''SSL_ENABLE_ALPN'', 226),
     (''SSL_ENABLE_NPN'', 225),
     (''SSL_FALSESTART'', 233),
     (''SSL_OPTIONS'', 216),
     (''SSL_SESSIONID_CACHE'', 150),
     (''SSL_VERIFYHOST'', 81),
     (''SSL_VERIFYPEER'', 64),
     (''SSL_VERIFYSTATUS'', 232),
     (''STDERR'', 10037),
     (''STREAM_DEPENDS'', 10240),
     (''STREAM_DEPENDS_E'', 10241),
     (''STREAM_WEIGHT'', 239),
     (''SUPPRESS_CONNECT_HEADERS'', 265),
     (''TCP_FASTOPEN'', 244),
     (''TCP_KEEPALIVE'', 213),
     (''TCP_KEEPIDLE'', 214),
     (''TCP_KEEPINTVL'', 215),
     (''TCP_NODELAY'', 121),
     (''TELNETOPTIONS'', 10070),
     (''TFTP_BLKSIZE'', 178),
     (''TFTP_NO_OPTIONS'', 242),
     (''TIMECONDITION'', 33),
     (''TIMEOUT'', 13),
     (''TIMEOUT_MS'', 155),
     (''TIMEVALUE'', 34),
     (''TIMEVALUE_LARGE'', 30270),
     (''TLS13_CIPHERS'', 10276),
     (''TLSAUTH_PASSWORD'', 10205),
     (''TLSAUTH_TYPE'', 10206),
     (''TLSAUTH_USERNAME'', 10204),
     (''TRAILERDATA'', 10284),
     (''TRAILERFUNCTION'', 20283),
     (''TRANSFERTEXT'', 53),
     (''TRANSFER_ENCODING'', 207),
     (''UNIX_SOCKET_PATH'', 10231),
     (''UNRESTRICTED_AUTH'', 105),
     (''UPKEEP_INTERVAL_MS'', 281),
     (''UPLOAD'', 46),
     (''UPLOAD_BUFFERSIZE'', 280),
     (''URL'', 10002),
     (''USERAGENT'', 10018),
     (''USERNAME'', 10173),
     (''USERPWD'', 10005),
     (''USE_SSL'', 119),
     (''VERBOSE'', 41),
     (''WILDCARDMATCH'', 197),
     (''WRITEDATA'', 10001),
     (''WRITEFUNCTION'', 20011),
     (''WRITEHEADER'', 10029),
     (''WS_OPTIONS'', 320),
     (''XFERINFODATA'', 10057),
     (''XFERINFOFUNCTION'', 20219),
     (''XOAUTH2_BEARER'', 10220)]"

definition lookuptable :: "t_curl_options list" where
  "lookuptable =
     map (\<lambda>(n, i). (Some (bytes_of n), i)) (lookuptable_1 @ lookuptable_2 @ lookuptable_3) @
     [(None, CURLOPT_LASTENTRY)]"

section \<open>The tables\<close>

abbreviation easyopt_rows :: "easyopt_row list" where
  "easyopt_rows \<equiv> Curl_easyopts_1 @ Curl_easyopts_2 @ Curl_easyopts_3"

text \<open>The option of libcurl 8.6.0 that the table of the component does not have.\<close>

abbreviation missing :: string where
  "missing \<equiv> ''SERVER_RESPONSE_TIMEOUT_MS''"

lemma lookuptable_eq:
  "lookuptable_1 @ lookuptable_2 @ lookuptable_3 =
     map (\<lambda>(n, i, _). (n, i)) (Curl_easyopts_1 @ Curl_easyopts_2 @ tl Curl_easyopts_3)"
proof -
  have "lookuptable_1 = map (\<lambda>(n, i, _). (n, i)) Curl_easyopts_1"
    unfolding lookuptable_1_def Curl_easyopts_1_def by (simp only: list.map prod.case)
  moreover have "lookuptable_2 = map (\<lambda>(n, i, _). (n, i)) Curl_easyopts_2"
    unfolding lookuptable_2_def Curl_easyopts_2_def by (simp only: list.map prod.case)
  moreover have "lookuptable_3 = map (\<lambda>(n, i, _). (n, i)) (tl Curl_easyopts_3)"
    unfolding lookuptable_3_def Curl_easyopts_3_def by (simp only: list.map prod.case list.sel)
  ultimately show ?thesis by simp
qed

lemma easyopts_3_head: "Curl_easyopts_3 = (missing, 324, CURLOT_LONG, 0) # tl Curl_easyopts_3"
  unfolding Curl_easyopts_3_def by (simp only: list.sel)

text \<open>Every name consists of characters that are not lower-case letters and not the terminator.\<close>

definition plain_name :: "string \<Rightarrow> bool" where
  "plain_name n = list_all (\<lambda>c. of_char c \<noteq> (0 :: nat) \<and> of_char c < (97 :: nat)) n"

lemma rows_plain: "list_all (\<lambda>(n, _). plain_name n) easyopt_rows"
proof -
  have "list_all (\<lambda>(n, _). plain_name n) Curl_easyopts_1"
    by (simp add: Curl_easyopts_1_def plain_name_def)
  moreover have "list_all (\<lambda>(n, _). plain_name n) Curl_easyopts_2"
    by (simp add: Curl_easyopts_2_def plain_name_def)
  moreover have "list_all (\<lambda>(n, _). plain_name n) Curl_easyopts_3"
    by (simp add: Curl_easyopts_3_def plain_name_def)
  ultimately show ?thesis by simp
qed


end
