(* ===== verification/Options.thy ===== *)
theory Options
imports Option_Tables
begin

text \<open>
  The searches of an option by its name, in the component (\<open>curl1c/Common.cpp\<close>) and in libcurl
  (\<open>curl-8.6.0/lib/easygetopt.c\<close>), and their agreement.
\<close>

section \<open>The searches\<close>

text \<open>
  The search of the component. \<open>strcmp\<close> reads the name of every entry that it reaches, and
  the last entry has none.
\<close>

fun options_loop :: "t_curl_options list \<Rightarrow> bytes \<Rightarrow> CURLoption outcome" where
  "options_loop [] key = Inl (RuntimeError ''unknown CURLOPT'')"
| "options_loop ((name, v) # ts) key =
     (case name of
        None \<Rightarrow> Inl NullDeref
      | Some n \<Rightarrow> if c_str n = c_str key then Inr v else options_loop ts key)"

definition curl_options_from_string :: "bytes \<Rightarrow> CURLoption outcome" where
  "curl_options_from_string key = options_loop lookuptable key"

text \<open>
  The search of libcurl, by name or by number. The loop tests for the end of the table after
  it has looked at an entry; \<open>None\<close> for the rest of the table is a read past its end.
\<close>

fun lookup_loop :: "curl_easyoption list \<Rightarrow> bytes option \<Rightarrow> CURLoption \<Rightarrow> curl_easyoption option outcome" where
  "lookup_loop [] name i = Inl OobRead"
| "lookup_loop (e # os) name i =
     (if (case name of
            Some n \<Rightarrow> curl_strequal (opt_name e) (Some n)
          | None \<Rightarrow> opt_id e = i \<and> opt_flags e AND CURLOT_FLAG_ALIAS = 0)
      then Inr (Some e)
      else case os of
             [] \<Rightarrow> Inl OobRead
           | e' # _ \<Rightarrow> if opt_name e' \<noteq> None then lookup_loop os name i else Inr None)"

definition lookup_option :: "bytes option \<Rightarrow> CURLoption \<Rightarrow> curl_easyoption option outcome" where
  "lookup_option name i =
     (if name \<noteq> None \<or> i \<noteq> 0 then lookup_loop Curl_easyopts name i else Inr None)"

definition curl_easy_option_by_name :: "bytes option \<Rightarrow> curl_easyoption option outcome" where
  "curl_easy_option_by_name name = lookup_option name CURLOPT_LASTENTRY"

definition curl_easy_option_by_id :: "CURLoption \<Rightarrow> curl_easyoption option outcome" where
  "curl_easy_option_by_id i = lookup_option None i"

text \<open>The option after a given one, by position in the table.\<close>

definition curl_easy_option_next :: "nat option \<Rightarrow> nat option" where
  "curl_easy_option_next prev =
     (case prev of
        Some p \<Rightarrow>
          if opt_name (Curl_easyopts ! p) \<noteq> None \<and> opt_name (Curl_easyopts ! (p + 1)) \<noteq> None
          then Some (p + 1) else None
      | None \<Rightarrow> Some 0)"

text \<open>The thousands of an option number by its type, from \<open>CURLOPTTYPE_LONG\<close> and the other bases.\<close>

fun type_base :: "curl_easytype \<Rightarrow> nat" where
  "type_base CURLOT_LONG = 0"
| "type_base CURLOT_VALUES = 0"
| "type_base CURLOT_OBJECT = 10000"
| "type_base CURLOT_STRING = 10000"
| "type_base CURLOT_SLIST = 10000"
| "type_base CURLOT_CBPTR = 10000"
| "type_base CURLOT_FUNCTION = 20000"
| "type_base CURLOT_OFF_T = 30000"
| "type_base CURLOT_BLOB = 40000"

section \<open>The searches are linear searches\<close>

lemma options_loop_find:
  assumes "list_all (\<lambda>(n, i). 0 \<notin> set (bytes_of n)) ts"
  shows "options_loop (map (\<lambda>(n, i). (Some (bytes_of n), i)) ts @ [(None, x)]) key =
    (case find (\<lambda>(n, i). bytes_of n = c_str key) ts of Some (n, i) \<Rightarrow> Inr i | None \<Rightarrow> Inl NullDeref)"
  using assms by (induction ts) auto

lemma easyopt_simps [simp]:
  "opt_name (easyopt r) = Some (bytes_of (fst r))"
  "opt_id (easyopt r) = fst (snd r)"
  by (simp_all add: easyopt_def split: prod.splits)

lemma lookup_loop_find:
  assumes "opt_name l = None"
  shows "rs \<noteq> [] \<Longrightarrow> lookup_loop (map easyopt rs @ [l]) (Some n) i =
    Inr (map_option easyopt
      (find (\<lambda>(m, _). map Curl_raw_toupper (c_str (bytes_of m)) = map Curl_raw_toupper (c_str n)) rs))"
proof (induction rs)
  case (Cons r rs)
  obtain m j t f where r: "r = (m, j, t, f)" by (cases r)
  show ?case
  proof (cases rs)
    case Nil
    with assms r show ?thesis by (auto simp: curl_strequal_def casecompare_eq)
  next
    case (Cons r' rs')
    with Cons.IH r show ?thesis by (auto simp: curl_strequal_def casecompare_eq)
  qed
qed simp

lemma plain_name_bytes:
  assumes "plain_name n"
  shows "0 \<notin> set (bytes_of n)" "map Curl_raw_toupper (bytes_of n) = bytes_of n"
proof -
  have c: "(of_char c :: byte) \<noteq> 0 \<and> Curl_raw_toupper (of_char c) = of_char c"
    if "c \<in> set n" for c
  proof -
    from that assms have "of_char c \<noteq> (0 :: nat)" "of_char c < (97 :: nat)"
      by (auto simp: plain_name_def list_all_iff)
    moreover have "(of_char c :: byte) = 0 \<longleftrightarrow> of_char c = (0 :: nat)"
      using unat_of_char [of c] unat_eq_zero [of "of_char c :: byte"] by simp
    ultimately show ?thesis by (auto simp: Curl_raw_toupper_eq word_le_nat_alt unat_of_char)
  qed
  show "0 \<notin> set (bytes_of n)" using c by (force simp: bytes_of_def)
  show "map Curl_raw_toupper (bytes_of n) = bytes_of n" using c by (simp add: bytes_of_def)
qed


definition row_of :: "bytes \<Rightarrow> easyopt_row option" where
  "row_of key = find (\<lambda>(n, _). bytes_of n = key) easyopt_rows"

lemma options_from_string_find:
  "curl_options_from_string key =
    (case find (\<lambda>(n, i, _). bytes_of n = c_str key) (Curl_easyopts_1 @ Curl_easyopts_2 @ tl Curl_easyopts_3)
     of Some (n, i, _) \<Rightarrow> Inr i | None \<Rightarrow> Inl NullDeref)"
proof -
  let ?rs = "Curl_easyopts_1 @ Curl_easyopts_2 @ tl Curl_easyopts_3"
  have "set ?rs \<subseteq> set easyopt_rows" 
    by (subst (2) easyopts_3_head) auto
  then have "list_all (\<lambda>(n, _). plain_name n) ?rs" using rows_plain by (auto simp: list_all_iff)
  then have nul: "list_all (\<lambda>(n, i). 0 \<notin> set (bytes_of n)) (map (\<lambda>(n, i, _). (n, i)) ?rs)"
    by (auto simp: list_all_iff dest: plain_name_bytes(1))
  show ?thesis
    unfolding curl_options_from_string_def lookuptable_def lookuptable_eq options_loop_find [OF nul] find_map
    by (simp add: comp_def case_prod_beta' split: option.split)
qed

lemma options_from_string_eq:
  assumes "c_str key \<noteq> bytes_of missing"
  shows "curl_options_from_string key =
    (case row_of (c_str key) of Some (n, i, _) \<Rightarrow> Inr i | None \<Rightarrow> Inl NullDeref)"
proof -
  let ?rs = "Curl_easyopts_1 @ Curl_easyopts_2 @ tl Curl_easyopts_3"
  have "find (\<lambda>(n, i, _). bytes_of n = c_str key) ?rs =
    find (\<lambda>(n, _). bytes_of n = c_str key) ((Curl_easyopts_1 @ Curl_easyopts_2) @ (missing, 324, CURLOT_LONG, 0) # tl Curl_easyopts_3)"
    using assms by (subst find_skip) (auto simp: case_prod_beta')
  with easyopts_3_head show ?thesis by (simp add: row_of_def options_from_string_find)
qed

lemma missing_none: "\<forall>(n, _) \<in> set (Curl_easyopts_1 @ Curl_easyopts_2 @ tl Curl_easyopts_3). n \<noteq> missing"
proof -
  let ?P = "\<lambda>(n, _). length n \<noteq> 26 \<or> take 2 n \<noteq> ''SE''"
  have "list_all ?P Curl_easyopts_1" by (simp add: Curl_easyopts_1_def)
  moreover have "list_all ?P Curl_easyopts_2" by (simp add: Curl_easyopts_2_def)
  moreover have "list_all ?P (tl Curl_easyopts_3)" by (simp add: Curl_easyopts_3_def)
  ultimately show ?thesis by (auto simp: list_all_iff)
qed

lemma options_missing:
  assumes "c_str key = bytes_of missing"
  shows "curl_options_from_string key = Inl NullDeref"
proof -
  let ?rs = "Curl_easyopts_1 @ Curl_easyopts_2 @ tl Curl_easyopts_3"
  have "find (\<lambda>(n, i, _). bytes_of n = c_str key) ?rs = None"
    using missing_none by (auto simp: find_None_iff assms bytes_of_inject simp del: bytes_of_Cons)
  then show ?thesis by (simp add: options_from_string_find)
qed

lemma rows_bytes:
  assumes "(n, r) \<in> set easyopt_rows"
  shows "0 \<notin> set (bytes_of n)" "map Curl_raw_toupper (bytes_of n) = bytes_of n"
  using assms rows_plain plain_name_bytes by (fastforce simp: list_all_iff)+

lemma by_name_eq:
  "curl_easy_option_by_name (Some key) =
    Inr (map_option easyopt (find (\<lambda>(n, _). bytes_of n = map Curl_raw_toupper (c_str key)) easyopt_rows))"
proof -
  have "find (\<lambda>(m, _). map Curl_raw_toupper (c_str (bytes_of m)) = map Curl_raw_toupper (c_str key)) easyopt_rows =
    find (\<lambda>(n, _). bytes_of n = map Curl_raw_toupper (c_str key)) easyopt_rows"
    by (rule find_cong_set) (use rows_bytes in \<open>force split: prod.splits\<close>)
  moreover have "easyopt_rows \<noteq> []" using easyopts_3_head by auto
  ultimately show ?thesis
    using lookup_loop_find [of "\<lparr>opt_name = None, opt_id = CURLOPT_LASTENTRY, opt_type = CURLOT_LONG, opt_flags = 0\<rparr>"
        easyopt_rows key CURLOPT_LASTENTRY]
    by (simp add: curl_easy_option_by_name_def lookup_option_def Curl_easyopts_def)
qed

section \<open>Properties\<close>

text \<open>
  C12: for a name in capital letters the search of the component and the one of libcurl give
  the same option number, except for the one option that the component's table lacks; where
  libcurl answers that there is no such option, the component dereferences a null pointer.
\<close>

theorem options_agree:
  assumes "map Curl_raw_toupper (c_str key) = c_str key"
  shows "curl_options_from_string key =
    (if c_str key = bytes_of missing then Inl NullDeref
     else bindE (curl_easy_option_by_name (Some key))
       (\<lambda>r. case r of None \<Rightarrow> Inl NullDeref | Some e \<Rightarrow> Inr (opt_id e)))"
  using options_missing [of key] options_from_string_eq [of key]
  by (simp add: by_name_eq assms row_of_def split: option.splits)

theorem options_agree_witness:
  "curl_options_from_string (bytes_of ''URL'') =
    bindE (curl_easy_option_by_name (Some (bytes_of ''URL'')))
       (\<lambda>r. case r of None \<Rightarrow> Inl NullDeref | Some e \<Rightarrow> Inr (opt_id e))"
  by (subst options_agree) (simp_all add: Curl_raw_toupper_eq)

text \<open>
  C13: a name that is not found never leads to the error that the search would raise at its
  end: the entry that marks the end of the table is compared like any other, and its null
  pointer is dereferenced. Only the exact name of an option of libcurl gives its number.
\<close>

theorem options_unknown:
  "case curl_options_from_string key of
     Inl f \<Rightarrow> f = NullDeref
   | Inr v \<Rightarrow> \<exists>e. curl_easy_option_by_name (Some key) = Inr (Some e) \<and> opt_name e = Some (c_str key) \<and> opt_id e = v"
proof (cases "c_str key = bytes_of missing")
  case True
  then show ?thesis by (simp add: options_missing)
next
  case False
  show ?thesis
  proof (cases "row_of (c_str key)")
    case None
    with False show ?thesis by (simp add: options_from_string_eq)
  next
    case (Some r)
    then have r: "r \<in> set easyopt_rows" "bytes_of (fst r) = c_str key"
      unfolding row_of_def by (auto dest: find_SomeD)
    then have "map Curl_raw_toupper (c_str key) = c_str key"
      using rows_bytes(2) [of "fst r" "snd r"] by simp
    with Some False r(2) show ?thesis
      by (auto simp: options_from_string_eq by_name_eq row_of_def split: prod.splits)
  qed
qed


end
