(* ===== verification/Curl_Dynbuf.thy ===== *)
theory Curl_Dynbuf
imports Prelude
begin

text \<open>
  The growing buffer of libcurl, \<open>curl-8.6.0/lib/dynbuf.c\<close>. Sizes are 32 bits wide. \<open>alloc\<close>
  tells for a size whether an allocation succeeds, and \<open>junk\<close> what a new byte holds before it is
  written. The loop that doubles the size of the allocation is a partial function: it does not
  end when the size wraps around to zero.
\<close>

text \<open>The result codes that the modelled functions of libcurl return.\<close>

datatype CURLcode =
    CURLE_OK
  | CURLE_URL_MALFORMAT
  | CURLE_OUT_OF_MEMORY
  | CURLE_READ_ERROR
  | CURLE_BAD_FUNCTION_ARGUMENT
  | CURLE_UNKNOWN_OPTION
  | CURLE_BAD_CONTENT_ENCODING
  | CURLE_TOO_LARGE

record dynbuf =
  bufr :: "bytes option"
  leng :: u32
  allc :: u32
  toobig :: u32

definition MIN_FIRST_ALLOC :: u32 where
  "MIN_FIRST_ALLOC = 32"

definition Curl_dyn_init :: "u32 \<Rightarrow> dynbuf" where
  "Curl_dyn_init n = \<lparr>bufr = None, leng = 0, allc = 0, toobig = n\<rparr>"

definition Curl_dyn_free :: "dynbuf \<Rightarrow> dynbuf" where
  "Curl_dyn_free s = s\<lparr>bufr := None, leng := 0, allc := 0\<rparr>"

partial_function (option) grow_alloc :: "u32 \<Rightarrow> u32 \<Rightarrow> u32 option" where
  "grow_alloc a fit = (if a < fit then grow_alloc (a * 2) fit else Some a)"

definition realloc_buf :: "(nat \<Rightarrow> byte) \<Rightarrow> bytes option \<Rightarrow> u32 \<Rightarrow> bytes" where
  "realloc_buf junk b a =
     (let old = (case b of None \<Rightarrow> [] | Some cs \<Rightarrow> cs) in
      take (unat a) old @ map junk [length old..<unat a])"

text \<open>Copying bytes to a position of the buffer.\<close>

definition store :: "bytes \<Rightarrow> nat \<Rightarrow> bytes \<Rightarrow> bytes outcome" where
  "store cs i mem =
     (if i + length mem \<le> length cs then Inr (take i cs @ mem @ drop (i + length mem) cs) else Inl OobWrite)"

text \<open>The size to allocate, or \<open>None\<close> when the loop does not end.\<close>

definition new_alloc :: "dynbuf \<Rightarrow> u32 \<Rightarrow> u32 option" where
  "new_alloc s fit =
     (if allc s = 0
      then Some (if MIN_FIRST_ALLOC > toobig s then toobig s
                 else if fit < MIN_FIRST_ALLOC then MIN_FIRST_ALLOC else fit)
      else map_option (\<lambda>a. if a > toobig s then toobig s else a) (grow_alloc (allc s) fit))"

definition dyn_nappend ::
  "(u32 \<Rightarrow> bool) \<Rightarrow> (nat \<Rightarrow> byte) \<Rightarrow> dynbuf \<Rightarrow> bytes \<Rightarrow> (CURLcode \<times> dynbuf) outcome option" where
  "dyn_nappend alloc junk s mem =
     (let indx = leng s;
          len = of_nat (length mem);
          fit = len + indx + 1 in
      if fit > toobig s then Some (Inr (CURLE_TOO_LARGE, Curl_dyn_free s))
      else case new_alloc s fit of
             None \<Rightarrow> None
           | Some a \<Rightarrow> Some (
               if a \<noteq> allc s \<and> \<not> alloc a then Inr (CURLE_OUT_OF_MEMORY, Curl_dyn_free s)
               else let s1 = (if a \<noteq> allc s then s\<lparr>bufr := Some (realloc_buf junk (bufr s) a), allc := a\<rparr> else s) in
                    case bufr s1 of
                      None \<Rightarrow> Inl NullDeref
                    | Some cs \<Rightarrow>
                        bindE (store cs (unat indx) mem)
                          (\<lambda>cs1. bindE (store cs1 (unat (indx + len)) [0])
                            (\<lambda>cs2. Inr (CURLE_OK, s1\<lparr>bufr := Some cs2, leng := indx + len\<rparr>)))))"

text \<open>Writing a terminator into the buffer.\<close>

definition terminate_at :: "dynbuf \<Rightarrow> u32 \<Rightarrow> dynbuf outcome" where
  "terminate_at s i =
     (case bufr s of
        None \<Rightarrow> Inl NullDeref
      | Some cs \<Rightarrow> bindE (store cs (unat i) [0]) (\<lambda>cs'. Inr (s\<lparr>bufr := Some cs'\<rparr>)))"

definition Curl_dyn_reset :: "dynbuf \<Rightarrow> dynbuf outcome" where
  "Curl_dyn_reset s =
     bindE (if leng s \<noteq> 0 then terminate_at s 0 else Inr s) (\<lambda>s'. Inr (s'\<lparr>leng := 0\<rparr>))"

definition Curl_dyn_tail :: "dynbuf \<Rightarrow> u32 \<Rightarrow> (CURLcode \<times> dynbuf) outcome" where
  "Curl_dyn_tail s trail =
     (if trail > leng s then Inr (CURLE_BAD_FUNCTION_ARGUMENT, s)
      else if trail = leng s then Inr (CURLE_OK, s)
      else if trail = 0 then bindE (Curl_dyn_reset s) (\<lambda>s'. Inr (CURLE_OK, s'))
      else case bufr s of
             None \<Rightarrow> Inl NullDeref
           | Some cs \<Rightarrow>
               bindE (store cs 0 (take (unat trail) (drop (unat (leng s - trail)) cs)))
                 (\<lambda>cs1. bindE (terminate_at (s\<lparr>bufr := Some cs1, leng := trail\<rparr>) trail)
                   (\<lambda>s'. Inr (CURLE_OK, s'))))"

definition Curl_dyn_addn ::
  "(u32 \<Rightarrow> bool) \<Rightarrow> (nat \<Rightarrow> byte) \<Rightarrow> dynbuf \<Rightarrow> bytes \<Rightarrow> (CURLcode \<times> dynbuf) outcome option" where
  "Curl_dyn_addn alloc junk s mem = dyn_nappend alloc junk s mem"

definition Curl_dyn_add ::
  "(u32 \<Rightarrow> bool) \<Rightarrow> (nat \<Rightarrow> byte) \<Rightarrow> dynbuf \<Rightarrow> bytes \<Rightarrow> (CURLcode \<times> dynbuf) outcome option" where
  "Curl_dyn_add alloc junk s str = dyn_nappend alloc junk s (c_str str)"

definition Curl_dyn_ptr :: "dynbuf \<Rightarrow> bytes option" where
  "Curl_dyn_ptr s = bufr s"

definition Curl_dyn_uptr :: "dynbuf \<Rightarrow> bytes option" where
  "Curl_dyn_uptr s = bufr s"

definition Curl_dyn_len :: "dynbuf \<Rightarrow> u32" where
  "Curl_dyn_len s = leng s"

definition Curl_dyn_setlen :: "dynbuf \<Rightarrow> u32 \<Rightarrow> (CURLcode \<times> dynbuf) outcome" where
  "Curl_dyn_setlen s n =
     (if n > leng s then Inr (CURLE_BAD_FUNCTION_ARGUMENT, s)
      else bindE (terminate_at (s\<lparr>leng := n\<rparr>) n) (\<lambda>s'. Inr (CURLE_OK, s')))"

section \<open>The doubling loop\<close>

lemma grow_alloc_Some:
  assumes "0 < a" "unat fit \<le> 2 ^ 31"
  shows "\<exists>a'. grow_alloc a fit = Some a' \<and> fit \<le> a' \<and> a \<le> a'"
  using assms(1)
proof (induction "unat fit - unat a" arbitrary: a rule: less_induct)
  case less
  show ?case
  proof (cases "a < fit")
    case False
    then show ?thesis by (subst grow_alloc.simps) simp
  next
    case True
    then have lt: "unat a < unat fit" by (simp add: word_less_nat_alt)
    then have "unat (a * 2) = unat a * 2"
      using assms(2) by (simp add: unat_word_ariths)
    moreover have "0 < unat a" using less.prems by (simp add: word_less_nat_alt)
    ultimately have "unat fit - unat (a * 2) < unat fit - unat a" "0 < a * 2" "a \<le> a * 2"
      using lt by (simp_all add: word_less_nat_alt word_le_nat_alt)
    with less.hyps [of "a * 2"] obtain a' where "grow_alloc (a * 2) fit = Some a'" "fit \<le> a'" "a * 2 \<le> a'"
      by auto
    with True \<open>a \<le> a * 2\<close> show ?thesis by (subst grow_alloc.simps) (auto intro: order_trans)
  qed
qed

lemma grow_alloc_0: "0 < fit \<Longrightarrow> grow_alloc 0 fit = None"
proof (rule ccontr)
  assume "0 < fit" "grow_alloc 0 fit \<noteq> None"
  then obtain y where "grow_alloc 0 fit = Some y" by blast
  then have "\<not> (0 = (0 :: u32) \<and> 0 < fit)"
    by (rule grow_alloc.raw_induct [where P = "\<lambda>a fit y. \<not> (a = 0 \<and> 0 < fit)", rotated]) (auto split: if_splits)
  with \<open>0 < fit\<close> show False by simp
qed

section \<open>The buffer as a list\<close>

text \<open>
  What the assertions of the code say, and in addition that the limit is at most half of the
  address space, which keeps the doubling loop from wrapping around. All limits in libcurl are
  far below that.
\<close>

definition dyn_ok :: "dynbuf \<Rightarrow> bool" where
  "dyn_ok s \<longleftrightarrow>
     0 < unat (toobig s) \<and> unat (toobig s) \<le> 2 ^ 31 \<and>
     (case bufr s of
        None \<Rightarrow> leng s = 0 \<and> allc s = 0
      | Some cs \<Rightarrow> allc s \<noteq> 0 \<and> allc s \<le> toobig s \<and> length cs = unat (allc s) \<and>
          unat (leng s) < length cs \<and> cs ! unat (leng s) = 0)"

definition content :: "dynbuf \<Rightarrow> bytes" where
  "content s = (case bufr s of None \<Rightarrow> [] | Some cs \<Rightarrow> take (unat (leng s)) cs)"

lemma length_content: "dyn_ok s \<Longrightarrow> length (content s) = unat (leng s)"
  by (auto simp: dyn_ok_def content_def split: option.splits)

lemma dyn_init_ok: "0 < unat n \<Longrightarrow> unat n \<le> 2 ^ 31 \<Longrightarrow> dyn_ok (Curl_dyn_init n) \<and> content (Curl_dyn_init n) = []"
  by (simp add: dyn_ok_def Curl_dyn_init_def content_def)

lemma dyn_free_ok: "dyn_ok s \<Longrightarrow> dyn_ok (Curl_dyn_free s) \<and> content (Curl_dyn_free s) = [] \<and> toobig (Curl_dyn_free s) = toobig s"
  by (simp add: dyn_ok_def Curl_dyn_free_def content_def)

lemma new_alloc_ok:
  assumes "dyn_ok s" "fit \<le> toobig s" "0 < unat fit"
  shows "\<exists>a. new_alloc s fit = Some a \<and> fit \<le> a \<and> allc s \<le> a \<and> a \<le> toobig s"
proof (cases "allc s = 0")
  case True
  with assms show ?thesis by (auto simp: new_alloc_def MIN_FIRST_ALLOC_def)
next
  case False
  have "unat fit \<le> 2 ^ 31" using assms(1,2) by (simp add: dyn_ok_def word_le_nat_alt)
  with False obtain a where "grow_alloc (allc s) fit = Some a" "fit \<le> a" "allc s \<le> a"
    using grow_alloc_Some [of "allc s" fit] by (auto simp: word_neq_0_conv)
  with False assms show ?thesis by (auto simp: new_alloc_def dyn_ok_def split: option.splits)
qed

lemma store_Inr: "i + length mem \<le> length cs \<Longrightarrow> store cs i mem = Inr (take i cs @ mem @ drop (i + length mem) cs)"
  by (simp add: store_def)

text \<open>Appending after the current content, and the terminator behind it.\<close>

lemma store_twice:
  assumes "i + length mem < length cs"
  shows "bindE (store cs i mem) (\<lambda>cs1. store cs1 (i + length mem) [0]) =
    Inr (take i cs @ mem @ 0 # drop (i + length mem + 1) cs)"
  using assms by (simp add: store_Inr)

lemma dyn_nappend_cases:
  assumes "dyn_ok s" "length mem + unat (toobig s) < 2 ^ 32"
  shows "\<exists>c s'. dyn_nappend alloc junk s mem = Some (Inr (c, s')) \<and> dyn_ok s' \<and> toobig s' = toobig s \<and>
    (if unat (toobig s) < length (content s) + length mem + 1 then c = CURLE_TOO_LARGE \<and> content s' = []
     else c = CURLE_OK \<and> content s' = content s @ mem \<and> bufr s' \<noteq> None \<or>
       c = CURLE_OUT_OF_MEMORY \<and> content s' = [] \<and> (\<exists>a. \<not> alloc a))"
proof -
  let ?len = "of_nat (length mem) :: u32" and ?i = "leng s"
  let ?fit = "?len + ?i + 1"
  have i: "unat ?i < unat (toobig s)" using assms(1)
    by (auto simp: dyn_ok_def word_le_nat_alt split: option.splits)
  have len: "unat ?len = length mem" using assms(2) by (simp add: unat_of_nat_u32)
  have fin: "unat (?i + ?len) = unat ?i + length mem"
    using assms(2) i len by (simp add: unat_word_ariths)
  have fit: "unat ?fit = unat ?i + length mem + 1"
    using assms(2) i len by (simp add: unat_word_ariths)
  show ?thesis
  proof (cases "?fit > toobig s")
    case True
    then show ?thesis using dyn_free_ok [OF assms(1)] fit length_content [OF assms(1)]
      by (simp add: dyn_nappend_def word_less_nat_alt)
  next
    case False
    then have small: "\<not> unat (toobig s) < length (content s) + length mem + 1"
      using fit length_content [OF assms(1)] by (simp add: word_less_nat_alt)
    obtain a where a: "new_alloc s ?fit = Some a" "?fit \<le> a" "allc s \<le> a" "a \<le> toobig s"
      using new_alloc_ok [OF assms(1), of ?fit] False fit by (auto simp: not_less)
    show ?thesis
    proof (cases "a \<noteq> allc s \<and> \<not> alloc a")
      case True
      then show ?thesis using False small a dyn_free_ok [OF assms(1)]
        by (auto simp: dyn_nappend_def)
    next
      case alloc: False
      define s1 where "s1 = (if a \<noteq> allc s then s\<lparr>bufr := Some (realloc_buf junk (bufr s) a), allc := a\<rparr> else s)"
      obtain cs where cs: "bufr s1 = Some cs" "length cs = unat a" "take (unat ?i) cs = content s"
          "leng s1 = ?i" "allc s1 = a" "toobig s1 = toobig s"
      proof (cases "a = allc s")
        case True
        then have "allc s \<noteq> 0" using a(2) fit by auto
        with assms(1) True show ?thesis using that
          by (auto simp: s1_def dyn_ok_def content_def split: option.splits)
      next
        case False
        have "unat (allc s) \<le> unat a" using a(3) by (simp add: word_le_nat_alt)
        with False assms(1) show ?thesis
          by (intro that [of "realloc_buf junk (bufr s) a"])
            (auto simp: s1_def dyn_ok_def content_def realloc_buf_def Let_def split: option.splits)
      qed
      have room: "unat ?i + length mem < length cs" using a(2) fit cs(2) by (simp add: word_le_nat_alt)
      define s' where "s' = s1\<lparr>bufr := Some (content s @ mem @ 0 # drop (unat ?i + length mem + 1) cs), leng := ?i + ?len\<rparr>"
      have "dyn_nappend alloc junk s mem = Some (Inr (CURLE_OK, s'))"
        using False alloc a(1) cs room store_twice [OF room]
        by (auto simp: dyn_nappend_def s1_def [symmetric] s'_def fin bindE_Inr_iff Let_def bindE_assoc [symmetric])
      moreover have "dyn_ok s'" using assms(1) cs room a(2,4) fit length_content [OF assms(1)] fin
        by (auto simp: dyn_ok_def s'_def nth_append word_le_nat_alt)
      moreover have "content s' = content s @ mem"
        unfolding content_def [of s'] using length_content [OF assms(1)] fin by (simp add: s'_def)
      ultimately show ?thesis using small cs(6) by (auto simp: s'_def)
    qed
  qed
qed

lemma terminate_at_ok:
  assumes "dyn_ok s" "n \<le> leng s" "bufr s \<noteq> None"
  shows "\<exists>s'. terminate_at s n = Inr s' \<and> dyn_ok (s'\<lparr>leng := n\<rparr>) \<and> content (s'\<lparr>leng := n\<rparr>) = take (unat n) (content s) \<and>
    toobig s' = toobig s \<and> bufr s' \<noteq> None"
proof -
  from assms(3) obtain cs where cs: "bufr s = Some cs" by blast
  have n: "unat n \<le> unat (leng s)" "unat n < length cs"
    using assms(1,2) cs by (auto simp: dyn_ok_def word_le_nat_alt)
  with assms(1) cs show ?thesis
    by (auto simp: terminate_at_def store_def dyn_ok_def content_def nth_append min_def)
qed

lemma dyn_reset_ok:
  assumes "dyn_ok s"
  shows "\<exists>s'. Curl_dyn_reset s = Inr s' \<and> dyn_ok s' \<and> content s' = [] \<and> toobig s' = toobig s"
proof (cases "leng s = 0")
  case True
  with assms show ?thesis
    by (auto simp: Curl_dyn_reset_def dyn_ok_def content_def split: option.splits)
next
  case False
  then have "bufr s \<noteq> None" using assms by (auto simp: dyn_ok_def split: option.splits)
  from terminate_at_ok [OF assms _ this, of 0] False show ?thesis by (auto simp: Curl_dyn_reset_def)
qed

lemma dyn_setlen_ok:
  assumes "dyn_ok s" "bufr s \<noteq> None"
  shows "\<exists>c s'. Curl_dyn_setlen s n = Inr (c, s') \<and> dyn_ok s' \<and> toobig s' = toobig s \<and>
    (if length (content s) < unat n then c = CURLE_BAD_FUNCTION_ARGUMENT \<and> content s' = content s
     else c = CURLE_OK \<and> content s' = take (unat n) (content s))"
proof (cases "n > leng s")
  case True
  with assms show ?thesis by (simp add: Curl_dyn_setlen_def length_content word_less_nat_alt)
next
  case False
  then have n: "n \<le> leng s" by simp
  then have "terminate_at (s\<lparr>leng := n\<rparr>) n = map_sum id (\<lambda>s'. s'\<lparr>leng := n\<rparr>) (terminate_at s n)"
    by (auto simp: terminate_at_def bindE_def split: option.splits sum.splits)
  with terminate_at_ok [OF assms(1) n assms(2)] False show ?thesis
    by (auto simp: Curl_dyn_setlen_def length_content [OF assms(1)] word_less_nat_alt)
qed

text \<open>
  A buffer without memory does not allow to set its length, not even to the length zero that it
  has.
\<close>

lemma dyn_setlen_null: "Curl_dyn_setlen (Curl_dyn_init n) 0 = Inl NullDeref"
  by (simp add: Curl_dyn_setlen_def Curl_dyn_init_def terminate_at_def)

lemma dyn_tail_ok:
  assumes "dyn_ok s"
  shows "\<exists>c s'. Curl_dyn_tail s n = Inr (c, s') \<and> dyn_ok s' \<and> toobig s' = toobig s \<and>
    (if length (content s) < unat n then c = CURLE_BAD_FUNCTION_ARGUMENT \<and> content s' = content s
     else c = CURLE_OK \<and> content s' = drop (length (content s) - unat n) (content s))"
proof -
  consider "n > leng s" | "n = leng s" | "n = 0" "n \<noteq> leng s" | "0 < n" "n < leng s"
    by (metis linorder_cases word_neq_0_conv)
  then show ?thesis
  proof cases
    case 1
    with assms show ?thesis by (simp add: Curl_dyn_tail_def length_content word_less_nat_alt)
  next
    case 2
    with assms show ?thesis by (simp add: Curl_dyn_tail_def length_content)
  next
    case 3
    then have "\<not> n > leng s" by (metis not_less word_zero_le)
    with 3 dyn_reset_ok [OF assms] show ?thesis
      by (auto simp: Curl_dyn_tail_def length_content [OF assms])
  next
    case 4
    have sub: "unat (leng s - n) = unat (leng s) - unat n"
      using 4(2) by (simp add: unat_sub word_less_nat_alt word_le_nat_alt)
    have n: "0 < unat n" "unat n < unat (leng s)" using 4 by (simp_all add: word_less_nat_alt)
    obtain cs where cs: "bufr s = Some cs" "unat (leng s) < length cs"
      using assms n by (auto simp: dyn_ok_def split: option.splits)
    let ?t = "drop (unat (leng s) - unat n) (content s)"
    have t: "take (unat n) (drop (unat (leng s - n)) cs) = ?t"
      using cs n by (simp add: sub content_def take_drop)
    have len: "length ?t = unat n" using n by (simp add: length_content [OF assms])
    let ?s1 = "s\<lparr>bufr := Some (?t @ drop (unat n) cs), leng := n\<rparr>"
    have "Curl_dyn_tail s n = Inr (CURLE_OK, ?s1\<lparr>bufr := Some (?t @ 0 # drop (Suc (unat n)) cs)\<rparr>)"
      using 4 cs n len by (auto simp: Curl_dyn_tail_def t store_def terminate_at_def)
    moreover have "dyn_ok (?s1\<lparr>bufr := Some (?t @ 0 # drop (Suc (unat n)) cs)\<rparr>)"
      using assms cs n len by (auto simp: dyn_ok_def nth_append)
    moreover have "content (?s1\<lparr>bufr := Some (?t @ 0 # drop (Suc (unat n)) cs)\<rparr>) = ?t"
      unfolding content_def [of "?s1\<lparr>bufr := Some (?t @ 0 # drop (Suc (unat n)) cs)\<rparr>"] using len by simp
    ultimately show ?thesis using n by (simp add: length_content [OF assms])
  qed
qed

section \<open>Sequences of operations\<close>

datatype dyn_op = Addn bytes | Reset | Tail u32 | Free

fun run_dyn_op :: "(u32 \<Rightarrow> bool) \<Rightarrow> (nat \<Rightarrow> byte) \<Rightarrow> dyn_op \<Rightarrow> dynbuf \<Rightarrow> (CURLcode \<times> dynbuf) outcome option" where
  "run_dyn_op alloc junk (Addn m) s = Curl_dyn_addn alloc junk s m"
| "run_dyn_op alloc junk Reset s = Some (bindE (Curl_dyn_reset s) (\<lambda>s'. Inr (CURLE_OK, s')))"
| "run_dyn_op alloc junk (Tail n) s = Some (Curl_dyn_tail s n)"
| "run_dyn_op alloc junk Free s = Some (Inr (CURLE_OK, Curl_dyn_free s))"

fun run_dyn :: "(u32 \<Rightarrow> bool) \<Rightarrow> (nat \<Rightarrow> byte) \<Rightarrow> dyn_op list \<Rightarrow> dynbuf \<Rightarrow> (CURLcode list \<times> dynbuf) outcome option" where
  "run_dyn alloc junk [] s = Some (Inr ([], s))"
| "run_dyn alloc junk (p # ps) s =
     (case run_dyn_op alloc junk p s of
        None \<Rightarrow> None
      | Some (Inl f) \<Rightarrow> Some (Inl f)
      | Some (Inr (c, s')) \<Rightarrow>
          map_option (\<lambda>r. bindE r (\<lambda>(cs, s''). Inr (c # cs, s''))) (run_dyn alloc junk ps s'))"

text \<open>The buffer that they implement: a list with a limit that leaves room for the terminator.\<close>

fun spec_dyn_op :: "nat \<Rightarrow> dyn_op \<Rightarrow> bytes \<Rightarrow> CURLcode \<times> bytes" where
  "spec_dyn_op lim (Addn m) c = (if lim \<le> length c + length m then (CURLE_TOO_LARGE, []) else (CURLE_OK, c @ m))"
| "spec_dyn_op lim Reset c = (CURLE_OK, [])"
| "spec_dyn_op lim (Tail n) c =
     (if length c < unat n then (CURLE_BAD_FUNCTION_ARGUMENT, c) else (CURLE_OK, drop (length c - unat n) c))"
| "spec_dyn_op lim Free c = (CURLE_OK, [])"

fun spec_dyn :: "nat \<Rightarrow> dyn_op list \<Rightarrow> bytes \<Rightarrow> CURLcode list \<times> bytes" where
  "spec_dyn lim [] c = ([], c)"
| "spec_dyn lim (p # ps) c =
     (let (r, c') = spec_dyn_op lim p c; (rs, c'') = spec_dyn lim ps c' in (r # rs, c''))"

text \<open>A chunk whose length does not wrap around together with the limit.\<close>

fun op_fits :: "nat \<Rightarrow> dyn_op \<Rightarrow> bool" where
  "op_fits lim (Addn m) \<longleftrightarrow> length m + lim < 2 ^ 32"
| "op_fits lim p \<longleftrightarrow> True"

lemma run_dyn_op_refines:
  assumes "dyn_ok s" "op_fits (unat (toobig s)) p"
  shows "\<exists>c s'. run_dyn_op (\<lambda>_. True) junk p s = Some (Inr (c, s')) \<and> dyn_ok s' \<and> toobig s' = toobig s \<and>
    spec_dyn_op (unat (toobig s)) p (content s) = (c, content s')"
proof (cases p)
  case (Addn m)
  with dyn_nappend_cases [OF assms(1), of m "\<lambda>_. True" junk] assms(2) show ?thesis
    by (auto simp: Curl_dyn_addn_def split: if_splits)
next
  case Reset
  with dyn_reset_ok [OF assms(1)] show ?thesis by auto
next
  case (Tail n)
  with dyn_tail_ok [OF assms(1), of n] show ?thesis by (auto split: if_splits)
next
  case Free
  with dyn_free_ok [OF assms(1)] show ?thesis by simp
qed

lemma run_dyn_refines:
  "\<lbrakk>dyn_ok s; \<forall>p \<in> set ps. op_fits (unat (toobig s)) p\<rbrakk> \<Longrightarrow>
   \<exists>cs s'. run_dyn (\<lambda>_. True) junk ps s = Some (Inr (cs, s')) \<and> dyn_ok s' \<and>
     spec_dyn (unat (toobig s)) ps (content s) = (cs, content s')"
proof (induction ps arbitrary: s)
  case (Cons p ps)
  from run_dyn_op_refines [OF Cons.prems(1), of p junk] Cons.prems(2) obtain c s' where
    s': "run_dyn_op (\<lambda>_. True) junk p s = Some (Inr (c, s'))" "dyn_ok s'" "toobig s' = toobig s"
      "spec_dyn_op (unat (toobig s)) p (content s) = (c, content s')" by auto
  with Cons.IH [of s'] Cons.prems(2) show ?case by auto
qed simp

section \<open>Properties\<close>



end
