(* ===== verification/Curl_Base64.thy ===== *)
theory Curl_Base64
imports Base64 Curl_Dynbuf
begin

text \<open>
  The Base64 functions of libcurl, \<open>curl-8.6.0/lib/base64.c\<close>, next to the ones of the component
  in the theory \<open>Base64\<close>. \<open>malloc\<close> tells whether an allocation succeeds; a result is the
  result code with the memory that was allocated, from its start to the terminator, and the
  length that is reported.
\<close>

type_synonym b64_result = "CURLcode \<times> (bytes \<times> nat) option"

definition base64encdec :: bytes where
  "base64encdec = bytes_of ''ABCDEFGHIJKLMNOPQRSTUVWXYZabcdefghijklmnopqrstuvwxyz0123456789+/='' @ [0]"

definition base64url :: bytes where
  "base64url = bytes_of ''ABCDEFGHIJKLMNOPQRSTUVWXYZabcdefghijklmnopqrstuvwxyz0123456789-_'' @ [0]"

definition decodetable :: "byte list" where
  "decodetable =
    [62, 255, 255, 255, 63, 52, 53, 54, 55, 56, 57, 58, 59, 60, 61, 255, 255, 255,
     255, 255, 255, 255, 0, 1, 2, 3, 4, 5, 6, 7, 8, 9, 10, 11, 12, 13, 14, 15, 16,
     17, 18, 19, 20, 21, 22, 23, 24, 25, 255, 255, 255, 255, 255, 255, 26, 27, 28,
     29, 30, 31, 32, 33, 34, 35, 36, 37, 38, 39, 40, 41, 42, 43, 44, 45, 46, 47,
     48, 49, 50, 51]"

section \<open>Encoding\<close>

fun encode_loop :: "bytes \<Rightarrow> bytes \<Rightarrow> outbuf \<Rightarrow> (bytes \<times> outbuf) outcome" where
  "encode_loop table64 (i0 # i1 # i2 # inp) b =
     bindE (puts [table64 ! unat (drop_bit 2 i0),
                  table64 ! unat (push_bit 4 (i0 AND 0x03) OR drop_bit 4 i1),
                  table64 ! unat (push_bit 2 (i1 AND 0x0F) OR drop_bit 6 (i2 AND 0xC0)),
                  table64 ! unat (i2 AND 0x3F)] b)
       (encode_loop table64 inp)"
| "encode_loop table64 inp b = Inr (inp, b)"

definition encode_tail :: "bytes \<Rightarrow> bytes \<Rightarrow> outbuf \<Rightarrow> outbuf outcome" where
  "encode_tail table64 inp b =
     (let padstr = table64 ! 64 in
      case inp of
        [] \<Rightarrow> Inr b
      | [i0] \<Rightarrow>
          bindE (puts [table64 ! unat (drop_bit 2 i0), table64 ! unat (push_bit 4 (i0 AND 0x03))] b)
            (\<lambda>b. if padstr \<noteq> 0 then puts [padstr, padstr] b else Inr b)
      | i0 # i1 # _ \<Rightarrow>
          bindE (puts [table64 ! unat (drop_bit 2 i0),
                       table64 ! unat (push_bit 4 (i0 AND 0x03) OR drop_bit 4 (i1 AND 0xF0)),
                       table64 ! unat (push_bit 2 (i1 AND 0x0F))] b)
            (\<lambda>b. if padstr \<noteq> 0 then puts [padstr] b else Inr b))"

definition base64_encode :: "(nat \<Rightarrow> bool) \<Rightarrow> byte \<Rightarrow> bytes \<Rightarrow> bytes \<Rightarrow> nat \<Rightarrow> b64_result outcome" where
  "base64_encode malloc junk table64 inputbuff insize =
     (let insize = (if insize = 0 then strlen inputbuff else insize);
          size = (insize + 2) div 3 * 4 + 1 in
      if insize > 4294967295 div 4 then Inr (CURLE_OUT_OF_MEMORY, None)
      else if \<not> malloc size then Inr (CURLE_OUT_OF_MEMORY, None)
      else if length inputbuff < insize then Inl OobRead
      else bindE (encode_loop table64 (take insize inputbuff) \<lparr>cells = replicate size junk, pos = 0\<rparr>)
        (\<lambda>(rest, b). bindE (encode_tail table64 rest b)
          (\<lambda>b. bindE (put 0 b) (\<lambda>b'. Inr (CURLE_OK, Some (written b', pos b))))))"

definition Curl_base64_encode :: "(nat \<Rightarrow> bool) \<Rightarrow> byte \<Rightarrow> bytes \<Rightarrow> nat \<Rightarrow> b64_result outcome" where
  "Curl_base64_encode malloc junk inputbuff insize = base64_encode malloc junk base64encdec inputbuff insize"

definition Curl_base64url_encode :: "(nat \<Rightarrow> bool) \<Rightarrow> byte \<Rightarrow> bytes \<Rightarrow> nat \<Rightarrow> b64_result outcome" where
  "Curl_base64url_encode malloc junk inputbuff insize = base64_encode malloc junk base64url inputbuff insize"

section \<open>Decoding\<close>

text \<open>Counting the padding from the end; \<open>None\<close> when there are more than two padding characters.\<close>

fun count_padding :: "bytes \<Rightarrow> nat \<Rightarrow> nat option outcome" where
  "count_padding [] pad = Inl OobRead"
| "count_padding (c # cs) pad =
     (if c = eq_sign
      then if pad + 1 > 2 then Inr None else count_padding cs (pad + 1)
      else Inr (Some pad))"

definition decode_lookup :: "byte list" where
  "decode_lookup = (let start = replicate 256 0xFF in take 43 start @ decodetable @ drop (43 + length decodetable) start)"

text \<open>
  The value of a group of characters: \<open>None\<close> for a bad symbol. In the last group, the one with
  padding, a padding character counts as zero, and there may be no more of them than at the end.
\<close>

fun quantum :: "bytes \<Rightarrow> u32 \<Rightarrow> u32 option" where
  "quantum [] x = Some x"
| "quantum (c # cs) x =
     (let val = decode_lookup ! unat c in
      if val = 0xFF then None else quantum cs (push_bit 6 x OR ucast val))"

fun last_quantum :: "bytes \<Rightarrow> nat \<Rightarrow> nat \<Rightarrow> u32 \<Rightarrow> u32 option" where
  "last_quantum [] pad padc x = Some x"
| "last_quantum (c # cs) pad padc x =
     (if c = eq_sign
      then if padc + 1 > pad then None else last_quantum cs pad (padc + 1) (push_bit 6 x)
      else let val = decode_lookup ! unat c in
           if val = 0xFF then None else last_quantum cs pad padc (push_bit 6 x OR ucast val))"

definition byte2 :: "u32 \<Rightarrow> byte" where "byte2 x = ucast (x AND 0xFF)"
definition byte1 :: "u32 \<Rightarrow> byte" where "byte1 x = ucast (drop_bit 8 x AND 0xFF)"
definition byte0 :: "u32 \<Rightarrow> byte" where "byte0 x = ucast (drop_bit 16 x AND 0xFF)"

fun decode_loop :: "nat \<Rightarrow> bytes \<Rightarrow> outbuf \<Rightarrow> (bytes \<times> outbuf) option outcome" where
  "decode_loop 0 src b = Inr (Some (src, b))"
| "decode_loop (Suc n) src b =
     (if length src < 4 then Inl OobRead
      else case quantum (take 4 src) 0 of
             None \<Rightarrow> Inr None
           | Some x \<Rightarrow> bindE (puts [byte0 x, byte1 x, byte2 x] b) (decode_loop n (drop 4 src)))"

definition decode_last :: "nat \<Rightarrow> bytes \<Rightarrow> outbuf \<Rightarrow> outbuf option outcome" where
  "decode_last pad src b =
     (if pad = 0 then Inr (Some b)
      else if length src < 4 then Inl OobRead
      else case last_quantum (take 4 src) pad 0 0 of
             None \<Rightarrow> Inr None
           | Some x \<Rightarrow> bindE (puts (if pad = 1 then [byte0 x, byte1 x] else [byte0 x]) b) (\<lambda>b. Inr (Some b)))"

definition Curl_base64_decode :: "(nat \<Rightarrow> bool) \<Rightarrow> byte \<Rightarrow> bytes \<Rightarrow> b64_result outcome" where
  "Curl_base64_decode malloc junk src0 =
     (let src = c_str src0; srclen = length src in
      if srclen = 0 \<or> srclen mod 4 \<noteq> 0 then Inr (CURLE_BAD_CONTENT_ENCODING, None)
      else bindE (count_padding (rev src) 0)
        (\<lambda>r. case r of
               None \<Rightarrow> Inr (CURLE_BAD_CONTENT_ENCODING, None)
             | Some pad \<Rightarrow>
                 let numQuantums = srclen div 4;
                     fullQuantums = numQuantums - (if pad \<noteq> 0 then 1 else 0);
                     rawlen = numQuantums * 3 - pad in
                 if \<not> malloc (rawlen + 1) then Inr (CURLE_OUT_OF_MEMORY, None)
                 else bindE (decode_loop fullQuantums src \<lparr>cells = replicate (rawlen + 1) junk, pos = 0\<rparr>)
                   (\<lambda>r. case r of
                          None \<Rightarrow> Inr (CURLE_BAD_CONTENT_ENCODING, None)
                        | Some (rest, b) \<Rightarrow>
                            bindE (decode_last pad rest b)
                              (\<lambda>r. case r of
                                     None \<Rightarrow> Inr (CURLE_BAD_CONTENT_ENCODING, None)
                                   | Some b \<Rightarrow> bindE (put 0 b) (\<lambda>b'. Inr (CURLE_OK, Some (written b', rawlen)))))))"

section \<open>The encoder is the one of the standard\<close>

lemma digits:
  fixes x y z :: byte
  shows "[drop_bit 2 x, push_bit 4 (x AND 0x03) OR drop_bit 4 y,
      push_bit 2 (y AND 0x0F) OR drop_bit 6 (z AND 0xC0), z AND 0x3F] = a3_to_a4 [x, y, z]"
proof -
  have "drop_bit 2 x = drop_bit 2 (x AND 0xfc)"
    by (rule bit_word_eqI) (auto simp: byte_bits)
  moreover have "push_bit 4 (x AND 0x03) OR drop_bit 4 y = push_bit 4 (x AND 0x03) + drop_bit 4 (y AND 0xf0)"
    by (subst disjunctive_add) (auto intro!: bit_word_eqI simp: byte_bits)
  moreover have "push_bit 2 (y AND 0x0F) OR drop_bit 6 (z AND 0xC0) = push_bit 2 (y AND 0x0f) + drop_bit 6 (z AND 0xc0)"
    by (subst disjunctive_add) (auto intro!: bit_word_eqI simp: byte_bits)
  ultimately show ?thesis by (simp add: a3_to_a4_def nth3)
qed

lemma encdec_table: "base64encdec = kBase64Alphabet @ [eq_sign, 0]"
  by (simp add: base64encdec_def kBase64Alphabet_def)

lemma encdec_group:
  "[base64encdec ! unat (drop_bit 2 x), base64encdec ! unat (push_bit 4 (x AND 0x03) OR drop_bit 4 y),
    base64encdec ! unat (push_bit 2 (y AND 0x0F) OR drop_bit 6 (z AND 0xC0)), base64encdec ! unat (z AND 0x3F)] =
   rfc_group x y z"
proof -
  have "map (\<lambda>v. base64encdec ! unat v) (a3_to_a4 [x, y, z]) = map (\<lambda>v. kBase64Alphabet ! unat v) (a3_to_a4 [x, y, z])"
    using a3_to_a4_less_64 [of x y z]
    by (intro map_cong) (auto simp: encdec_table nth_append length_alphabet list_all_iff)
  then show ?thesis unfolding a3_to_a4_rfc by (simp only: digits [symmetric] list.map)
qed

lemma encdec_pad: "base64encdec ! 64 = eq_sign"
  unfolding encdec_table by (simp add: nth_append length_alphabet)

lemma eq_sign_ne: "eq_sign \<noteq> 0" by simp

lemma encode_puts:
  "bindE (encode_loop base64encdec inp b) (\<lambda>(rest, b). encode_tail base64encdec rest b) = puts (rfc_encode inp) b"
proof (induction inp arbitrary: b rule: rfc_encode.induct)
  case 1
  then show ?case by (simp add: encode_tail_def)
next
  case (2 x)
  have "take 2 (rfc_group x 0 0) = [base64encdec ! unat (drop_bit 2 x), base64encdec ! unat (push_bit 4 (x AND 0x03))]"
    unfolding encdec_group [symmetric] by (simp add: numeral_2_eq_2)
  then show ?case
    by (simp only: encode_loop.simps bindE_simps prod.case encode_tail_def encdec_pad Let_def list.case rfc_encode.simps
        puts_append eq_sign_ne simp_thms if_True)
next
  case (3 x y)
  have "drop_bit 4 (y AND 0xF0) = drop_bit 4 y" by (rule bit_word_eqI) (auto simp: byte_bits)
  then have "take 3 (rfc_group x y 0) = [base64encdec ! unat (drop_bit 2 x),
      base64encdec ! unat (push_bit 4 (x AND 0x03) OR drop_bit 4 (y AND 0xF0)), base64encdec ! unat (push_bit 2 (y AND 0x0F))]"
    unfolding encdec_group [symmetric] by (simp add: numeral_3_eq_3)
  then show ?case
    by (simp only: encode_loop.simps bindE_simps prod.case encode_tail_def encdec_pad Let_def list.case rfc_encode.simps
        puts_append eq_sign_ne simp_thms if_True)
next
  case (4 x y z rest)
  show ?case
    by (simp only: encode_loop.simps encdec_group rfc_encode.simps puts_append bindE_assoc 4)
qed

lemma Curl_base64_encode_rfc:
  assumes "inp \<noteq> []" "length inp \<le> 1073741823"
  shows "Curl_base64_encode (\<lambda>_. True) junk inp (length inp) =
    Inr (CURLE_OK, Some (rfc_encode inp @ [0], length (rfc_encode inp)))"
proof -
  let ?n = "(length inp + 2) div 3 * 4 + 1"
  let ?b = "\<lparr>cells = replicate ?n junk, pos = 0\<rparr>"
  have "length (rfc_encode inp) + 1 = ?n" by (simp add: length_rfc_encode)
  with puts_ok [of ?b "rfc_encode inp"] obtain b where
    b: "puts (rfc_encode inp) ?b = Inr b" "length (cells b) = ?n" "pos b = length (rfc_encode inp)"
      "written b = rfc_encode inp" by (auto simp: written_def)
  with put_ok [of b 0] \<open>length (rfc_encode inp) + 1 = ?n\<close> obtain b' where
    b': "put 0 b = Inr b'" "written b' = rfc_encode inp @ [0]" by auto
  from b(1) have "bindE (encode_loop base64encdec inp ?b) (\<lambda>(rest, b). encode_tail base64encdec rest b) = Inr b"
    by (simp only: encode_puts)
  then obtain r b0 where "encode_loop base64encdec inp ?b = Inr (r, b0)" "encode_tail base64encdec r b0 = Inr b"
    by (auto simp: bindE_Inr_iff)
  with b b' assms show ?thesis by (simp add: Curl_base64_encode_def base64_encode_def Let_def)
qed

section \<open>What a text in Base64 stands for\<close>

fun rfc_decode :: "bytes \<Rightarrow> bytes" where
  "rfc_decode (p # q # r # s # vs) = a4_to_a3 [p, q, r, s] @ rfc_decode vs"
| "rfc_decode [p, q, r] = take 2 (a4_to_a3 [p, q, r, 0])"
| "rfc_decode [p, q] = take 1 (a4_to_a3 [p, q, 0, 0])"
| "rfc_decode vs = []"

abbreviation digit :: "byte \<Rightarrow> bool" where "digit c \<equiv> b64_lookup c \<noteq> 0xFF"

definition b64_text :: "bytes \<Rightarrow> bool" where
  "b64_text src \<longleftrightarrow> src \<noteq> [] \<and> length src mod 4 = 0 \<and> length src \<le> length (StripPadding src) + 2 \<and>
     list_all digit (StripPadding src)"

definition b64_value :: "bytes \<Rightarrow> bytes" where
  "b64_value src = rfc_decode (map b64_lookup (StripPadding src))"

section \<open>Groups of four characters\<close>

lemma byte_table: "t = map (\<lambda>n. f (word_of_nat n)) [0..<k] \<Longrightarrow> unat (c :: byte) < k \<Longrightarrow> t ! unat c = f c"
  by simp

lemma decode_lookup_eq [simp]: "decode_lookup ! unat c = b64_lookup c"
proof (rule byte_table)
  show "decode_lookup = map (\<lambda>n. b64_lookup (word_of_nat n)) [0..<256]" by code_simp
qed simp

lemma digit_eq_sign: "\<not> digit eq_sign" by (simp add: b64_lookup_def)

lemma digit_mask: "digit c \<Longrightarrow> b64_lookup c = b64_lookup c AND 0x3F"
proof -
  assume "digit c"
  have "unat (b64_lookup c) < 64"
    using \<open>digit c\<close> by (auto simp: b64_lookup_def word_le_nat_alt unat_sub unat_word_ariths split: if_splits)
  then show ?thesis using unat_and_mask [of "b64_lookup c" 6] by (simp add: word_unat_eq_iff)
qed

definition pack :: "u32 \<Rightarrow> bytes \<Rightarrow> u32" where
  "pack = foldl (\<lambda>x v. push_bit 6 x OR ucast v)"

lemma byte_cases:
  assumes "n < (8 :: nat)" "P 0" "P 1" "P 2" "P 3" "P 4" "P 5" "P 6" "P 7"
  shows "P n"
  using assms by (auto simp: less_8_cases)

lemma pack_bytes:
  "[byte0 (pack 0 [p AND 0x3F, q AND 0x3F, r AND 0x3F, s AND 0x3F]), byte1 (pack 0 [p AND 0x3F, q AND 0x3F, r AND 0x3F, s AND 0x3F]),
    byte2 (pack 0 [p AND 0x3F, q AND 0x3F, r AND 0x3F, s AND 0x3F])] = a4_to_a3 [p AND 0x3F, q AND 0x3F, r AND 0x3F, s AND 0x3F]"
proof -
  have "byte0 (pack 0 [p AND 0x3F, q AND 0x3F, r AND 0x3F, s AND 0x3F]) = push_bit 2 (p AND 0x3F) OR drop_bit 4 ((q AND 0x3F) AND 0x30)"
    unfolding byte0_def pack_def foldl.simps
    by (rule bit_word_eqI, simp, erule byte_cases) (simp_all add: bit_simps byte_bit_ge)
  moreover have "byte1 (pack 0 [p AND 0x3F, q AND 0x3F, r AND 0x3F, s AND 0x3F]) = push_bit 4 ((q AND 0x3F) AND 0xf) OR drop_bit 2 ((r AND 0x3F) AND 0x3c)"
    unfolding byte1_def pack_def foldl.simps
    by (rule bit_word_eqI, simp, erule byte_cases) (simp_all add: bit_simps byte_bit_ge)
  moreover have "byte2 (pack 0 [p AND 0x3F, q AND 0x3F, r AND 0x3F, s AND 0x3F]) = push_bit 6 ((r AND 0x3F) AND 0x3) OR (s AND 0x3F)"
    unfolding byte2_def pack_def foldl.simps
    by (rule bit_word_eqI, simp, erule byte_cases) (simp_all add: bit_simps byte_bit_ge)
  moreover have "push_bit 2 (p AND 0x3F) OR drop_bit 4 ((q AND 0x3F) AND 0x30) = push_bit 2 (p AND 0x3F) + drop_bit 4 ((q AND 0x3F) AND 0x30)"
    "push_bit 4 ((q AND 0x3F) AND 0xf) OR drop_bit 2 ((r AND 0x3F) AND 0x3c) = push_bit 4 ((q AND 0x3F) AND 0xf) + drop_bit 2 ((r AND 0x3F) AND 0x3c)"
    "push_bit 6 ((r AND 0x3F) AND 0x3) OR (s AND 0x3F) = push_bit 6 ((r AND 0x3F) AND 0x3) + (s AND 0x3F)"
    by (rule disjunctive_add [symmetric]; auto simp: byte_bits)+
  ultimately show ?thesis by (simp only: a4_to_a3_def nth4)
qed

lemma pack_group:
  assumes "digit p" "digit q" "digit r" "digit s"
  shows "[byte0 (pack 0 (map b64_lookup [p, q, r, s])), byte1 (pack 0 (map b64_lookup [p, q, r, s])),
    byte2 (pack 0 (map b64_lookup [p, q, r, s]))] = a4_to_a3 (map b64_lookup [p, q, r, s])"
  using pack_bytes [of "b64_lookup p" "b64_lookup q" "b64_lookup r" "b64_lookup s"]
  by (simp only: digit_mask [OF assms(1), symmetric] digit_mask [OF assms(2), symmetric] digit_mask [OF assms(3), symmetric]
      digit_mask [OF assms(4), symmetric] list.map)

lemma pack_last:
  assumes "digit p" "digit q"
  shows "digit r \<Longrightarrow> [byte0 (pack 0 [b64_lookup p, b64_lookup q, b64_lookup r, 0]), byte1 (pack 0 [b64_lookup p, b64_lookup q, b64_lookup r, 0])]
      = take 2 (a4_to_a3 [b64_lookup p, b64_lookup q, b64_lookup r, 0])"
    and "[byte0 (pack 0 [b64_lookup p, b64_lookup q, 0, 0])] = take 1 (a4_to_a3 [b64_lookup p, b64_lookup q, 0, 0])"
  using pack_bytes [of "b64_lookup p" "b64_lookup q" "b64_lookup r" 0] pack_bytes [of "b64_lookup p" "b64_lookup q" 0 0] assms
  by (simp_all add: digit_mask [symmetric] a4_to_a3_def)

lemma quantum_eq: "quantum cs x = (if list_all digit cs then Some (pack x (map b64_lookup cs)) else None)"
  by (induction cs arbitrary: x) (simp_all add: pack_def Let_def)

lemma last_quantum_eq:
  "r \<noteq> eq_sign \<Longrightarrow> last_quantum [p, q, r, eq_sign] 1 0 0 =
     (if digit p \<and> digit q \<and> digit r then Some (pack 0 [b64_lookup p, b64_lookup q, b64_lookup r, 0]) else None)"
  "q \<noteq> eq_sign \<Longrightarrow> last_quantum [p, q, eq_sign, eq_sign] 2 0 0 =
     (if digit p \<and> digit q then Some (pack 0 [b64_lookup p, b64_lookup q, 0, 0]) else None)"
  using digit_eq_sign by (auto simp: Let_def pack_def)

lemma rfc_decode_append: "length vs = 4 * n \<Longrightarrow> rfc_decode (vs @ ws) = rfc_decode vs @ rfc_decode ws"
proof (induction n arbitrary: vs)
  case (Suc n)
  then have "length vs = Suc (Suc (Suc (Suc (4 * n))))" by simp
  then obtain p q r s us where "vs = p # q # r # s # us" by (auto simp only: length_Suc_conv)
  with Suc show ?case by simp
qed simp

lemma length_rfc_decode: "length vs = 4 * n \<Longrightarrow> length (rfc_decode vs) = 3 * n"
proof (induction n arbitrary: vs)
  case (Suc n)
  then have "length vs = Suc (Suc (Suc (Suc (4 * n))))" by simp
  then obtain p q r s us where "vs = p # q # r # s # us" by (auto simp only: length_Suc_conv)
  with Suc show ?case by (simp add: a4_to_a3_def)
qed simp

section \<open>The loops of the decoder\<close>

lemma count_padding_eq:
  "n \<le> 2 \<Longrightarrow> 3 \<le> n + length cs \<Longrightarrow> count_padding cs n =
     (let k = n + length (takeWhile ((=) eq_sign) cs) in Inr (if k \<le> 2 then Some k else None))"
proof (induction cs arbitrary: n)
  case (Cons c cs)
  show ?case
  proof (cases "c = eq_sign \<and> n + 1 \<le> 2")
    case True
    with Cons.IH [of "n + 1"] Cons.prems show ?thesis by (simp add: Let_def)
  next
    case False
    with Cons.prems show ?thesis by (auto simp: Let_def)
  qed
qed simp

lemma decode_loop_eq:
  assumes "4 * n \<le> length src" "pos b + 3 * n \<le> length (cells b)"
  shows "decode_loop n src b =
    (if list_all digit (take (4 * n) src)
     then bindE (puts (rfc_decode (map b64_lookup (take (4 * n) src))) b) (\<lambda>b. Inr (Some (drop (4 * n) src, b)))
     else Inr None)"
  using assms
proof (induction n arbitrary: src b)
  case (Suc n)
  from Suc.prems(1) have "Suc (Suc (Suc (Suc (4 * n)))) \<le> length src" by simp
  then obtain p q r s rest where src: "src = p # q # r # s # rest" "4 * n \<le> length rest"
    by (auto simp: Suc_le_length_iff)
  have four: "4 * Suc n = Suc (Suc (Suc (Suc (4 * n))))" by simp
  have t: "take (4 * Suc n) src = [p, q, r, s] @ take (4 * n) rest" "drop (4 * Suc n) src = drop (4 * n) rest"
    unfolding src(1) four by simp_all
  let ?g = "map b64_lookup [p, q, r, s]"
  show ?case
  proof (cases "list_all digit [p, q, r, s]")
    case True
    then have g: "[byte0 (pack 0 ?g), byte1 (pack 0 ?g), byte2 (pack 0 ?g)] = a4_to_a3 ?g"
      by (intro pack_group) simp_all
    have l: "length (a4_to_a3 ?g) = 3" by (simp add: a4_to_a3_def)
    from puts_ok [of b "a4_to_a3 ?g"] l Suc.prems(2) obtain b' where
      b': "puts (a4_to_a3 ?g) b = Inr b'" "length (cells b') = length (cells b)" "pos b' = pos b + 3" by auto
    have "decode_loop (Suc n) src b = decode_loop n rest b'"
      using True g b'(1) by (simp add: src(1) quantum_eq del: puts.simps)
    also have "\<dots> = (if list_all digit (take (4 * n) rest)
        then bindE (puts (rfc_decode (map b64_lookup (take (4 * n) rest))) b') (\<lambda>b. Inr (Some (drop (4 * n) rest, b)))
        else Inr None)"
      using Suc.prems(2) b' src(2) by (intro Suc.IH) simp_all
    finally show ?thesis using True b'(1) unfolding t by (simp add: puts_append)
  next
    case False
    then have "quantum (take 4 src) 0 = None" by (simp add: src(1) quantum_eq)
    then have "decode_loop (Suc n) src b = Inr None" using Suc.prems(1) by simp
    moreover have "\<not> list_all digit (take (4 * Suc n) src)" unfolding t using False by auto
    ultimately show ?thesis by (simp only: if_False)
  qed
qed simp

definition last_group :: "nat \<Rightarrow> bytes \<Rightarrow> bool" where
  "last_group k cs \<longleftrightarrow> (k = 0 \<and> cs = []) \<or> ((k = 1 \<or> k = 2) \<and> length cs = 4 - k \<and> last cs \<noteq> eq_sign)"

lemma last_group_cases:
  assumes "last_group k cs"
  obtains "k = 0" "cs = []" | p q r where "k = 1" "cs = [p, q, r]" "r \<noteq> eq_sign"
    | p q where "k = 2" "cs = [p, q]" "q \<noteq> eq_sign"
  using assms by (auto simp: last_group_def length_Suc_conv numeral_2_eq_2 numeral_3_eq_3)

lemma decode_last_eq:
  assumes "last_group k cs"
  shows "decode_last k (cs @ replicate k eq_sign) b =
    (if list_all digit cs then bindE (puts (rfc_decode (map b64_lookup cs)) b) (\<lambda>b. Inr (Some b)) else Inr None)"
  using assms
proof (cases rule: last_group_cases)
  case 1
  then show ?thesis by (simp add: decode_last_def)
next
  case (2 p q r)
  then show ?thesis using pack_last(1) [of p q r]
    by (auto simp: decode_last_def last_quantum_eq [unfolded One_nat_def] simp del: last_quantum.simps puts.simps)
next
  case (3 p q)
  then show ?thesis using pack_last(2) [of p q]
    by (auto simp: decode_last_def last_quantum_eq [unfolded numeral_2_eq_2] numeral_2_eq_2 simp del: last_quantum.simps puts.simps)
qed

lemma length_last_group: "last_group k cs \<Longrightarrow> length (rfc_decode (map b64_lookup cs)) = (if k = 0 then 0 else 3 - k)"
  by (erule last_group_cases) (simp_all add: a4_to_a3_def)

lemma last_group_length: "last_group k cs \<Longrightarrow> k \<le> 2 \<and> length cs = (if k = 0 then 0 else 4 - k)"
  by (erule last_group_cases) simp_all

lemma strip_padding:
  "s = StripPadding s @ replicate (length (takeWhile ((=) eq_sign) (rev s))) eq_sign"
  "StripPadding s \<noteq> [] \<Longrightarrow> last (StripPadding s) \<noteq> eq_sign"
proof -
  have "StripPadding_rev t = dropWhile ((=) eq_sign) t" for t by (induction t) auto
  then have S: "StripPadding s = rev (dropWhile ((=) eq_sign) (rev s))" by (simp add: StripPadding_def)
  have "takeWhile ((=) eq_sign) (rev s) = replicate (length (takeWhile ((=) eq_sign) (rev s))) eq_sign"
    by (metis (mono_tags, lifting) replicate_length_same set_takeWhileD)
  then have "rev s = replicate (length (takeWhile ((=) eq_sign) (rev s))) eq_sign @ rev (StripPadding s)"
    unfolding S by (metis rev_rev_ident takeWhile_dropWhile_id)
  then show "s = StripPadding s @ replicate (length (takeWhile ((=) eq_sign) (rev s))) eq_sign"
    by (metis rev_append rev_replicate rev_rev_ident)
  show "StripPadding s \<noteq> [] \<Longrightarrow> last (StripPadding s) \<noteq> eq_sign"
    unfolding S using hd_dropWhile [of "(=) eq_sign" "rev s"] by (auto simp: last_rev)
qed

lemma decode_eq:
  assumes "src = S1 @ cs @ replicate k eq_sign" "last_group k cs" "length S1 = 4 * n" "src \<noteq> []" "0 \<notin> set src"
    and k: "length (takeWhile ((=) eq_sign) (rev src)) = k"
  shows "Curl_base64_decode (\<lambda>_. True) junk src =
    Inr (if list_all digit (S1 @ cs)
         then (CURLE_OK, Some (rfc_decode (map b64_lookup (S1 @ cs)) @ [0], length (rfc_decode (map b64_lookup (S1 @ cs)))))
         else (CURLE_BAD_CONTENT_ENCODING, None))"
proof -
  let ?v = "rfc_decode (map b64_lookup S1)" and ?w = "rfc_decode (map b64_lookup cs)"
  let ?q = "n + (if k = 0 then 0 else 1)"
  have k2: "k \<le> 2" and len: "length src = 4 * ?q" and raw: "3 * ?q - k = length ?v + length ?w"
    using assms(1,3) length_rfc_decode [of "map b64_lookup S1" n] length_last_group [OF assms(2)] last_group_length [OF assms(2)]
    by simp_all
  have "length src = 4 * Q \<Longrightarrow> Q \<noteq> 0 \<and> length src div 4 = Q \<and> length src mod 4 = 0 \<and> 3 \<le> length src" for Q
    using assms(4) by (cases Q) auto
  from this [OF len] have q: "length src div 4 = ?q" "length src mod 4 = 0" "3 \<le> length src" by blast+
  have full: "length src div 4 - (if k \<noteq> 0 then 1 else 0) = n" unfolding q(1) by simp
  have rawlen: "length src div 4 * 3 - k = length ?v + length ?w" unfolding q(1) using raw by (simp only: mult.commute)
  have cp: "count_padding (rev src) 0 = Inr (Some k)"
    using count_padding_eq [of 0 "rev src"] q(3) k k2 by (simp add: Let_def)
  let ?b = "\<lparr>cells = replicate (length ?v + length ?w + 1) junk, pos = 0\<rparr>"
  have v: "length ?v = 3 * n" using length_rfc_decode [of "map b64_lookup S1" n] assms(3) by simp
  have loop: "decode_loop n src ?b = (if list_all digit S1 then bindE (puts ?v ?b) (\<lambda>b. Inr (Some (cs @ replicate k eq_sign, b))) else Inr None)"
    using decode_loop_eq [of n src ?b] assms(1,3) v by simp
  have app: "rfc_decode (map b64_lookup (S1 @ cs)) = ?v @ ?w" using assms(3) by (simp add: rfc_decode_append [of _ n])
  from puts_ok [of ?b ?v] obtain b1 where b1: "puts ?v ?b = Inr b1" "length (cells b1) = length ?v + length ?w + 1"
    "pos b1 = length ?v" "written b1 = ?v" by (auto simp: written_def)
  from puts_ok [of b1 ?w] b1 obtain b2 where b2: "puts ?w b1 = Inr b2" "length (cells b2) = length ?v + length ?w + 1"
    "pos b2 = length ?v + length ?w" "written b2 = ?v @ ?w" by auto
  from put_ok [of b2 0] b2 obtain b3 where b3: "put 0 b2 = Inr b3" "written b3 = (?v @ ?w) @ [0]" by auto
  have "Curl_base64_decode (\<lambda>_. True) junk src =
    bindE (decode_loop n src ?b)
      (\<lambda>r. case r of
             None \<Rightarrow> Inr (CURLE_BAD_CONTENT_ENCODING, None)
           | Some (rest, b) \<Rightarrow>
               bindE (decode_last k rest b)
                 (\<lambda>r. case r of
                        None \<Rightarrow> Inr (CURLE_BAD_CONTENT_ENCODING, None)
                      | Some b \<Rightarrow> bindE (put 0 b) (\<lambda>b'. Inr (CURLE_OK, Some (written b', length ?v + length ?w)))))"
    unfolding Curl_base64_decode_def
    by (simp only: Let_def c_str_id [OF assms(5)] cp full rawlen q(2) bindE_simps option.case length_0_conv assms(4) simp_thms if_False)
  then show ?thesis
    using b1 b2 b3 unfolding loop app by (simp add: decode_last_eq [OF assms(2)])
qed

text \<open>Every text of a suitable length is a number of full groups, a last group and padding.\<close>

lemma b64_parts:
  assumes "s \<noteq> []" "length s mod 4 = 0" "length s \<le> length (StripPadding s) + 2"
  obtains S1 cs k n where "s = S1 @ cs @ replicate k eq_sign" "last_group k cs" "length S1 = 4 * n"
    "StripPadding s = S1 @ cs" "length (takeWhile ((=) eq_sign) (rev s)) = k"
proof -
  define k where "k = length (takeWhile ((=) eq_sign) (rev s))"
  define S where "S = StripPadding s"
  from strip_padding(1) [of s] have s: "s = S @ replicate k eq_sign" by (simp only: S_def k_def)
  then have l: "length s = length S + k" by simp
  with assms(3) have "k \<le> 2" by (simp add: S_def)
  have "4 dvd length s" using assms(2) by (simp only: dvd_eq_mod_eq_0)
  then obtain q where q: "length s = 4 * q" by (rule dvdE)
  have "q \<noteq> 0" using assms(1) q by (intro notI) simp
  then obtain m where m: "q = Suc m" by (cases q) auto
  define n where "n = q - (if k = 0 then 0 else 1)"
  define T where "T = drop (4 * n) S"
  have len: "length (take (4 * n) S) = 4 * n" "length T = (if k = 0 then 0 else 4 - k)"
    using l q \<open>k \<le> 2\<close> by (simp add: n_def m, simp add: n_def T_def m, arith)
  have "last T \<noteq> eq_sign" if "k \<noteq> 0"
  proof -
    have "0 < length T" using that len(2) \<open>k \<le> 2\<close> by simp
    then have "T \<noteq> []" by (rule length_greater_0_conv [THEN iffD1])
    then have "last T = last S" "S \<noteq> []" by (auto simp: T_def)
    then show ?thesis using strip_padding(2) [of s] by (simp add: S_def)
  qed
  moreover have "k = 0 \<or> k = 1 \<or> k = 2" using \<open>k \<le> 2\<close> by arith
  ultimately have "last_group k T" using len(2) by (auto simp: last_group_def)
  show ?thesis
  proof (rule that)
    show "s = take (4 * n) S @ T @ replicate k eq_sign" using s by (simp add: T_def)
    show "StripPadding s = take (4 * n) S @ T" by (simp add: T_def S_def)
  qed (simp_all only: k_def [symmetric] len \<open>last_group k T\<close>)
qed

lemma Curl_base64_decode_value:
  "Curl_base64_decode (\<lambda>_. True) junk src =
     Inr (if b64_text (c_str src) then (CURLE_OK, Some (b64_value (c_str src) @ [0], length (b64_value (c_str src))))
          else (CURLE_BAD_CONTENT_ENCODING, None))"
proof -
  let ?s = "c_str src"
  have eq: "Curl_base64_decode (\<lambda>_. True) junk src = Curl_base64_decode (\<lambda>_. True) junk ?s"
    by (simp add: Curl_base64_decode_def)
  show ?thesis
  proof (cases "?s \<noteq> [] \<and> length ?s mod 4 = 0")
    case False
    then have c: "(length ?s = 0 \<or> length ?s mod 4 \<noteq> 0) = True" and "b64_text ?s = False" by (auto simp: b64_text_def)
    then show ?thesis by (simp only: Curl_base64_decode_def Let_def c if_True if_False)
  next
    case True
    show ?thesis
    proof (cases "length ?s \<le> length (StripPadding ?s) + 2")
      case le: True
      obtain S1 cs k n where p: "?s = S1 @ cs @ replicate k eq_sign" "last_group k cs" "length S1 = 4 * n"
        "StripPadding ?s = S1 @ cs" "length (takeWhile ((=) eq_sign) (rev ?s)) = k"
        by (rule b64_parts [OF conjunct1 [OF True] conjunct2 [OF True] le])
      have "b64_text ?s = list_all digit (S1 @ cs)" using True le p(4) by (simp only: b64_text_def simp_thms)
      then show ?thesis
        using decode_eq [OF p(1-3) conjunct1 [OF True] c_str_no_nul p(5), of junk]
        by (simp only: eq b64_value_def p(4))
    next
      case False
      have "length ?s = length (StripPadding ?s) + length (takeWhile ((=) eq_sign) (rev ?s))"
        using arg_cong [OF strip_padding(1) [of ?s], of length] by simp
      with False have "\<not> length (takeWhile ((=) eq_sign) (rev ?s)) \<le> 2" by simp
      moreover have "4 \<le> length ?s" using True by (intro leI notI) simp
      ultimately have "count_padding (rev ?s) 0 = Inr None" using count_padding_eq [of 0 "rev ?s"] by (simp add: Let_def)
      moreover have c: "(length ?s = 0 \<or> length ?s mod 4 \<noteq> 0) = False" using True by simp
      moreover have "b64_text ?s = False" using False by (simp add: b64_text_def)
      ultimately show ?thesis by (simp only: Curl_base64_decode_def Let_def if_False bindE_simps option.case)
    qed
  qed
qed

section \<open>The decoder of the component\<close>

lemma dec_loop_digits:
  assumes "length S1 = 4 * n" "list_all digit S1"
  shows "dec_loop (S1 @ t) [] b = bindE (puts (rfc_decode (map b64_lookup S1)) b) (dec_loop t [])"
  using assms
proof (induction n arbitrary: S1 b)
  case (Suc n)
  then have "length S1 = Suc (Suc (Suc (Suc (4 * n))))" by simp
  then obtain p q r s us where S1: "S1 = p # q # r # s # us" "length us = 4 * n" by (auto simp only: length_Suc_conv)
  have ne: "p \<noteq> eq_sign" "q \<noteq> eq_sign" "r \<noteq> eq_sign" "s \<noteq> eq_sign"
    using Suc.prems(2) digit_eq_sign by (auto simp: S1(1))
  have "dec_loop (us @ t) [] = (\<lambda>b. bindE (puts (rfc_decode (map b64_lookup us)) b) (dec_loop t []))"
    using Suc.IH [OF S1(2)] Suc.prems(2) by (simp add: S1(1) fun_eq_iff)
  then show ?case using ne by (simp add: S1(1) puts_append bindE_assoc del: puts.simps)
qed simp

lemma dec_last_digits:
  assumes "last_group k cs" "list_all digit cs"
  shows "bindE (dec_loop (cs @ replicate k eq_sign) [] b) (\<lambda>(a4, b). dec_tail a4 b) = puts (rfc_decode (map b64_lookup cs)) b"
  using assms(1)
proof (cases rule: last_group_cases)
  case (2 p q r)
  then have "p \<noteq> eq_sign" "q \<noteq> eq_sign" using assms(2) digit_eq_sign by auto
  moreover have "take 2 (a4_to_a3 [b64_lookup p, b64_lookup q, b64_lookup r, b64_lookup 0]) = take 2 (a4_to_a3 [b64_lookup p, b64_lookup q, b64_lookup r, 0])" by (simp add: a4_to_a3_def)
  ultimately show ?thesis using 2 by (simp add: dec_tail_def numeral_2_eq_2 numeral_3_eq_3 del: puts.simps)
next
  case (3 p q)
  then have "p \<noteq> eq_sign" using assms(2) digit_eq_sign by auto
  moreover have "take 1 (a4_to_a3 [b64_lookup p, b64_lookup q, b64_lookup 0, b64_lookup 0]) = take 1 (a4_to_a3 [b64_lookup p, b64_lookup q, 0, 0])" by (simp add: a4_to_a3_def)
  ultimately show ?thesis using 3 by (simp add: dec_tail_def numeral_2_eq_2 numeral_3_eq_3 del: puts.simps)
qed (simp add: dec_tail_def)

lemma dec_all_value:
  assumes "s = S1 @ cs @ replicate k eq_sign" "last_group k cs" "length S1 = 4 * n" "list_all digit (S1 @ cs)"
  shows "dec_all s b = puts (rfc_decode (map b64_lookup (S1 @ cs))) b"
proof -
  have d: "list_all digit S1" "list_all digit cs" using assms(4) by simp_all
  have "dec_all s b = bindE (puts (rfc_decode (map b64_lookup S1)) b)
      (\<lambda>b. bindE (dec_loop (cs @ replicate k eq_sign) [] b) (\<lambda>(a4, b). dec_tail a4 b))"
    by (simp add: dec_all_def assms(1) dec_loop_digits [OF assms(3) d(1)] bindE_assoc)
  also have "\<dots> = puts (rfc_decode (map b64_lookup S1) @ rfc_decode (map b64_lookup cs)) b"
    by (simp only: dec_last_digits [OF assms(2) d(2)] puts_append)
  finally show ?thesis using rfc_decode_append [of "map b64_lookup S1" n "map b64_lookup cs"] assms(3) by simp
qed

lemma Decode_value:
  assumes "b64_text s" "6 * length s < 2 ^ 32" "length (b64_value s) \<le> max_size"
  shows "Decode max_size s out = Inr (True, b64_value s)"
proof -
  from assms(1) have "s \<noteq> []" "length s mod 4 = 0" "length s \<le> length (StripPadding s) + 2" by (simp_all add: b64_text_def)
  then obtain S1 cs k n where s: "s = S1 @ cs @ replicate k eq_sign" "last_group k cs" "length S1 = 4 * n"
    "StripPadding s = S1 @ cs" by (rule b64_parts)
  have d: "list_all digit (S1 @ cs)" and v: "b64_value s = rfc_decode (map b64_lookup (S1 @ cs))"
    using assms(1) s(4) by (simp_all add: b64_text_def b64_value_def)
  let ?q = "n + (if k = 0 then 0 else 1)"
  have lens: "length s = 4 * ?q" "length (b64_value s) = 3 * ?q - k" "k \<le> 3 * ?q"
    using s(3) last_group_length [OF s(2)] length_last_group [OF s(2)] length_rfc_decode [of "map b64_lookup S1" n]
      rfc_decode_append [of "map b64_lookup S1" n "map b64_lookup cs"] arg_cong [OF s(1), of length] unfolding v by simp_all
  have "S1 @ cs \<noteq> []" using \<open>s \<noteq> []\<close> s(1,2) by (auto elim: last_group_cases)
  moreover from last_in_set [OF this] d have "digit (last (S1 @ cs))" unfolding list_all_iff by blast
  then have "last (S1 @ cs) \<noteq> eq_sign" using digit_eq_sign by metis
  ultimately have "DecodedLength s = Inr (of_nat (6 * length s div 8) - of_nat k)"
    using DecodedLength_eq [of s "butlast (S1 @ cs)" "last (S1 @ cs)" k] assms(2) s(1) by simp
  moreover have "6 * length s div 8 = 3 * ?q" unfolding lens(1) by simp
  ultimately have D: "DecodedLength s = Inr (of_nat (3 * ?q) - of_nat k)" by (simp only:)
  have U: "unat (of_nat (3 * ?q) - of_nat k :: u32) = length (b64_value s)"
    using lens assms(2) by (simp only: of_nat_diff [symmetric]) (simp only: unat_of_nat_u32)
  from resize_ok [OF assms(3)] obtain xs where
    R: "resize max_size (length (b64_value s)) out = Inr xs" "length xs = length (b64_value s)" by blast
  have "dec_all s \<lparr>cells = xs, pos = 0\<rparr> = Inr \<lparr>cells = b64_value s, pos = length (b64_value s)\<rparr>"
    unfolding dec_all_value [OF s(1-3) d] v [symmetric] by (rule puts_fill [OF R(2)])
  then show ?thesis by (simp only: Decode_def D U R(1) bindE_simps outbuf.simps simp_thms)
qed

section \<open>Encoded texts\<close>

lemma rfc_group_digits: "list_all digit (rfc_group x y z)"
proof -
  have "list_all (\<lambda>v. v \<noteq> 0xFF) (a3_to_a4 [x, y, z])"
    using a3_to_a4_less_64 [of x y z] by (auto simp: list_all_iff)
  then have "list_all (\<lambda>v. v \<noteq> 0xFF) (map b64_lookup (rfc_group x y z))" unfolding rfc_group_lookup(1) .
  then show ?thesis by (simp add: list.pred_map comp_def)
qed

lemma rfc_group_take: "list_all digit (take n (rfc_group x y z))" "0 < n \<Longrightarrow> take n (rfc_group x y z) \<noteq> []"
proof -
  show "list_all digit (take n (rfc_group x y z))"
    using rfc_group_digits [of x y z] unfolding list_all_iff by (blast dest: in_set_takeD)
  have "rfc_group x y z \<noteq> []" using length_rfc_group [of x y z] by (intro notI) simp
  then show "0 < n \<Longrightarrow> take n (rfc_group x y z) \<noteq> []" by simp
qed

lemma rfc_encode_digits:
  "\<exists>S. rfc_encode inp = S @ replicate (padding (length inp)) eq_sign \<and> list_all digit S \<and> (inp \<noteq> [] \<longrightarrow> S \<noteq> [])"
proof (induction inp rule: rfc_encode.induct)
  case (2 x)
  have "rfc_encode [x] = take 2 (rfc_group x 0 0) @ replicate (padding (length [x])) eq_sign" by (simp add: numeral_2_eq_2)
  then show ?case using rfc_group_take [of 2 x 0 0] by (intro exI [of _ "take 2 (rfc_group x 0 0)"]) simp
next
  case (3 x y)
  have "rfc_encode [x, y] = take 3 (rfc_group x y 0) @ replicate (padding (length [x, y])) eq_sign" by simp
  then show ?case using rfc_group_take [of 3 x y 0] by (intro exI [of _ "take 3 (rfc_group x y 0)"]) simp
next
  case (4 x y z rest)
  then obtain S where S: "rfc_encode rest = S @ replicate (padding (length rest)) eq_sign" "list_all digit S" by auto
  then show ?case using rfc_group_take [of 4 x y z] rfc_group_digits [of x y z]
    by (intro exI [of _ "rfc_group x y z @ S"]) simp
qed simp

lemma b64_text_rfc: "inp \<noteq> [] \<Longrightarrow> b64_text (rfc_encode inp) \<and> 0 \<notin> set (rfc_encode inp)"
proof -
  assume "inp \<noteq> []"
  then obtain S where S: "rfc_encode inp = S @ replicate (padding (length inp)) eq_sign" "list_all digit S" "S \<noteq> []"
    using rfc_encode_digits [of inp] by blast
  have "digit (last S)" using S(2,3) by (simp add: list_all_iff)
  then have "last S \<noteq> eq_sign" using digit_eq_sign by metis
  moreover have "rfc_encode inp = butlast S @ last S # replicate (padding (length inp)) eq_sign"
    using S(1) append_butlast_last_id [OF S(3)] by (metis append.assoc append_Cons append_Nil)
  ultimately have "StripPadding (rfc_encode inp) = S"
    using StripPadding_run [of "last S" "butlast S" "padding (length inp)"] S(3) by simp
  moreover have "length (rfc_encode inp) mod 4 = 0" by (simp add: length_rfc_encode)
  moreover have "padding n \<le> 2" for n by (simp add: padding_def less_Suc_eq_le [symmetric] numeral_3_eq_3 [symmetric])
  moreover have "\<not> digit 0" by (simp add: b64_lookup_def)
  then have "0 \<notin> set (rfc_encode inp)" using S(1,2) by (auto simp: list_all_iff)
  ultimately show ?thesis using S by (auto simp: b64_text_def)
qed

lemma b64_value_rfc:
  assumes "inp \<noteq> []" "length inp \<le> 536870910"
  shows "b64_value (rfc_encode inp) = inp"
proof -
  define m where "m = max (length inp) (length (b64_value (rfc_encode inp)))"
  have "(length inp + 2) div 3 \<le> 536870912 div 3" using assms(2) by (intro div_le_mono) simp
  then have "6 * length (rfc_encode inp) < 2 ^ 32" by (simp add: length_rfc_encode)
  then have "Decode m (rfc_encode inp) [] = Inr (True, b64_value (rfc_encode inp))"
    using b64_text_rfc [OF assms(1)] by (intro Decode_value) (simp_all add: m_def)
  moreover have "Decode m (rfc_encode inp) [] = Inr (True, inp)"
    using assms by (intro Decode_rfc) (simp_all add: m_def)
  ultimately show ?thesis by simp
qed

section \<open>Properties\<close>

text \<open>
  C17: for every memory that holds a string, the decoder of libcurl reads and writes only inside
  of the string and of the buffer that it allocates, accepts exactly the texts of a multiple of
  four characters that consist of digits with at most two equals signs at the end, and returns
  the bytes that the digits stand for.
\<close>

theorem base64_decode_correct:
  "Curl_base64_decode (\<lambda>_. True) junk src =
     Inr (if b64_text (c_str src) then (CURLE_OK, Some (b64_value (c_str src) @ [0], length (b64_value (c_str src))))
          else (CURLE_BAD_CONTENT_ENCODING, None))"
  by (rule Curl_base64_decode_value)

text \<open>
  C18: the two encoders, the one of the component and the one of libcurl, produce the same text
  for every input that is not empty, and the decoder of libcurl gives the input back.
\<close>

theorem base64_encoders_agree:
  assumes "inp \<noteq> []" "length inp \<le> 536870910" "length (rfc_encode inp) \<le> max_size"
  shows "\<exists>e. Encode max_size inp out = Inr (True, e) \<and>
    Curl_base64_encode (\<lambda>_. True) junk inp (length inp) = Inr (CURLE_OK, Some (e @ [0], length e)) \<and>
    Curl_base64_decode (\<lambda>_. True) junk (e @ [0]) = Inr (CURLE_OK, Some (inp @ [0], length inp))"
proof (intro exI conjI)
  show "Encode max_size inp out = Inr (True, rfc_encode inp)" using assms by (intro Encode_rfc) simp_all
  show "Curl_base64_encode (\<lambda>_. True) junk inp (length inp) = Inr (CURLE_OK, Some (rfc_encode inp @ [0], length (rfc_encode inp)))"
    using assms by (intro Curl_base64_encode_rfc) simp_all
  have "c_str (rfc_encode inp @ [0]) = rfc_encode inp" using b64_text_rfc [OF assms(1)] by (intro c_str_append) blast
  then show "Curl_base64_decode (\<lambda>_. True) junk (rfc_encode inp @ [0]) = Inr (CURLE_OK, Some (inp @ [0], length inp))"
    using b64_text_rfc [OF assms(1)] b64_value_rfc [OF assms(1,2)] by (simp add: Curl_base64_decode_value)
qed

theorem base64_encoders_agree_witness:
  "\<exists>e. Encode 100 [104, 105] [] = Inr (True, e) \<and>
    Curl_base64_encode (\<lambda>_. True) 7 [104, 105] (length [104 :: byte, 105]) = Inr (CURLE_OK, Some (e @ [0], length e)) \<and>
    Curl_base64_decode (\<lambda>_. True) 7 (e @ [0]) = Inr (CURLE_OK, Some ([104, 105, 0], 2))"
  using base64_encoders_agree [of "[104, 105]" 100 "[]" 7] by (simp add: length_rfc_encode numeral_2_eq_2)

text \<open>
  C29: a text that the decoder of libcurl accepts is decoded by the component to the same bytes.
\<close>

theorem base64_decoders_agree:
  assumes "Curl_base64_decode (\<lambda>_. True) junk src = Inr (CURLE_OK, Some (v @ [0], n))"
    and "6 * strlen src < 2 ^ 32" "n \<le> max_size"
  shows "Decode max_size (c_str src) out = Inr (True, v)"
proof -
  have "b64_text (c_str src)" "v = b64_value (c_str src)" "n = length (b64_value (c_str src))"
    using assms(1) unfolding Curl_base64_decode_value by (auto split: if_splits)
  with assms(2,3) show ?thesis by (simp only:) (rule Decode_value, simp_all add: strlen_def)
qed

theorem base64_decoders_agree_witness:
  "Decode 100 (bytes_of ''aGk='') [] = Inr (True, [104, 105])"
proof -
  have "Curl_base64_decode (\<lambda>_. True) 7 (bytes_of ''aGk='' @ [0]) = Inr (CURLE_OK, Some ([104, 105] @ [0], 2))"
    by code_simp
  from base64_decoders_agree [OF this, of 100 "[]"] show ?thesis by (simp add: strlen_def)
qed

end
