(* ===== verification/Curl_Share.thy ===== *)
theory Curl_Share
imports Prelude
begin

text \<open>
  The share object of libcurl, \<open>curl-8.6.0/lib/share.c\<close>, and what connects an easy handle with
  it: the option \<open>CURLOPT_SHARE\<close> of \<open>setopt.c\<close> and the end of a handle in \<open>url.c\<close>.

  The store has the live shares and handles by address. A share counts in \<open>dirty\<close> the handles
  that use it. What a share holds is represented by whether it is there; \<open>avail\<close> tells whether
  it can be created, and \<open>libpsl\<close> whether the library is built with libpsl. The handles keep
  pointers to the data of their share, here the address of the share they point into. Calls of
  the lock functions are collected in a log.
\<close>

abbreviation CURL_LOCK_DATA_SHARE :: nat where "CURL_LOCK_DATA_SHARE \<equiv> 1"
abbreviation CURL_LOCK_DATA_COOKIE :: nat where "CURL_LOCK_DATA_COOKIE \<equiv> 2"
abbreviation CURL_LOCK_DATA_DNS :: nat where "CURL_LOCK_DATA_DNS \<equiv> 3"
abbreviation CURL_LOCK_DATA_SSL_SESSION :: nat where "CURL_LOCK_DATA_SSL_SESSION \<equiv> 4"
abbreviation CURL_LOCK_DATA_CONNECT :: nat where "CURL_LOCK_DATA_CONNECT \<equiv> 5"
abbreviation CURL_LOCK_DATA_PSL :: nat where "CURL_LOCK_DATA_PSL \<equiv> 6"
abbreviation CURL_LOCK_DATA_HSTS :: nat where "CURL_LOCK_DATA_HSTS \<equiv> 7"

datatype CURLSHcode =
    CURLSHE_OK | CURLSHE_BAD_OPTION | CURLSHE_IN_USE | CURLSHE_INVALID | CURLSHE_NOMEM | CURLSHE_NOT_BUILT_IN

datatype CURLSHoption =
    CURLSHOPT_SHARE nat
  | CURLSHOPT_UNSHARE nat
  | CURLSHOPT_LOCKFUNC bool
  | CURLSHOPT_UNLOCKFUNC bool
  | CURLSHOPT_USERDATA nat
  | CURLSHOPT_OTHER

record Curl_share =
  specifier :: u32
  dirty :: u32
  lockfunc :: bool
  unlockfunc :: bool
  clientdata :: nat
  conn_cache :: nat
  cookies :: bool
  hsts :: bool
  sslsession :: bool

record easy =
  e_share :: "nat option"
  e_hostcache :: "nat option"
  e_cookies :: "nat option"
  e_hsts :: "nat option"
  e_session :: "nat option"
  e_psl :: "nat option"

datatype lock_event = Lock nat | Unlock nat

type_synonym share_heap = "nat \<rightharpoonup> Curl_share"

definition flag :: "nat \<Rightarrow> u32" where
  "flag t = push_bit t 1"

definition shares_data :: "Curl_share \<Rightarrow> nat \<Rightarrow> bool" where
  "shares_data s t \<longleftrightarrow> specifier s AND flag t \<noteq> 0"

section \<open>Operations on a share\<close>

definition curl_share_init :: Curl_share where
  "curl_share_init =
     \<lparr>specifier = 0 OR flag CURL_LOCK_DATA_SHARE, dirty = 0, lockfunc = False, unlockfunc = False, clientdata = 0,
      conn_cache = 0, cookies = False, hsts = False, sslsession = False\<rparr>"

text \<open>The two switches over the kind of data.\<close>

definition share_data :: "(nat \<Rightarrow> bool) \<Rightarrow> bool \<Rightarrow> Curl_share \<Rightarrow> nat \<Rightarrow> CURLSHcode \<times> Curl_share" where
  "share_data avail libpsl s type =
     (if type = CURL_LOCK_DATA_DNS then (CURLSHE_OK, s)
      else if type = CURL_LOCK_DATA_COOKIE
        then if cookies s then (CURLSHE_OK, s)
             else if avail type then (CURLSHE_OK, s\<lparr>cookies := True\<rparr>) else (CURLSHE_NOMEM, s)
      else if type = CURL_LOCK_DATA_HSTS
        then if hsts s then (CURLSHE_OK, s)
             else if avail type then (CURLSHE_OK, s\<lparr>hsts := True\<rparr>) else (CURLSHE_NOMEM, s)
      else if type = CURL_LOCK_DATA_SSL_SESSION
        then if sslsession s then (CURLSHE_OK, s)
             else if avail type then (CURLSHE_OK, s\<lparr>sslsession := True\<rparr>) else (CURLSHE_NOMEM, s)
      else if type = CURL_LOCK_DATA_CONNECT
        then if avail type then (CURLSHE_OK, s\<lparr>conn_cache := conn_cache s + 1\<rparr>) else (CURLSHE_NOMEM, s)
      else if type = CURL_LOCK_DATA_PSL then (if libpsl then CURLSHE_OK else CURLSHE_NOT_BUILT_IN, s)
      else (CURLSHE_BAD_OPTION, s))"

definition unshare_data :: "Curl_share \<Rightarrow> nat \<Rightarrow> CURLSHcode \<times> Curl_share" where
  "unshare_data s type =
     (if type = CURL_LOCK_DATA_DNS then (CURLSHE_OK, s)
      else if type = CURL_LOCK_DATA_COOKIE then (CURLSHE_OK, s\<lparr>cookies := False\<rparr>)
      else if type = CURL_LOCK_DATA_HSTS then (CURLSHE_OK, s\<lparr>hsts := False\<rparr>)
      else if type = CURL_LOCK_DATA_SSL_SESSION then (CURLSHE_OK, s\<lparr>sslsession := False\<rparr>)
      else if type = CURL_LOCK_DATA_CONNECT then (CURLSHE_OK, s)
      else (CURLSHE_BAD_OPTION, s))"

definition share_setopt :: "(nat \<Rightarrow> bool) \<Rightarrow> bool \<Rightarrow> Curl_share \<Rightarrow> CURLSHoption \<Rightarrow> CURLSHcode \<times> Curl_share" where
  "share_setopt avail libpsl s option =
     (if dirty s \<noteq> 0 then (CURLSHE_IN_USE, s)
      else case option of
             CURLSHOPT_SHARE type \<Rightarrow>
               (let (res, s1) = share_data avail libpsl s type in
                (res, if res = CURLSHE_OK then s1\<lparr>specifier := specifier s1 OR flag type\<rparr> else s1))
           | CURLSHOPT_UNSHARE type \<Rightarrow>
               unshare_data (s\<lparr>specifier := specifier s AND NOT (flag type)\<rparr>) type
           | CURLSHOPT_LOCKFUNC f \<Rightarrow> (CURLSHE_OK, s\<lparr>lockfunc := f\<rparr>)
           | CURLSHOPT_UNLOCKFUNC f \<Rightarrow> (CURLSHE_OK, s\<lparr>unlockfunc := f\<rparr>)
           | CURLSHOPT_USERDATA p \<Rightarrow> (CURLSHE_OK, s\<lparr>clientdata := p\<rparr>)
           | CURLSHOPT_OTHER \<Rightarrow> (CURLSHE_BAD_OPTION, s))"

text \<open>With the test of the handle: the magic number of freed memory must not be read.\<close>

definition curl_share_setopt ::
  "(nat \<Rightarrow> bool) \<Rightarrow> bool \<Rightarrow> share_heap \<Rightarrow> nat option \<Rightarrow> CURLSHoption \<Rightarrow> (CURLSHcode \<times> share_heap) outcome" where
  "curl_share_setopt avail libpsl sh share option =
     (case share of
        None \<Rightarrow> Inr (CURLSHE_INVALID, sh)
      | Some a \<Rightarrow>
          (case sh a of
             None \<Rightarrow> Inl UseAfterFree
           | Some s \<Rightarrow> let (res, s') = share_setopt avail libpsl s option in Inr (res, sh(a \<mapsto> s'))))"

definition curl_share_cleanup :: "share_heap \<Rightarrow> nat option \<Rightarrow> (CURLSHcode \<times> share_heap \<times> lock_event list) outcome" where
  "curl_share_cleanup sh share =
     (case share of
        None \<Rightarrow> Inr (CURLSHE_INVALID, sh, [])
      | Some a \<Rightarrow>
          (case sh a of
             None \<Rightarrow> Inl UseAfterFree
           | Some s \<Rightarrow>
               let log = (if lockfunc s then [Lock CURL_LOCK_DATA_SHARE] else []) @
                         (if unlockfunc s then [Unlock CURL_LOCK_DATA_SHARE] else []) in
               if dirty s \<noteq> 0 then Inr (CURLSHE_IN_USE, sh, log)
               else Inr (CURLSHE_OK, sh(a := None), log)))"

definition Curl_share_lock :: "share_heap \<Rightarrow> easy \<Rightarrow> nat \<Rightarrow> (CURLSHcode \<times> lock_event list) outcome" where
  "Curl_share_lock sh data type =
     (case e_share data of
        None \<Rightarrow> Inr (CURLSHE_INVALID, [])
      | Some a \<Rightarrow>
          (case sh a of
             None \<Rightarrow> Inl UseAfterFree
           | Some s \<Rightarrow> Inr (CURLSHE_OK, if shares_data s type \<and> lockfunc s then [Lock type] else [])))"

definition Curl_share_unlock :: "share_heap \<Rightarrow> easy \<Rightarrow> nat \<Rightarrow> (CURLSHcode \<times> lock_event list) outcome" where
  "Curl_share_unlock sh data type =
     (case e_share data of
        None \<Rightarrow> Inr (CURLSHE_INVALID, [])
      | Some a \<Rightarrow>
          (case sh a of
             None \<Rightarrow> Inl UseAfterFree
           | Some s \<Rightarrow> Inr (CURLSHE_OK, if shares_data s type \<and> unlockfunc s then [Unlock type] else [])))"

section \<open>Handles\<close>

text \<open>Changing the count of users of the share of a handle, between lock and unlock.\<close>

definition count_users :: "(u32 \<Rightarrow> u32) \<Rightarrow> share_heap \<Rightarrow> easy \<Rightarrow> share_heap outcome" where
  "count_users f sh data =
     bindE (Curl_share_lock sh data CURL_LOCK_DATA_SHARE) (\<lambda>_.
       case e_share data of
         None \<Rightarrow> Inl NullDeref
       | Some a \<Rightarrow>
           (case sh a of
              None \<Rightarrow> Inl UseAfterFree
            | Some s \<Rightarrow>
                let sh1 = sh(a \<mapsto> s\<lparr>dirty := f (dirty s)\<rparr>) in
                bindE (Curl_share_unlock sh1 data CURL_LOCK_DATA_SHARE) (\<lambda>_. Inr sh1)))"

text \<open>Disconnecting a handle from the share that it uses.\<close>

definition disconnect :: "share_heap \<Rightarrow> easy \<Rightarrow> (share_heap \<times> easy) outcome" where
  "disconnect sh data =
     (case e_share data of
        None \<Rightarrow> Inr (sh, data)
      | Some a \<Rightarrow>
          bindE (count_users (\<lambda>d. d - 1) sh data)
            (\<lambda>sh1. Inr (sh1, data\<lparr>e_share := None, e_hostcache := None,
                e_cookies := (if e_cookies data = Some a then None else e_cookies data),
                e_hsts := (if e_hsts data = Some a then None else e_hsts data),
                e_session := (if e_session data = Some a then None else e_session data),
                e_psl := (if e_psl data = Some a then None else e_psl data)\<rparr>)))"

text \<open>Connecting it with a new one.\<close>

definition connect :: "bool \<Rightarrow> share_heap \<Rightarrow> easy \<Rightarrow> nat \<Rightarrow> (share_heap \<times> easy) outcome" where
  "connect libpsl sh data a =
     (let data = data\<lparr>e_share := Some a\<rparr> in
      bindE (count_users (\<lambda>d. d + 1) sh data)
        (\<lambda>sh1. case sh1 a of
                  None \<Rightarrow> Inl UseAfterFree
                | Some s \<Rightarrow> Inr (sh1, data\<lparr>
                    e_hostcache := (if shares_data s CURL_LOCK_DATA_DNS then Some a else e_hostcache data),
                    e_cookies := (if cookies s then Some a else e_cookies data),
                    e_hsts := (if hsts s then Some a else e_hsts data),
                    e_session := (if sslsession s then Some a else e_session data),
                    e_psl := (if libpsl \<and> shares_data s CURL_LOCK_DATA_PSL then Some a else e_psl data)\<rparr>)))"

definition setopt_SHARE :: "bool \<Rightarrow> share_heap \<Rightarrow> easy \<Rightarrow> nat option \<Rightarrow> (share_heap \<times> easy) outcome" where
  "setopt_SHARE libpsl sh data new =
     bindE (disconnect sh data)
       (\<lambda>(sh1, data1).
          case new of
            None \<Rightarrow> Inr (sh1, data1)
          | Some a \<Rightarrow> if sh1 a = None then Inl UseAfterFree else connect libpsl sh1 data1 a)"

definition close_share :: "share_heap \<Rightarrow> easy \<Rightarrow> share_heap outcome" where
  "close_share sh data = (if e_share data \<noteq> None then count_users (\<lambda>d. d - 1) sh data else Inr sh)"

definition new_easy :: easy where
  "new_easy = \<lparr>e_share = None, e_hostcache = None, e_cookies = None, e_hsts = None, e_session = None, e_psl = None\<rparr>"

section \<open>Shares and handles together\<close>

type_synonym easy_heap = "nat \<rightharpoonup> easy"

definition attached :: "easy_heap \<Rightarrow> nat \<Rightarrow> nat \<Rightarrow> bool" where
  "attached E a h \<longleftrightarrow> (case E h of None \<Rightarrow> False | Some e \<Rightarrow> e_share e = Some a)"

definition users :: "easy_heap \<Rightarrow> nat \<Rightarrow> nat" where
  "users E a = card {h. attached E a h}"

text \<open>The pointers of a handle lead to data that its own share holds.\<close>

definition handle_ok :: "share_heap \<Rightarrow> easy \<Rightarrow> bool" where
  "handle_ok sh e \<longleftrightarrow>
     (\<forall>a. e_share e = Some a \<longrightarrow> sh a \<noteq> None) \<and>
     (\<forall>a. e_hostcache e = Some a \<or> e_psl e = Some a \<longrightarrow> e_share e = Some a) \<and>
     (\<forall>a. e_cookies e = Some a \<longrightarrow> e_share e = Some a \<and> (\<exists>s. sh a = Some s \<and> cookies s)) \<and>
     (\<forall>a. e_hsts e = Some a \<longrightarrow> e_share e = Some a \<and> (\<exists>s. sh a = Some s \<and> hsts s)) \<and>
     (\<forall>a. e_session e = Some a \<longrightarrow> e_share e = Some a \<and> (\<exists>s. sh a = Some s \<and> sslsession s))"

definition shares_ok :: "share_heap \<Rightarrow> easy_heap \<Rightarrow> bool" where
  "shares_ok sh E \<longleftrightarrow>
     finite (dom E) \<and> card (dom E) < 2 ^ 32 \<and>
     (\<forall>h e. E h = Some e \<longrightarrow> handle_ok sh e) \<and>
     (\<forall>a s. sh a = Some s \<longrightarrow> dirty s = of_nat (users E a))"

text \<open>
  What a program can do: create and destroy shares and handles, set options of a share, and
  connect a handle with a share. A program has less than \<open>2 ^ 32\<close> handles.
\<close>

inductive share_step :: "(nat \<Rightarrow> bool) \<Rightarrow> bool \<Rightarrow> share_heap \<times> easy_heap \<Rightarrow> share_heap \<times> easy_heap \<Rightarrow> bool"
  for avail libpsl where
  init: "sh a = None \<Longrightarrow> share_step avail libpsl (sh, E) (sh(a \<mapsto> curl_share_init), E)"
| setopt: "curl_share_setopt avail libpsl sh p opt = Inr (res, sh') \<Longrightarrow> share_step avail libpsl (sh, E) (sh', E)"
| cleanup: "curl_share_cleanup sh p = Inr (res, sh', log) \<Longrightarrow> share_step avail libpsl (sh, E) (sh', E)"
| new_handle: "E h = None \<Longrightarrow> card (dom E) < 2 ^ 32 - 1 \<Longrightarrow> share_step avail libpsl (sh, E) (sh, E(h \<mapsto> new_easy))"
| use_share: "E h = Some e \<Longrightarrow> setopt_SHARE libpsl sh e p = Inr (sh', e') \<Longrightarrow>
    share_step avail libpsl (sh, E) (sh', E(h \<mapsto> e'))"
| close_handle: "E h = Some e \<Longrightarrow> close_share sh e = Inr sh' \<Longrightarrow> share_step avail libpsl (sh, E) (sh', E(h := None))"

inductive share_reach :: "(nat \<Rightarrow> bool) \<Rightarrow> bool \<Rightarrow> share_heap \<times> easy_heap \<Rightarrow> bool" for avail libpsl where
  start: "share_reach avail libpsl (Map.empty, Map.empty)"
| step: "share_reach avail libpsl w \<Longrightarrow> share_step avail libpsl w w' \<Longrightarrow> share_reach avail libpsl w'"

section \<open>Counting\<close>

lemma attached_dom: "{h. attached E a h} \<subseteq> dom E"
  by (auto simp: attached_def split: option.splits)

lemma users_le: "finite (dom E) \<Longrightarrow> users E a \<le> card (dom E)"
  unfolding users_def by (rule card_mono [OF _ attached_dom])

lemma users_pos: "finite (dom E) \<Longrightarrow> attached E a h \<Longrightarrow> 0 < users E a"
  unfolding users_def using finite_subset [OF attached_dom] by (auto simp: card_gt_0_iff)

lemma users_upd:
  assumes "finite (dom E)"
  shows "users (E(h := v)) a + of_bool (attached E a h) = users E a + of_bool (\<exists>e. v = Some e \<and> e_share e = Some a)"
proof -
  let ?S = "{k. attached E a k}" and ?T = "{k. attached (E(h := v)) a k}"
  have fin: "finite ?S" "finite ?T" using assms finite_subset [OF attached_dom] by auto
  have eq: "?T - {h} = ?S - {h}" by (auto simp: attached_def)
  have S: "card ?S = card (?S - {h}) + of_bool (attached E a h)"
    using fin(1) by (cases "attached E a h") (simp_all add: card_Suc_Diff1 [symmetric] del: card_Diff_insert)
  have T: "card ?T = card (?T - {h}) + of_bool (attached (E(h := v)) a h)"
    using fin(2) by (cases "attached (E(h := v)) a h") (simp_all add: card_Suc_Diff1 [symmetric] del: card_Diff_insert)
  have "attached (E(h := v)) a h = (\<exists>e. v = Some e \<and> e_share e = Some a)"
    by (auto simp: attached_def split: option.splits)
  with S T eq show ?thesis by (simp add: users_def)
qed

lemma dirty_0_no_users:
  assumes "shares_ok sh E" "sh a = Some s" "dirty s = 0"
  shows "\<not> attached E a h"
proof
  assume "attached E a h"
  moreover have "finite (dom E)" using assms(1) by (simp add: shares_ok_def)
  ultimately have "0 < users E a" "users E a < 2 ^ 32"
    using users_pos users_le [of E a] assms(1) by (auto simp: shares_ok_def intro: le_less_trans)
  moreover have "of_nat (users E a) = (0 :: u32)" using assms by (simp add: shares_ok_def)
  ultimately show False using unat_of_nat_u32 [of "users E a"] by simp
qed

section \<open>Every step keeps the invariant\<close>

lemma handle_ok_cong:
  assumes "handle_ok sh e"
    "\<And>a s. e_share e = Some a \<Longrightarrow> sh a = Some s \<Longrightarrow>
      \<exists>s'. sh' a = Some s' \<and> cookies s' = cookies s \<and> hsts s' = hsts s \<and> sslsession s' = sslsession s"
  shows "handle_ok sh' e"
proof (cases "e_share e")
  case None
  with assms(1) show ?thesis by (simp add: handle_ok_def)
next
  case (Some a)
  then obtain s where "sh a = Some s" using assms(1) by (auto simp: handle_ok_def)
  with assms(2) Some obtain s' where
    "sh' a = Some s'" "cookies s' = cookies s" "hsts s' = hsts s" "sslsession s' = sslsession s" by blast
  with assms(1) Some \<open>sh a = Some s\<close> show ?thesis by (auto simp: handle_ok_def)
qed

lemma handle_ok_other: "handle_ok sh e \<Longrightarrow> e_share e \<noteq> Some a \<Longrightarrow> handle_ok (sh(a := v)) e"
  by (erule handle_ok_cong) auto

lemma handle_ok_dirty: "sh a = Some s \<Longrightarrow> handle_ok sh e \<Longrightarrow> handle_ok (sh(a \<mapsto> s\<lparr>dirty := d\<rparr>)) e"
  by (erule handle_ok_cong) auto

lemma attachedI: "E h = Some e \<Longrightarrow> e_share e = Some a \<Longrightarrow> attached E a h"
  by (simp add: attached_def)

lemma shares_okD:
  assumes "shares_ok sh E"
  shows "finite (dom E)" "card (dom E) < 2 ^ 32" "E h = Some e \<Longrightarrow> handle_ok sh e"
    "sh a = Some s \<Longrightarrow> dirty s = of_nat (users E a)"
  using assms by (auto simp: shares_ok_def)

lemma share_init_ok:
  assumes "shares_ok sh E" "sh a = None"
  shows "shares_ok (sh(a \<mapsto> curl_share_init)) E"
proof -
  have none: "e_share e \<noteq> Some a" if "E h = Some e" for h e
    using shares_okD(3) [OF assms(1) that] assms(2) by (auto simp: handle_ok_def)
  then have "\<not> attached E a h" for h by (auto simp: attached_def split: option.splits)
  then have "users E a = 0" by (simp add: users_def)
  moreover have "handle_ok (sh(a \<mapsto> curl_share_init)) e" if "E h = Some e" for h e
    using handle_ok_other [OF shares_okD(3) [OF assms(1) that] none [OF that]] by simp
  ultimately show ?thesis using assms(1) by (auto simp: shares_ok_def curl_share_init_def)
qed

text \<open>A share without users may be changed or removed.\<close>

lemma share_change_ok:
  assumes "shares_ok sh E" "sh a = Some s" "dirty s = 0" "case v of None \<Rightarrow> True | Some s' \<Rightarrow> dirty s' = 0"
  shows "shares_ok (sh(a := v)) E"
proof -
  have none: "e_share e \<noteq> Some a" if "E h = Some e" for h e
    using dirty_0_no_users [OF assms(1-3), of h] attachedI [of E h e a] that by auto
  have "handle_ok (sh(a := v)) e" if "E h = Some e" for h e
    using handle_ok_other [OF shares_okD(3) [OF assms(1) that] none [OF that]] by simp
  moreover have "dirty s' = of_nat (users E b)" if "(sh(a := v)) b = Some s'" for b s'
    using that assms shares_okD(4) [OF assms(1), of b] shares_okD(4) [OF assms(1,2)]
    by (cases "b = a") auto
  ultimately show ?thesis using assms(1) by (auto simp: shares_ok_def)
qed

lemma share_data_dirty: "dirty (snd (share_data avail libpsl s t)) = dirty s"
  by (simp add: share_data_def)

lemma unshare_data_dirty: "dirty (snd (unshare_data s t)) = dirty s"
  by (simp add: unshare_data_def)

lemma share_setopt_dirty: "dirty (snd (share_setopt avail libpsl s opt)) = dirty s"
proof (cases opt)
  case (CURLSHOPT_SHARE t)
  then show ?thesis using share_data_dirty [of avail libpsl s t]
    by (cases "share_data avail libpsl s t") (simp add: share_setopt_def)
qed (simp_all add: share_setopt_def unshare_data_dirty)

lemma share_setopt_ok:
  assumes "shares_ok sh E" "curl_share_setopt avail libpsl sh p opt = Inr (res, sh')"
  shows "shares_ok sh' E"
proof (cases p)
  case None
  with assms show ?thesis by (simp add: curl_share_setopt_def)
next
  case (Some a)
  with assms(2) obtain s s' where s: "sh a = Some s" "share_setopt avail libpsl s opt = (res, s')" "sh' = sh(a \<mapsto> s')"
    by (auto simp: curl_share_setopt_def split: option.splits prod.splits)
  show ?thesis
  proof (cases "dirty s = 0")
    case True
    with share_change_ok [OF assms(1) s(1), of "Some s'"] share_setopt_dirty [of avail libpsl s opt] s(2,3) show ?thesis by simp
  next
    case False
    then have "s' = s" using s(2) by (simp add: share_setopt_def)
    with s assms(1) show ?thesis by (simp add: fun_upd_idem)
  qed
qed

lemma share_cleanup_ok:
  assumes "shares_ok sh E" "curl_share_cleanup sh p = Inr (res, sh', log)"
  shows "shares_ok sh' E"
  using assms share_change_ok [OF assms(1), of _ _ None]
  by (auto simp: curl_share_cleanup_def Let_def split: option.splits if_splits)

lemma shares_ok_new:
  assumes "shares_ok sh E" "E h = None" "card (dom E) < 2 ^ 32 - 1"
  shows "shares_ok sh (E(h \<mapsto> new_easy))"
proof -
  have "users (E(h \<mapsto> new_easy)) a = users E a" for a
    using users_upd [OF shares_okD(1) [OF assms(1)], of h "Some new_easy" a] assms(2)
    by (simp add: attached_def new_easy_def)
  moreover have "handle_ok sh new_easy" by (simp add: handle_ok_def new_easy_def)
  moreover have "card (dom (E(h \<mapsto> new_easy))) < 2 ^ 32"
    using assms shares_okD(1) [OF assms(1)] by (simp add: domIff card_insert_if)
  ultimately show ?thesis using assms(1) by (auto simp: shares_ok_def)
qed

lemma count_users_eq:
  "e_share e = Some a \<Longrightarrow> sh a = Some s \<Longrightarrow> count_users f sh e = Inr (sh(a \<mapsto> s\<lparr>dirty := f (dirty s)\<rparr>))"
  by (simp add: count_users_def Curl_share_lock_def Curl_share_unlock_def)

text \<open>Replacing a handle by one whose connection is counted in its share.\<close>

lemma shares_ok_replace:
  assumes "shares_ok sh E" "E h = Some e" "\<forall>k f. E k = Some f \<longrightarrow> handle_ok sh' f"
    "\<forall>e'. v = Some e' \<longrightarrow> handle_ok sh' e'"
    "\<forall>a s'. sh' a = Some s' \<longrightarrow>
      (\<exists>s. sh a = Some s \<and> dirty s' + of_bool (e_share e = Some a) = dirty s + of_bool (\<exists>e'. v = Some e' \<and> e_share e' = Some a))"
  shows "shares_ok sh' (E(h := v))"
proof -
  have fin: "finite (dom E)" using assms(1) by (rule shares_okD)
  have "dirty s' = of_nat (users (E(h := v)) a)" if s': "sh' a = Some s'" for a s'
  proof -
    from assms(5) s' obtain s where s: "sh a = Some s"
        "dirty s' + of_bool (e_share e = Some a) = dirty s + of_bool (\<exists>e'. v = Some e' \<and> e_share e' = Some a)" by blast
    have "dirty s = of_nat (users E a)" by (rule shares_okD(4) [OF assms(1) s(1)])
    moreover have "of_nat (users (E(h := v)) a) + of_bool (e_share e = Some a) =
      (of_nat (users E a) + of_bool (\<exists>e'. v = Some e' \<and> e_share e' = Some a) :: u32)"
    proof -
      have "attached E a h = (e_share e = Some a)" using assms(2) by (simp add: attached_def)
      with arg_cong [OF users_upd [OF fin, of h v a], of "of_nat :: nat \<Rightarrow> u32"] show ?thesis
        by (simp only: of_nat_add of_nat_of_bool)
    qed
    ultimately have "dirty s' + of_bool (e_share e = Some a) = of_nat (users (E(h := v)) a) + of_bool (e_share e = Some a)"
      using s(2) by (simp only:)
    then show ?thesis by (simp only: add_right_cancel)
  qed
  moreover have "card (dom (E(h := v))) < 2 ^ 32"
    using shares_okD(2) [OF assms(1)] assms(2) fin card_mono [of "dom E" "dom (E(h := v))"]
    by (auto simp: domI insert_absorb intro: le_less_trans)
  moreover have "finite (dom (E(h := v)))" using fin by (cases v) simp_all
  ultimately show ?thesis using assms(3,4) by (auto simp: shares_ok_def)
qed

lemma disconnect_ok:
  assumes "shares_ok sh E" "E h = Some e"
  shows "\<exists>sh1 e1. disconnect sh e = Inr (sh1, e1) \<and> shares_ok sh1 (E(h \<mapsto> e1)) \<and> e_share e1 = None \<and> dom sh1 = dom sh"
proof (cases "e_share e")
  case None
  with assms show ?thesis by (simp add: disconnect_def fun_upd_idem)
next
  case (Some a)
  have e: "handle_ok sh e" by (rule shares_okD(3) [OF assms])
  then obtain s where s: "sh a = Some s" using Some by (auto simp: handle_ok_def)
  define sh1 where "sh1 = sh(a \<mapsto> s\<lparr>dirty := dirty s - 1\<rparr>)"
  define e1 where "e1 = e\<lparr>e_share := None, e_hostcache := None, e_cookies := None, e_hsts := None, e_session := None, e_psl := None\<rparr>"
  have own: "e_cookies e \<in> {None, Some a}" "e_hsts e \<in> {None, Some a}" "e_session e \<in> {None, Some a}" "e_psl e \<in> {None, Some a}"
    using e Some unfolding handle_ok_def
    by (cases "e_cookies e"; cases "e_hsts e"; cases "e_session e"; cases "e_psl e"; simp)+
  have "disconnect sh e = Inr (sh1, e1)"
    using own Some s by (auto simp: disconnect_def count_users_eq sh1_def e1_def)
  moreover have "shares_ok sh1 (E(h \<mapsto> e1))"
  proof (rule shares_ok_replace [OF assms])
    show "\<forall>k f. E k = Some f \<longrightarrow> handle_ok sh1 f"
      using shares_okD(3) [OF assms(1)] handle_ok_dirty [of sh a s, OF s] by (auto simp: sh1_def)
    show "\<forall>e'. Some e1 = Some e' \<longrightarrow> handle_ok sh1 e'" by (simp add: handle_ok_def e1_def)
    show "\<forall>b s'. sh1 b = Some s' \<longrightarrow> (\<exists>s. sh b = Some s \<and>
      dirty s' + of_bool (e_share e = Some b) = dirty s + of_bool (\<exists>e'. Some e1 = Some e' \<and> e_share e' = Some b))"
      using Some s by (auto simp: sh1_def e1_def)
  qed
  ultimately show ?thesis using s by (auto simp: e1_def sh1_def)
qed

lemma connect_ok:
  assumes "shares_ok sh E" "E h = Some e" "e_share e = None" "sh a = Some s"
  shows "\<exists>sh1 e1. connect libpsl sh e a = Inr (sh1, e1) \<and> shares_ok sh1 (E(h \<mapsto> e1)) \<and> e_share e1 = Some a"
proof -
  have "handle_ok sh e" by (rule shares_okD(3) [OF assms(1,2)])
  then have none: "e_hostcache e = None" "e_cookies e = None" "e_hsts e = None" "e_session e = None" "e_psl e = None"
    using assms(3) unfolding handle_ok_def
    by (cases "e_hostcache e", auto) (cases "e_cookies e", auto, cases "e_hsts e", auto, cases "e_session e", auto,
      cases "e_psl e", auto)
  define s1 where "s1 = s\<lparr>dirty := dirty s + 1\<rparr>"
  define sh1 where "sh1 = sh(a \<mapsto> s1)"
  define e1 where "e1 = e\<lparr>e_share := Some a,
    e_hostcache := (if shares_data s1 CURL_LOCK_DATA_DNS then Some a else None),
    e_cookies := (if cookies s1 then Some a else None), e_hsts := (if hsts s1 then Some a else None),
    e_session := (if sslsession s1 then Some a else None),
    e_psl := (if libpsl \<and> shares_data s1 CURL_LOCK_DATA_PSL then Some a else None)\<rparr>"
  have "connect libpsl sh e a = Inr (sh1, e1)"
    using none assms(4) by (simp add: connect_def count_users_eq [of _ a sh s] sh1_def e1_def s1_def Let_def)
  moreover have "shares_ok sh1 (E(h \<mapsto> e1))"
  proof (rule shares_ok_replace [OF assms(1,2)])
    show "\<forall>k f. E k = Some f \<longrightarrow> handle_ok sh1 f"
      using shares_okD(3) [OF assms(1)] handle_ok_dirty [of sh a s, OF assms(4)] by (auto simp: sh1_def s1_def)
    show "\<forall>e'. Some e1 = Some e' \<longrightarrow> handle_ok sh1 e'" by (simp add: handle_ok_def e1_def sh1_def)
    show "\<forall>b s'. sh1 b = Some s' \<longrightarrow> (\<exists>s. sh b = Some s \<and>
      dirty s' + of_bool (e_share e = Some b) = dirty s + of_bool (\<exists>e'. Some e1 = Some e' \<and> e_share e' = Some b))"
      using assms(3,4) by (auto simp: sh1_def e1_def s1_def)
  qed
  ultimately show ?thesis by (auto simp: e1_def)
qed

lemma setopt_SHARE_ok:
  assumes "shares_ok sh E" "E h = Some e" "\<forall>a. p = Some a \<longrightarrow> sh a \<noteq> None"
  shows "\<exists>sh1 e1. setopt_SHARE libpsl sh e p = Inr (sh1, e1) \<and> shares_ok sh1 (E(h \<mapsto> e1)) \<and> e_share e1 = p"
proof -
  from disconnect_ok [OF assms(1,2)] obtain sh1 e1 where
    1: "disconnect sh e = Inr (sh1, e1)" "shares_ok sh1 (E(h \<mapsto> e1))" "e_share e1 = None" "dom sh1 = dom sh" by blast
  show ?thesis
  proof (cases p)
    case None
    with 1 show ?thesis by (simp add: setopt_SHARE_def)
  next
    case (Some a)
    with assms(3) 1(4) obtain s where "sh1 a = Some s" by blast
    with connect_ok [OF 1(2) _ 1(3), of h a s libpsl] 1(1) Some show ?thesis by (auto simp: setopt_SHARE_def)
  qed
qed

lemma close_share_ok:
  assumes "shares_ok sh E" "E h = Some e"
  shows "\<exists>sh1. close_share sh e = Inr sh1 \<and> shares_ok sh1 (E(h := None))"
proof (cases "e_share e")
  case None
  have "shares_ok sh (E(h := None))"
    using assms(1) None
    by (intro shares_ok_replace [OF assms]) (auto simp: shares_ok_def)
  with None show ?thesis by (simp add: close_share_def)
next
  case (Some a)
  then obtain s where s: "sh a = Some s" using shares_okD(3) [OF assms] by (auto simp: handle_ok_def)
  have "shares_ok (sh(a \<mapsto> s\<lparr>dirty := dirty s - 1\<rparr>)) (E(h := None))"
    using s Some shares_okD(3) [OF assms(1)] handle_ok_dirty [of sh a s, OF s]
    by (intro shares_ok_replace [OF assms]) auto
  with Some s show ?thesis by (simp add: close_share_def count_users_eq)
qed

lemma use_share_ok:
  assumes "shares_ok sh E" "E h = Some e" "setopt_SHARE libpsl sh e p = Inr (sh', e')"
  shows "shares_ok sh' (E(h \<mapsto> e'))"
proof -
  have "\<forall>a. p = Some a \<longrightarrow> sh a \<noteq> None"
    using assms(3) disconnect_ok [OF assms(1,2)]
    by (auto simp: setopt_SHARE_def bindE_Inr_iff split: if_splits)
  with setopt_SHARE_ok [OF assms(1,2), of p libpsl] assms(3) show ?thesis by simp
qed

lemma share_step_ok: "share_step avail libpsl w w' \<Longrightarrow> shares_ok (fst w) (snd w) \<Longrightarrow> shares_ok (fst w') (snd w')"
proof (induction rule: share_step.induct)
  case (init sh a E)
  then show ?case using share_init_ok by (simp only: fst_conv snd_conv)
next
  case (setopt sh p opt res sh' E)
  then show ?case using share_setopt_ok by simp
next
  case (cleanup sh p res sh' log E)
  then show ?case using share_cleanup_ok by simp
next
  case (new_handle E h sh)
  then show ?case using shares_ok_new by (simp only: fst_conv snd_conv)
next
  case (use_share E h e sh p sh' e')
  then show ?case using use_share_ok by (simp only: fst_conv snd_conv)
next
  case (close_handle E h e sh sh')
  with close_share_ok [of sh E h e] have "shares_ok sh' (E(h := None))" by auto
  then show ?case by (simp only: fst_conv snd_conv)
qed

lemma share_reach_ok: "share_reach avail libpsl w \<Longrightarrow> shares_ok (fst w) (snd w)"
proof (induction rule: share_reach.induct)
  case start
  then show ?case by (simp add: shares_ok_def)
next
  case (step w w')
  then show ?case using share_step_ok by blast
qed

section \<open>Properties\<close>

text \<open>
  C10: whatever a program does with shares and handles, a share counts exactly the handles that
  use it, the pointers of a live handle lead only to data that its share still holds, and
  closing a handle never touches a share that was freed: a share with users cannot be cleaned
  up or changed.
\<close>

theorem share_no_dangling:
  assumes "share_reach avail libpsl (sh, E)" "E h = Some e"
  shows "handle_ok sh e \<and> (\<exists>sh'. close_share sh e = Inr sh') \<and>
    (\<forall>a s. sh a = Some s \<longrightarrow> dirty s = of_nat (users E a) \<and>
       (0 < users E a \<longrightarrow> curl_share_cleanup sh (Some a) = Inr (CURLSHE_IN_USE, sh,
          (if lockfunc s then [Lock CURL_LOCK_DATA_SHARE] else []) @
          (if unlockfunc s then [Unlock CURL_LOCK_DATA_SHARE] else []))))"
proof -
  have ok: "shares_ok sh E" using share_reach_ok [OF assms(1)] by simp
  have "dirty s \<noteq> 0" if "sh a = Some s" "0 < users E a" for a s
  proof
    assume "dirty s = 0"
    from dirty_0_no_users [OF ok that(1) this] have "users E a = 0" by (simp add: users_def)
    with that(2) show False by simp
  qed
  then show ?thesis
    using shares_okD(3,4) [OF ok] close_share_ok [OF ok assms(2)] assms(2)
    by (auto simp: curl_share_cleanup_def Let_def)
qed

theorem share_no_dangling_witness:
  "\<exists>sh e. handle_ok sh e \<and> e_share e = Some 0 \<and> e_cookies e = Some 0 \<and>
     curl_share_cleanup sh (Some 0) = Inr (CURLSHE_IN_USE, sh, [])"
proof -
  let ?s0 = "curl_share_init"
  let ?s1 = "?s0\<lparr>cookies := True, specifier := specifier ?s0 OR flag CURL_LOCK_DATA_COOKIE\<rparr>"
  let ?s2 = "?s1\<lparr>dirty := 1\<rparr>"
  let ?e = "new_easy\<lparr>e_share := Some 0, e_cookies := Some 0\<rparr>"
  let ?A = "\<lambda>_ :: nat. True"
  have "share_reach ?A False ([0 \<mapsto> ?s0], Map.empty)"
    by (rule share_reach.step [OF share_reach.start share_step.init]) simp
  then have "share_reach ?A False ([0 \<mapsto> ?s1], Map.empty)"
    by (rule share_reach.step [OF _ share_step.setopt [where p = "Some 0" and opt = "CURLSHOPT_SHARE CURL_LOCK_DATA_COOKIE" and res = CURLSHE_OK]])
      (simp add: curl_share_setopt_def share_setopt_def share_data_def curl_share_init_def)
  then have "share_reach ?A False ([0 \<mapsto> ?s1], [0 \<mapsto> new_easy])"
    by (rule share_reach.step [OF _ share_step.new_handle]) simp_all
  then have "share_reach ?A False ([0 \<mapsto> ?s2], [0 \<mapsto> new_easy, 0 \<mapsto> ?e])"
    by (rule share_reach.step [OF _ share_step.use_share [where p = "Some 0" and e = new_easy]])
      (simp_all add: setopt_SHARE_def disconnect_def connect_def count_users_eq [of _ 0 _ ?s1] new_easy_def Let_def
        shares_data_def curl_share_init_def flag_def)
  from share_no_dangling [OF this, of 0 ?e] have "handle_ok [0 \<mapsto> ?s2] ?e" by simp
  moreover have "curl_share_cleanup [0 \<mapsto> ?s2] (Some 0) = Inr (CURLSHE_IN_USE, [0 \<mapsto> ?s2], [])"
    by (simp add: curl_share_cleanup_def curl_share_init_def Let_def)
  ultimately show ?thesis by (intro exI [of _ "[0 \<mapsto> ?s2]"] exI [of _ ?e]) (simp add: new_easy_def)
qed

end
