(* ===== verification/Curl_Ctype.thy ===== *)
theory Curl_Ctype
imports Prelude
begin

text \<open>
  The classes of ASCII characters of \<open>curl-8.6.0/lib/curl_ctype.h\<close>, on bytes. For a plain
  \<open>char\<close>, which is signed in this build, a byte above 127 is negative; it is in none of the
  ranges either way.
\<close>

definition ISLOWHEXALHA :: "byte \<Rightarrow> bool" where
  "ISLOWHEXALHA x \<longleftrightarrow> 0x61 \<le> x \<and> x \<le> 0x66"

definition ISUPHEXALHA :: "byte \<Rightarrow> bool" where
  "ISUPHEXALHA x \<longleftrightarrow> 0x41 \<le> x \<and> x \<le> 0x46"

definition ISLOWCNTRL :: "byte \<Rightarrow> bool" where
  "ISLOWCNTRL x \<longleftrightarrow> x \<le> 0x1F"

definition IS7F :: "byte \<Rightarrow> bool" where
  "IS7F x \<longleftrightarrow> x = 0x7F"

definition ISLOWPRINT :: "byte \<Rightarrow> bool" where
  "ISLOWPRINT x \<longleftrightarrow> 9 \<le> x \<and> x \<le> 0x0D"

definition ISPRINT :: "byte \<Rightarrow> bool" where
  "ISPRINT x \<longleftrightarrow> ISLOWPRINT x \<or> 0x20 \<le> x \<and> x \<le> 0x7E"

definition ISGRAPH :: "byte \<Rightarrow> bool" where
  "ISGRAPH x \<longleftrightarrow> ISLOWPRINT x \<or> 0x20 < x \<and> x \<le> 0x7E"

definition ISCNTRL :: "byte \<Rightarrow> bool" where
  "ISCNTRL x \<longleftrightarrow> ISLOWCNTRL x \<or> IS7F x"

definition ISUPPER :: "byte \<Rightarrow> bool" where
  "ISUPPER x \<longleftrightarrow> 0x41 \<le> x \<and> x \<le> 0x5A"

definition ISLOWER :: "byte \<Rightarrow> bool" where
  "ISLOWER x \<longleftrightarrow> 0x61 \<le> x \<and> x \<le> 0x7A"

definition ISDIGIT :: "byte \<Rightarrow> bool" where
  "ISDIGIT x \<longleftrightarrow> 0x30 \<le> x \<and> x \<le> 0x39"

definition ISALPHA :: "byte \<Rightarrow> bool" where
  "ISALPHA x \<longleftrightarrow> ISLOWER x \<or> ISUPPER x"

definition ISXDIGIT :: "byte \<Rightarrow> bool" where
  "ISXDIGIT x \<longleftrightarrow> ISDIGIT x \<or> ISLOWHEXALHA x \<or> ISUPHEXALHA x"

definition ISALNUM :: "byte \<Rightarrow> bool" where
  "ISALNUM x \<longleftrightarrow> ISDIGIT x \<or> ISLOWER x \<or> ISUPPER x"

definition ISBLANK :: "byte \<Rightarrow> bool" where
  "ISBLANK x \<longleftrightarrow> x = 0x20 \<or> x = 9"

definition ISSPACE :: "byte \<Rightarrow> bool" where
  "ISSPACE x \<longleftrightarrow> ISBLANK x \<or> 0xA \<le> x \<and> x \<le> 0x0D"

definition ISURLPUNTCS :: "byte \<Rightarrow> bool" where
  "ISURLPUNTCS x \<longleftrightarrow> x = 0x2D \<or> x = 0x2E \<or> x = 0x5F \<or> x = 0x7E"

definition ISUNRESERVED :: "byte \<Rightarrow> bool" where
  "ISUNRESERVED x \<longleftrightarrow> ISALNUM x \<or> ISURLPUNTCS x"

named_theorems ctype \<open>the classes of characters\<close>

lemmas [ctype] =
  ISLOWHEXALHA_def ISUPHEXALHA_def ISLOWCNTRL_def IS7F_def ISLOWPRINT_def ISPRINT_def ISGRAPH_def ISCNTRL_def
  ISUPPER_def ISLOWER_def ISDIGIT_def ISALPHA_def ISXDIGIT_def ISALNUM_def ISBLANK_def ISSPACE_def
  ISURLPUNTCS_def ISUNRESERVED_def

lemma ctype_0 [simp]:
  "\<not> ISDIGIT 0" "\<not> ISXDIGIT 0" "\<not> ISALNUM 0" "\<not> ISALPHA 0" "\<not> ISUNRESERVED 0" "\<not> ISSPACE 0" "\<not> ISBLANK 0"
  by (simp_all add: ctype)

end
