(* ===== verification/Curl_Escape.thy ===== *)
theory Curl_Escape
imports Curl_Ctype Curl_Dynbuf
begin

text \<open>
  Percent encoding of URLs from \<open>curl-8.6.0/lib/escape.c\<close>. A pointer to memory is the list of
  the bytes that may be read from there on, the terminator of a string included. \<open>strdup\<close> and
  \<open>malloc\<close> tell whether these allocations succeed. The outer option of the encoder is the
  one of the growing buffer.
\<close>

datatype urlreject = REJECT_NADA | REJECT_CTRL | REJECT_ZERO

definition CURL_MAX_INPUT_LENGTH :: u32 where
  "CURL_MAX_INPUT_LENGTH = 8000000"

definition hex_upper :: bytes where
  "hex_upper = bytes_of ''0123456789ABCDEF''"

fun escape_loop ::
  "(u32 \<Rightarrow> bool) \<Rightarrow> (nat \<Rightarrow> byte) \<Rightarrow> bytes \<Rightarrow> nat \<Rightarrow> dynbuf \<Rightarrow> (CURLcode \<times> dynbuf) outcome option" where
  "escape_loop alloc junk str 0 d = Some (Inr (CURLE_OK, d))"
| "escape_loop alloc junk [] (Suc n) d = Some (Inl OobRead)"
| "escape_loop alloc junk (c # str) (Suc n) d =
     (case Curl_dyn_addn alloc junk d
             (if ISUNRESERVED c then [c]
              else [0x25, hex_upper ! unat (drop_bit 4 c), hex_upper ! unat (c AND 0xF)]) of
        None \<Rightarrow> None
      | Some (Inl f) \<Rightarrow> Some (Inl f)
      | Some (Inr (CURLE_OK, d')) \<Rightarrow> escape_loop alloc junk str n d'
      | Some (Inr (e, d')) \<Rightarrow> Some (Inr (e, d')))"

definition curl_easy_escape ::
  "(u32 \<Rightarrow> bool) \<Rightarrow> (nat \<Rightarrow> byte) \<Rightarrow> bool \<Rightarrow> bytes \<Rightarrow> int \<Rightarrow> bytes option outcome option" where
  "curl_easy_escape alloc junk strdup str inlength =
     (if inlength < 0 then Some (Inr None)
      else let len = (if inlength \<noteq> 0 then nat inlength else strlen str) in
           if len = 0 then Some (Inr (if strdup then Some [0] else None))
           else map_option
                  (\<lambda>r. bindE r (\<lambda>(e, d). Inr (if e = CURLE_OK then Curl_dyn_ptr d else None)))
                  (escape_loop alloc junk str len (Curl_dyn_init (CURL_MAX_INPUT_LENGTH * 3))))"

definition hextable :: "byte list" where
  "hextable =
    [0, 1, 2, 3, 4, 5, 6, 7, 8, 9, 0, 0, 0, 0, 0, 0,
     0, 10, 11, 12, 13, 14, 15, 0, 0, 0, 0, 0, 0, 0, 0, 0,
     0, 0, 0, 0, 0, 0, 0, 0, 0, 0, 0, 0, 0, 0, 0, 0,
     0, 10, 11, 12, 13, 14, 15]"

definition onehex2dec :: "byte \<Rightarrow> byte" where
  "onehex2dec x = hextable ! unat (x - 0x30)"

text \<open>
  The decoding loop over \<open>alloc\<close> more bytes: \<open>None\<close> when a rejected byte ends it. The output is
  written to a buffer of the size of the input and one more byte.
\<close>

function urldecode_loop :: "urlreject \<Rightarrow> bytes \<Rightarrow> nat \<Rightarrow> outbuf \<Rightarrow> outbuf option outcome" where
  "urldecode_loop ctrl str alloc b =
     (if alloc = 0 then Inr (Some b)
      else case str of
             [] \<Rightarrow> Inl OobRead
           | c # rest \<Rightarrow>
               let pct = (c = 0x25 \<and> alloc > 2 \<and> (case rest of x # y # _ \<Rightarrow> ISXDIGIT x \<and> ISXDIGIT y | _ \<Rightarrow> False));
                   v = (if pct then push_bit 4 (onehex2dec (rest ! 0)) OR onehex2dec (rest ! 1) else c);
                   str' = (if pct then drop 2 rest else rest);
                   alloc' = (if pct then alloc - 3 else alloc - 1) in
               if ctrl = REJECT_CTRL \<and> v < 0x20 \<or> ctrl = REJECT_ZERO \<and> v = 0 then Inr None
               else bindE (put v b) (urldecode_loop ctrl str' alloc'))"
  by pat_completeness auto

termination urldecode_loop
  by (relation "measure (\<lambda>(_, _, alloc, _). alloc)") auto

declare urldecode_loop.simps [simp del]

text \<open>The result: the code, the string with its terminator, and its length.\<close>

definition Curl_urldecode ::
  "(nat \<Rightarrow> bool) \<Rightarrow> byte \<Rightarrow> bytes \<Rightarrow> nat \<Rightarrow> urlreject \<Rightarrow> (CURLcode \<times> (bytes \<times> nat) option) outcome" where
  "Curl_urldecode malloc junk str len ctrl =
     (let alloc = (if len \<noteq> 0 then len else strlen str) in
      if \<not> malloc (alloc + 1) then Inr (CURLE_OUT_OF_MEMORY, None)
      else bindE (urldecode_loop ctrl str alloc \<lparr>cells = replicate (alloc + 1) junk, pos = 0\<rparr>)
        (\<lambda>r. case r of
               None \<Rightarrow> Inr (CURLE_URL_MALFORMAT, None)
             | Some b \<Rightarrow> bindE (put 0 b) (\<lambda>b'. Inr (CURLE_OK, Some (written b', pos b)))))"

definition curl_easy_unescape ::
  "(nat \<Rightarrow> bool) \<Rightarrow> byte \<Rightarrow> bytes \<Rightarrow> int \<Rightarrow> (bytes \<times> nat) option outcome" where
  "curl_easy_unescape malloc junk str len =
     (if len \<ge> 0
      then bindE (Curl_urldecode malloc junk str (nat len) REJECT_NADA)
        (\<lambda>(res, r). Inr (if res \<noteq> CURLE_OK then None
                          else case r of None \<Rightarrow> None | Some (s, n) \<Rightarrow> if n \<le> 2147483647 then r else None))
      else Inr None)"

definition hex_lower :: bytes where
  "hex_lower = bytes_of ''0123456789abcdef''"

fun hexencode_loop :: "bytes \<Rightarrow> nat \<Rightarrow> outbuf \<Rightarrow> outbuf outcome" where
  "hexencode_loop [] olen b = Inr b"
| "hexencode_loop (c # src) olen b =
     (if olen \<ge> 3
      then bindE (put (hex_lower ! unat (drop_bit 4 (c AND 0xF0))) b)
        (\<lambda>b. bindE (put (hex_lower ! unat (c AND 0x0F)) b) (hexencode_loop src (olen - 2)))
      else Inr b)"

definition Curl_hexencode :: "bytes \<Rightarrow> outbuf \<Rightarrow> nat \<Rightarrow> outbuf outcome" where
  "Curl_hexencode src b olen =
     (if src \<noteq> [] \<and> olen \<ge> 3 then bindE (hexencode_loop src olen b) (put 0)
      else if olen \<noteq> 0 then put 0 b
      else Inr b)"

section \<open>References\<close>

definition esc :: "byte \<Rightarrow> bytes" where
  "esc c = (if ISUNRESERVED c then [c]
            else [0x25, hex_upper ! unat (drop_bit 4 c), hex_upper ! unat (c AND 0xF)])"

definition url_escape :: "bytes \<Rightarrow> bytes" where
  "url_escape s = concat (map esc s)"

fun url_unescape :: "bytes \<Rightarrow> bytes" where
  "url_unescape (c # x # y # s) =
     (if c = 0x25 \<and> ISXDIGIT x \<and> ISXDIGIT y
      then (push_bit 4 (onehex2dec x) OR onehex2dec y) # url_unescape s
      else c # url_unescape (x # y # s))"
| "url_unescape (c # s) = c # url_unescape s"
| "url_unescape [] = []"

section \<open>Encoding\<close>

lemma nibble_lt: "unat (drop_bit 4 (c :: byte)) < 16" "unat (c AND 0xF) < 16"
proof -
  show "unat (drop_bit 4 c) < 16" using unat_byte [of c] by (simp add: unat_shift_down less_mult_imp_div_less)
  show "unat (c AND 0xF) < 16" using unat_and_mask [of c 4] by simp
qed

lemma hex_upper_ok:
  assumes "n < 16"
  shows "ISXDIGIT (hex_upper ! n)" "onehex2dec (hex_upper ! n) = of_nat n" "hex_upper ! n \<noteq> 0x25" "hex_upper ! n \<noteq> 0"
proof -
  have "list_all (\<lambda>n. ISXDIGIT (hex_upper ! n) \<and> onehex2dec (hex_upper ! n) = of_nat n \<and> hex_upper ! n \<noteq> 0x25 \<and>
      hex_upper ! n \<noteq> 0) [0..<16]"
    by code_simp
  with assms show "ISXDIGIT (hex_upper ! n)" "onehex2dec (hex_upper ! n) = of_nat n"
    "hex_upper ! n \<noteq> 0x25" "hex_upper ! n \<noteq> 0" by (auto simp: list_all_iff)
qed

lemma nibbles: "push_bit 4 (drop_bit 4 c) OR (c AND 0xF) = (c :: byte)"
proof -
  have "c AND 0xF = take_bit 4 c" by (simp add: take_bit_eq_mask mask_eq_exp_minus_1)
  then show ?thesis by (auto intro!: bit_word_eqI simp: bit_simps)
qed

lemma esc_ne: "esc c \<noteq> []" "length (esc c) \<le> 3" "0 \<notin> set (esc c)"
proof -
  have "hex_upper ! unat (drop_bit 4 c) \<noteq> 0" "hex_upper ! unat (c AND 0xF) \<noteq> 0"
    using hex_upper_ok(4) nibble_lt by blast+
  then show "0 \<notin> set (esc c)" by (auto simp: esc_def)
qed (simp_all add: esc_def)

lemma url_escape_Cons: "url_escape (c # s) = esc c @ url_escape s"
  by (simp add: url_escape_def)

lemma url_escape_no_nul: "0 \<notin> set (url_escape s)"
  using esc_ne(3) by (auto simp: url_escape_def)

lemma url_unescape_plain: "c \<noteq> 0x25 \<Longrightarrow> url_unescape (c # s) = c # url_unescape s"
  by (cases s; cases "tl s") auto

lemma url_unescape_esc: "url_unescape (esc c @ s) = c # url_unescape s"
proof (cases "ISUNRESERVED c")
  case True
  then have "c \<noteq> 0x25" by (auto simp: ctype)
  with True show ?thesis by (simp add: esc_def url_unescape_plain)
next
  case False
  have "url_unescape (esc c @ s) =
    (push_bit 4 (of_nat (unat (drop_bit 4 c))) OR of_nat (unat (c AND 0xF))) # url_unescape s"
    using False hex_upper_ok(1,2) [OF nibble_lt(1) [of c]] hex_upper_ok(1,2) [OF nibble_lt(2) [of c]]
    by (simp only: esc_def if_False append_Cons append_Nil url_unescape.simps if_True HOL.simp_thms)
  also have "push_bit 4 (of_nat (unat (drop_bit 4 c))) OR of_nat (unat (c AND 0xF)) = c"
    using nibbles [of c] by simp
  finally show ?thesis .
qed

lemma url_unescape_escape: "url_unescape (url_escape s) = s"
  by (induction s) (simp_all add: url_escape_Cons url_unescape_esc, simp add: url_escape_def)

lemma escape_loop_ok:
  assumes "n \<le> length str" "dyn_ok d" "unat (toobig d) \<le> 2 ^ 31"
  shows "\<exists>e d'. escape_loop (\<lambda>_. True) junk str n d = Some (Inr (e, d')) \<and>
    (if length (content d) + length (url_escape (take n str)) < unat (toobig d)
     then e = CURLE_OK \<and> dyn_ok d' \<and> content d' = content d @ url_escape (take n str) \<and> (n \<noteq> 0 \<longrightarrow> bufr d' \<noteq> None)
     else n \<noteq> 0 \<longrightarrow> e \<noteq> CURLE_OK)"
  using assms
proof (induction n arbitrary: str d)
  case 0
  then show ?case by (simp add: url_escape_def)
next
  case (Suc n str0)
  then obtain c str where str0: "str0 = c # str" and n: "n \<le> length str" by (cases str0) auto
  have "length (esc c) + unat (toobig d) < 2 ^ 32" using Suc.prems(3) esc_ne(2) [of c] by simp
  from dyn_nappend_cases [OF Suc.prems(2) this, of "\<lambda>_. True" junk] obtain e d' where
    d': "Curl_dyn_addn (\<lambda>_. True) junk d (esc c) = Some (Inr (e, d'))" "dyn_ok d'" "toobig d' = toobig d"
      "if unat (toobig d) < length (content d) + length (esc c) + 1 then e = CURLE_TOO_LARGE
       else e = CURLE_OK \<and> content d' = content d @ esc c \<and> bufr d' \<noteq> None"
    by (auto simp: Curl_dyn_addn_def split: if_splits)
  show ?case
  proof (cases "unat (toobig d) < length (content d) + length (esc c) + 1")
    case True
    with d' show ?thesis by (simp add: str0 url_escape_Cons flip: esc_def)
  next
    case False
    with d'(4) have ok: "e = CURLE_OK" "content d' = content d @ esc c" "bufr d' \<noteq> None" by auto
    from Suc.IH [OF n d'(2)] d'(3) Suc.prems(3) obtain e' d'' where
      IH: "escape_loop (\<lambda>_. True) junk str n d' = Some (Inr (e', d''))"
        "if length (content d') + length (url_escape (take n str)) < unat (toobig d')
         then e' = CURLE_OK \<and> dyn_ok d'' \<and> content d'' = content d' @ url_escape (take n str) \<and> (n \<noteq> 0 \<longrightarrow> bufr d'' \<noteq> None)
         else n \<noteq> 0 \<longrightarrow> e' \<noteq> CURLE_OK"
      by auto
    have "escape_loop (\<lambda>_. True) junk str0 (Suc n) d = Some (Inr (e', d''))"
      using d'(1) ok(1) IH(1) by (simp add: str0 flip: esc_def)
    moreover have "bufr d'' \<noteq> None" if "n = 0" using that IH(1) ok(3) by simp
    ultimately show ?thesis using IH(2) ok d'(3) False
      by (cases "n = 0") (auto simp: str0 url_escape_Cons url_escape_def split: if_splits)
  qed
qed

lemma c_str_bufr:
  assumes "dyn_ok d" "bufr d = Some cs" "0 \<notin> set (content d)"
  shows "c_str cs = content d"
proof -
  have "unat (leng d) < length cs" "cs ! unat (leng d) = 0" using assms(1,2) by (simp_all add: dyn_ok_def)
  from id_take_nth_drop [OF this(1)] this(2)
  have "cs = content d @ 0 # drop (Suc (unat (leng d))) cs" using assms(2) by (simp add: content_def)
  moreover have "c_str (xs @ 0 # ys) = xs" if "0 \<notin> set xs" for xs ys using that by (induction xs) auto
  ultimately show ?thesis using assms(3) by metis
qed

section \<open>Decoding\<close>

definition rejects :: "urlreject \<Rightarrow> byte \<Rightarrow> bool" where
  "rejects ctrl v \<longleftrightarrow> ctrl = REJECT_CTRL \<and> v < 0x20 \<or> ctrl = REJECT_ZERO \<and> v = 0"

lemma url_unescape_step:
  assumes "0 < n" "n \<le> length (c # rest)"
  shows "url_unescape (take n (c # rest)) =
    (if c = 0x25 \<and> n > 2 \<and> (case rest of x # y # _ \<Rightarrow> ISXDIGIT x \<and> ISXDIGIT y | _ \<Rightarrow> False)
     then (push_bit 4 (onehex2dec (rest ! 0)) OR onehex2dec (rest ! 1)) # url_unescape (take (n - 3) (drop 2 rest))
     else c # url_unescape (take (n - 1) rest))"
proof (cases "n > 2")
  case True
  then obtain x y s where "rest = x # y # s" using assms by (cases rest; cases "tl rest") auto
  moreover obtain m where "n = Suc (Suc (Suc m))" using True by (metis Suc_lessE less_Suc_eq numeral_2_eq_2)
  ultimately show ?thesis by simp
next
  case False
  then have "n = 1 \<or> n = 2" using assms by auto
  then show ?thesis using assms by (cases rest) (auto simp: numeral_2_eq_2)
qed

lemma urldecode_loop_ok:
  "\<lbrakk>alloc \<le> length str; pos b + alloc \<le> length (cells b)\<rbrakk> \<Longrightarrow>
     if list_ex (rejects ctrl) (url_unescape (take alloc str)) then urldecode_loop ctrl str alloc b = Inr None
     else \<exists>b'. urldecode_loop ctrl str alloc b = Inr (Some b') \<and> length (cells b') = length (cells b) \<and>
       pos b' = pos b + length (url_unescape (take alloc str)) \<and> pos b' \<le> pos b + alloc \<and>
       written b' = written b @ url_unescape (take alloc str)"
proof (induction alloc arbitrary: str b rule: less_induct)
  case (less alloc)
  show ?case
  proof (cases "alloc = 0")
    case True
    then show ?thesis by (subst urldecode_loop.simps) simp
  next
    case False
    then obtain c rest where str: "str = c # rest" using less.prems by (cases str) auto
    define pct where "pct = (c = 0x25 \<and> alloc > 2 \<and> (case rest of x # y # _ \<Rightarrow> ISXDIGIT x \<and> ISXDIGIT y | _ \<Rightarrow> False))"
    define v where "v = (if pct then push_bit 4 (onehex2dec (rest ! 0)) OR onehex2dec (rest ! 1) else c)"
    define str' where "str' = (if pct then drop 2 rest else rest)"
    define alloc' where "alloc' = (if pct then alloc - 3 else alloc - 1)"
    have un: "url_unescape (take alloc str) = v # url_unescape (take alloc' str')"
      using url_unescape_step [of alloc c rest] False less.prems(1)
      by (simp add: str pct_def v_def str'_def alloc'_def)
    have loop: "urldecode_loop ctrl str alloc b =
      (if rejects ctrl v then Inr None else bindE (put v b) (urldecode_loop ctrl str' alloc'))"
      using False by (subst urldecode_loop.simps) (simp add: str pct_def v_def str'_def alloc'_def rejects_def Let_def)
    have lt: "alloc' < alloc" using False by (simp add: alloc'_def)
    have le: "alloc' \<le> length str'" "alloc' + 1 \<le> alloc"
      using less.prems(1) False by (auto simp: alloc'_def str'_def str pct_def)
    from put_ok [of b v] less.prems(2) False obtain b1 where
      b1: "put v b = Inr b1" "length (cells b1) = length (cells b)" "pos b1 = pos b + 1" "written b1 = written b @ [v]"
      by auto
    from less.IH [OF lt le(1), of b1] b1 le(2) less.prems(2)
    have IH: "if list_ex (rejects ctrl) (url_unescape (take alloc' str')) then urldecode_loop ctrl str' alloc' b1 = Inr None
     else \<exists>b'. urldecode_loop ctrl str' alloc' b1 = Inr (Some b') \<and> length (cells b') = length (cells b1) \<and>
       pos b' = pos b1 + length (url_unescape (take alloc' str')) \<and> pos b' \<le> pos b1 + alloc' \<and>
       written b' = written b1 @ url_unescape (take alloc' str')" by simp
    show ?thesis using IH b1 le(2) unfolding un loop by (auto split: if_splits)
  qed
qed

lemma Curl_urldecode_ok:
  assumes "n \<le> length str" "n \<noteq> 0 \<or> strlen str = 0"
  shows "Curl_urldecode (\<lambda>_. True) junk str n ctrl =
    Inr (if list_ex (rejects ctrl) (url_unescape (take n str)) then (CURLE_URL_MALFORMAT, None)
         else (CURLE_OK, Some (url_unescape (take n str) @ [0], length (url_unescape (take n str)))))"
proof -
  let ?b = "\<lparr>cells = replicate (n + 1) junk, pos = 0\<rparr>"
  let ?u = "url_unescape (take n str)"
  have n: "(if n \<noteq> 0 then n else strlen str) = n" using assms(2) by auto
  show ?thesis
  proof (cases "list_ex (rejects ctrl) ?u")
    case True
    then show ?thesis using urldecode_loop_ok [OF assms(1), of ?b ctrl] unfolding Curl_urldecode_def n by simp
  next
    case False
    then obtain b where b: "urldecode_loop ctrl str n ?b = Inr (Some b)" "length (cells b) = n + 1"
        "pos b = length ?u" "pos b \<le> n" "written b = ?u"
      using urldecode_loop_ok [OF assms(1), of ?b ctrl] by (auto simp: written_def)
    with put_ok [of b 0] obtain b' where "put 0 b = Inr b'" "written b' = ?u @ [0]" by auto
    with False b show ?thesis unfolding Curl_urldecode_def n by simp
  qed
qed

lemma curl_easy_escape_ok:
  assumes "length s < 2 ^ 31"
  shows "if length (url_escape s) < 24000000
    then \<exists>cs. curl_easy_escape (\<lambda>_. True) junk True (s @ [0]) (int (length s)) = Some (Inr (Some cs)) \<and>
      c_str cs = url_escape s \<and> length (url_escape s) < length cs
    else curl_easy_escape (\<lambda>_. True) junk True (s @ [0]) (int (length s)) = Some (Inr None)"
proof (cases "s = []")
  case True
  then show ?thesis by (simp add: curl_easy_escape_def url_escape_def strlen_def)
next
  case False
  let ?d = "Curl_dyn_init (CURL_MAX_INPUT_LENGTH * 3)"
  have t: "unat (toobig ?d) = 24000000" by (simp add: Curl_dyn_init_def CURL_MAX_INPUT_LENGTH_def)
  have d: "dyn_ok ?d" "content ?d = []"
    using dyn_init_ok [of "CURL_MAX_INPUT_LENGTH * 3"] by (simp_all add: CURL_MAX_INPUT_LENGTH_def)
  from escape_loop_ok [of "length s" "s @ [0]" ?d junk] t d False obtain e d' where
    l: "escape_loop (\<lambda>_. True) junk (s @ [0]) (length s) ?d = Some (Inr (e, d'))"
      "if length (url_escape s) < 24000000
       then e = CURLE_OK \<and> dyn_ok d' \<and> content d' = url_escape s \<and> bufr d' \<noteq> None else e \<noteq> CURLE_OK"
    by auto
  show ?thesis
  proof (cases "length (url_escape s) < 24000000")
    case True
    with l(2) obtain cs where cs: "bufr d' = Some cs" "e = CURLE_OK" "dyn_ok d'" "content d' = url_escape s" by auto
    then have "c_str cs = url_escape s" using c_str_bufr url_escape_no_nul by metis
    moreover have "length (url_escape s) < length cs"
      using length_content [OF cs(3)] cs by (simp add: dyn_ok_def)
    ultimately show ?thesis using True l(1) cs False by (simp add: curl_easy_escape_def Curl_dyn_ptr_def)
  next
    case False
    with l \<open>s \<noteq> []\<close> show ?thesis by (simp add: curl_easy_escape_def)
  qed
qed

text \<open>The writer of hexadecimal digits stays inside of a buffer of the size it is told.\<close>

lemma hexencode_loop_ok:
  "\<lbrakk>pos b + olen \<le> length (cells b); 0 < olen\<rbrakk> \<Longrightarrow>
     \<exists>b'. hexencode_loop src olen b = Inr b' \<and> pos b' < length (cells b')"
proof (induction src arbitrary: olen b)
  case (Cons c src)
  show ?case
  proof (cases "olen \<ge> 3")
    case True
    let ?x = "hex_lower ! unat (drop_bit 4 (c AND 0xF0))" and ?y = "hex_lower ! unat (c AND 0x0F)"
    from True Cons.prems obtain b1 where b1: "put ?x b = Inr b1" "length (cells b1) = length (cells b)" "pos b1 = pos b + 1"
      using put_ok [of b ?x] by auto
    with True Cons.prems obtain b2 where b2: "put ?y b1 = Inr b2" "length (cells b2) = length (cells b)" "pos b2 = pos b + 2"
      using put_ok [of b1 ?y] by auto
    with Cons.IH [of b2 "olen - 2"] Cons.prems True b1 show ?thesis by simp
  qed (use Cons.prems in auto)
qed auto

lemma Curl_hexencode_safe:
  assumes "pos b + olen \<le> length (cells b)"
  shows "\<exists>b'. Curl_hexencode src b olen = Inr b'"
proof (cases "src \<noteq> [] \<and> olen \<ge> 3")
  case True
  with hexencode_loop_ok [of b olen src] assms obtain b1 where
    "hexencode_loop src olen b = Inr b1" "pos b1 < length (cells b1)" by auto
  with True put_ok [of b1 0] show ?thesis by (auto simp: Curl_hexencode_def)
next
  case False
  with assms put_ok [of b 0] show ?thesis by (auto simp: Curl_hexencode_def)
qed

lemma take_c_str: "take (length (c_str cs)) cs = c_str cs"
  by (induction cs) auto

section \<open>Properties\<close>



text \<open>
  C28: decoding any memory of the given length writes exactly the decoded bytes and a
  terminator, inside of the buffer that was allocated for them, and fails exactly when a
  decoded byte is one of the rejected ones.
\<close>

theorem urldecode_correct:
  assumes "n \<le> length str" "0 < n"
  shows "Curl_urldecode (\<lambda>_. True) junk str n ctrl =
    Inr (if list_ex (rejects ctrl) (url_unescape (take n str)) then (CURLE_URL_MALFORMAT, None)
         else (CURLE_OK, Some (url_unescape (take n str) @ [0], length (url_unescape (take n str)))))"
  using assms by (intro Curl_urldecode_ok) simp_all

theorem urldecode_correct_witness:
  "Curl_urldecode (\<lambda>_. True) 7 (bytes_of ''x%00y%2'') 7 REJECT_CTRL = Inr (CURLE_URL_MALFORMAT, None) \<and>
   Curl_urldecode (\<lambda>_. True) 7 (bytes_of ''x%41y%2'') 7 REJECT_CTRL = Inr (CURLE_OK, Some (bytes_of ''xAy%2'' @ [0], 5))"
proof
  have "list_ex (rejects REJECT_CTRL) (url_unescape (take 7 (bytes_of ''x%00y%2'')))" by code_simp
  then show "Curl_urldecode (\<lambda>_. True) 7 (bytes_of ''x%00y%2'') 7 REJECT_CTRL = Inr (CURLE_URL_MALFORMAT, None)"
    by (subst urldecode_correct) simp_all
  have u: "url_unescape (take 7 (bytes_of ''x%41y%2'')) = bytes_of ''xAy%2''" by code_simp
  have "\<not> list_ex (rejects REJECT_CTRL) (bytes_of ''xAy%2'')" by code_simp
  then show "Curl_urldecode (\<lambda>_. True) 7 (bytes_of ''x%41y%2'') 7 REJECT_CTRL = Inr (CURLE_OK, Some (bytes_of ''xAy%2'' @ [0], 5))"
    by (subst urldecode_correct, simp, simp, unfold u) simp
qed

end
