(* ===== verification/Curl_Setopt.thy ===== *)
theory Curl_Setopt
imports Options Curl_Share Curl_Escape
begin

text \<open>
  Setting options of an easy handle, \<open>curl-8.6.0/lib/setopt.c\<close>, and how a transfer begins with
  them, \<open>transfer.c\<close>. The options are those with an effect on the request method, on the data that is sent and
  received and on the callbacks; every other option leaves these fields as they are. The options
  \<open>CURLOPT_SHARE\<close> and \<open>CURLOPT_MIMEPOST\<close> also change the share and the MIME data, so
  \<open>curl_easy_setopt\<close> works on everything that libcurl holds.

  The variable argument carries the type that it was passed with. \<open>setopt.c\<close> reads it at the
  type of the option, and reading it at another type is a fault.
\<close>

section \<open>Arguments\<close>

text \<open>
  Pointers by what they lead to: the standard streams, a text of the program with a number, a
  text that belongs to a value of the script, a local variable of a function call with a
  number, an open file, and the copy that libcurl made of the post data.
\<close>

datatype ptr = Null | Stdin | Stdout | Text nat | Script_text | Local nat | File nat | Copied

datatype callback =
    Cb_null | Cb_fread | Cb_fwrite | Cb_read_callback | Cb_curl_swrite | Cb_curl_fwrite
  | Cb_progress_function | Cb_my_trace

datatype opt_arg =
    is_long: ALong int
  | is_off: AOff int
  | is_chars: AChars ptr bytes
  | is_slist: ASlist "nat option"
  | is_ptr: APtr ptr
  | is_fun: AFun callback
  | is_share: AShare "nat option"
  | is_mime: AMime "nat option"

abbreviation CURLOPT_WRITEDATA :: CURLoption where "CURLOPT_WRITEDATA \<equiv> 10001"
abbreviation CURLOPT_READDATA :: CURLoption where "CURLOPT_READDATA \<equiv> 10009"
abbreviation CURLOPT_ERRORBUFFER :: CURLoption where "CURLOPT_ERRORBUFFER \<equiv> 10010"
abbreviation CURLOPT_WRITEFUNCTION :: CURLoption where "CURLOPT_WRITEFUNCTION \<equiv> 20011"
abbreviation CURLOPT_READFUNCTION :: CURLoption where "CURLOPT_READFUNCTION \<equiv> 20012"
abbreviation CURLOPT_INFILESIZE :: CURLoption where "CURLOPT_INFILESIZE \<equiv> 14"
abbreviation CURLOPT_POSTFIELDS :: CURLoption where "CURLOPT_POSTFIELDS \<equiv> 10015"
abbreviation CURLOPT_HTTPHEADER :: CURLoption where "CURLOPT_HTTPHEADER \<equiv> 10023"
abbreviation CURLOPT_CUSTOMREQUEST :: CURLoption where "CURLOPT_CUSTOMREQUEST \<equiv> 10036"
abbreviation CURLOPT_VERBOSE :: CURLoption where "CURLOPT_VERBOSE \<equiv> 41"
abbreviation CURLOPT_HEADER :: CURLoption where "CURLOPT_HEADER \<equiv> 42"
abbreviation CURLOPT_NOPROGRESS :: CURLoption where "CURLOPT_NOPROGRESS \<equiv> 43"
abbreviation CURLOPT_NOBODY :: CURLoption where "CURLOPT_NOBODY \<equiv> 44"
abbreviation CURLOPT_FAILONERROR :: CURLoption where "CURLOPT_FAILONERROR \<equiv> 45"
abbreviation CURLOPT_UPLOAD :: CURLoption where "CURLOPT_UPLOAD \<equiv> 46"
abbreviation CURLOPT_POST :: CURLoption where "CURLOPT_POST \<equiv> 47"
abbreviation CURLOPT_FOLLOWLOCATION :: CURLoption where "CURLOPT_FOLLOWLOCATION \<equiv> 52"
abbreviation CURLOPT_PUT :: CURLoption where "CURLOPT_PUT \<equiv> 54"
abbreviation CURLOPT_XFERINFODATA :: CURLoption where "CURLOPT_XFERINFODATA \<equiv> 10057"
abbreviation CURLOPT_AUTOREFERER :: CURLoption where "CURLOPT_AUTOREFERER \<equiv> 58"
abbreviation CURLOPT_POSTFIELDSIZE :: CURLoption where "CURLOPT_POSTFIELDSIZE \<equiv> 60"
abbreviation CURLOPT_SSL_VERIFYPEER :: CURLoption where "CURLOPT_SSL_VERIFYPEER \<equiv> 64"
abbreviation CURLOPT_MAXREDIRS :: CURLoption where "CURLOPT_MAXREDIRS \<equiv> 68"
abbreviation CURLOPT_HTTPGET :: CURLoption where "CURLOPT_HTTPGET \<equiv> 80"
abbreviation CURLOPT_SSL_VERIFYHOST :: CURLoption where "CURLOPT_SSL_VERIFYHOST \<equiv> 81"
abbreviation CURLOPT_DEBUGFUNCTION :: CURLoption where "CURLOPT_DEBUGFUNCTION \<equiv> 20094"
abbreviation CURLOPT_SHARE :: CURLoption where "CURLOPT_SHARE \<equiv> 10100"
abbreviation CURLOPT_ACCEPT_ENCODING :: CURLoption where "CURLOPT_ACCEPT_ENCODING \<equiv> 10102"
abbreviation CURLOPT_PRIVATE :: CURLoption where "CURLOPT_PRIVATE \<equiv> 10103"
abbreviation CURLOPT_UNRESTRICTED_AUTH :: CURLoption where "CURLOPT_UNRESTRICTED_AUTH \<equiv> 105"
abbreviation CURLOPT_INFILESIZE_LARGE :: CURLoption where "CURLOPT_INFILESIZE_LARGE \<equiv> 30115"
abbreviation CURLOPT_POSTFIELDSIZE_LARGE :: CURLoption where "CURLOPT_POSTFIELDSIZE_LARGE \<equiv> 30120"
abbreviation CURLOPT_POSTREDIR :: CURLoption where "CURLOPT_POSTREDIR \<equiv> 161"
abbreviation CURLOPT_COPYPOSTFIELDS :: CURLoption where "CURLOPT_COPYPOSTFIELDS \<equiv> 10165"
abbreviation CURLOPT_MAIL_RCPT :: CURLoption where "CURLOPT_MAIL_RCPT \<equiv> 10187"
abbreviation CURLOPT_TRANSFER_ENCODING :: CURLoption where "CURLOPT_TRANSFER_ENCODING \<equiv> 207"
abbreviation CURLOPT_XFERINFOFUNCTION :: CURLoption where "CURLOPT_XFERINFOFUNCTION \<equiv> 20219"
abbreviation CURLOPT_KEEP_SENDING_ON_ERROR :: CURLoption where "CURLOPT_KEEP_SENDING_ON_ERROR \<equiv> 245"
abbreviation CURLOPT_MIMEPOST :: CURLoption where "CURLOPT_MIMEPOST \<equiv> 10269"

text \<open>The type at which an option reads its argument, and whether an argument has that type.\<close>

definition option_type :: "CURLoption \<Rightarrow> curl_easytype option" where
  "option_type i =
     map_option (\<lambda>(_, _, t, _). t) (find (\<lambda>(_, j, _, f). j = i \<and> f AND CURLOT_FLAG_ALIAS = 0) easyopt_rows)"

fun arg_fits :: "CURLoption \<Rightarrow> curl_easytype \<Rightarrow> opt_arg \<Rightarrow> bool" where
  "arg_fits i CURLOT_LONG a = is_long a"
| "arg_fits i CURLOT_VALUES a = is_long a"
| "arg_fits i CURLOT_OFF_T a = is_off a"
| "arg_fits i CURLOT_STRING a = is_chars a"
| "arg_fits i CURLOT_SLIST a = is_slist a"
| "arg_fits i CURLOT_FUNCTION a = is_fun a"
| "arg_fits i CURLOT_CBPTR a = (is_ptr a \<or> is_chars a)"
| "arg_fits i CURLOT_BLOB a = False"
| "arg_fits i CURLOT_OBJECT a =
     (if i = CURLOPT_SHARE then is_share a
      else if i = CURLOPT_MIMEPOST then is_mime a
      else if i = CURLOPT_POSTFIELDS \<or> i = CURLOPT_COPYPOSTFIELDS \<or> i = CURLOPT_PRIVATE \<or> i = CURLOPT_ERRORBUFFER
        then is_chars a
      else False)"

section \<open>The options of a handle\<close>

datatype Curl_HttpReq =
    HTTPREQ_GET | HTTPREQ_POST | HTTPREQ_POST_FORM | HTTPREQ_POST_MIME | HTTPREQ_PUT | HTTPREQ_HEAD

record UserDefined =
  verbose :: bool
  include_header :: bool
  hide_progress :: bool
  opt_no_body :: bool
  http_fail_on_error :: bool
  http_keep_sending_on_error :: bool
  set_method :: Curl_HttpReq
  copypostfields :: "bytes option"
  postfields :: ptr
  postfieldsize :: int
  http_auto_referer :: bool
  encoding :: "bytes option"
  http_transfer_encoding :: bool
  http_follow_location :: bool
  allow_auth_to_other_hosts :: bool
  maxredirs :: int
  keep_post :: int
  set_headers :: "nat option"
  mimepost :: "nat option"
  customrequest :: "bytes option"
  set_out :: ptr
  in_set :: ptr
  filesize :: int
  fxferinfo :: callback
  progress_client :: ptr
  fdebug :: callback
  fwrite_func :: callback
  fread_func_set :: callback
  is_fread_set :: bool
  verifypeer :: bool
  verifyhost :: bool
  mail_rcpt :: "nat option"

definition Curl_init_userdefined :: UserDefined where
  "Curl_init_userdefined =
     \<lparr>verbose = False, include_header = False, hide_progress = True, opt_no_body = False, http_fail_on_error = False,
      http_keep_sending_on_error = False, set_method = HTTPREQ_GET, copypostfields = None, postfields = Null,
      postfieldsize = -1, http_auto_referer = False, encoding = None, http_transfer_encoding = False,
      http_follow_location = False, allow_auth_to_other_hosts = False, maxredirs = 30, keep_post = 0,
      set_headers = None, mimepost = None, customrequest = None, set_out = Stdout, in_set = Stdin, filesize = -1,
      fxferinfo = Cb_null, progress_client = Null, fdebug = Cb_null, fwrite_func = Cb_fwrite,
      fread_func_set = Cb_fread, is_fread_set = False, verifypeer = True, verifyhost = True, mail_rcpt = None\<rparr>"

text \<open>Replacing a string that libcurl keeps a copy of.\<close>

definition Curl_setstropt :: "bytes option \<Rightarrow> CURLcode \<times> bytes option" where
  "Curl_setstropt s =
     (case s of
        None \<Rightarrow> (CURLE_OK, None)
      | Some cs \<Rightarrow> if strlen cs > unat CURL_MAX_INPUT_LENGTH then (CURLE_BAD_FUNCTION_ARGUMENT, None)
                   else (CURLE_OK, Some (c_str cs)))"

text \<open>\<open>CURLOPT_COPYPOSTFIELDS\<close>: with a size set before, that many bytes are copied from the argument.\<close>

definition setopt_COPYPOSTFIELDS :: "ptr \<Rightarrow> bytes \<Rightarrow> UserDefined \<Rightarrow> (CURLcode \<times> UserDefined) outcome" where
  "setopt_COPYPOSTFIELDS p cs s =
     bindE (if p = Null \<or> postfieldsize s = -1
            then Inr (Curl_setstropt (if p = Null then None else Some cs))
            else if postfieldsize s < 0 \<or> postfieldsize s > 4294967295 then Inr (CURLE_OUT_OF_MEMORY, copypostfields s)
            else if int (length cs) + 1 < postfieldsize s then Inl OobRead
            else Inr (CURLE_OK, Some (take (nat (postfieldsize s)) (cs @ [0]))))
       (\<lambda>(res, str). Inr (res, s\<lparr>copypostfields := str, postfields := (if str = None then Null else Copied),
          set_method := HTTPREQ_POST\<rparr>))"

definition setopt_POSTFIELDSIZE :: "int \<Rightarrow> UserDefined \<Rightarrow> CURLcode \<times> UserDefined" where
  "setopt_POSTFIELDSIZE bigsize s =
     (if bigsize < -1 then (CURLE_BAD_FUNCTION_ARGUMENT, s)
      else let s1 = (if postfieldsize s < bigsize \<and> postfields s = (if copypostfields s = None then Null else Copied)
                     then s\<lparr>copypostfields := None, postfields := Null\<rparr> else s) in
           (CURLE_OK, s1\<lparr>postfieldsize := bigsize\<rparr>))"

text \<open>Options that read a \<open>long\<close>.\<close>

definition setopt_long :: "CURLoption \<Rightarrow> int \<Rightarrow> UserDefined \<Rightarrow> CURLcode \<times> UserDefined" where
  "setopt_long i arg s =
     (if i = CURLOPT_VERBOSE then (CURLE_OK, s\<lparr>verbose := arg \<noteq> 0\<rparr>)
      else if i = CURLOPT_HEADER then (CURLE_OK, s\<lparr>include_header := arg \<noteq> 0\<rparr>)
      else if i = CURLOPT_NOPROGRESS then (CURLE_OK, s\<lparr>hide_progress := arg \<noteq> 0\<rparr>)
      else if i = CURLOPT_NOBODY
        then (CURLE_OK, s\<lparr>opt_no_body := arg \<noteq> 0,
               set_method := (if arg \<noteq> 0 then HTTPREQ_HEAD else if set_method s = HTTPREQ_HEAD then HTTPREQ_GET else set_method s)\<rparr>)
      else if i = CURLOPT_FAILONERROR then (CURLE_OK, s\<lparr>http_fail_on_error := arg \<noteq> 0\<rparr>)
      else if i = CURLOPT_KEEP_SENDING_ON_ERROR then (CURLE_OK, s\<lparr>http_keep_sending_on_error := arg \<noteq> 0\<rparr>)
      else if i = CURLOPT_UPLOAD \<or> i = CURLOPT_PUT
        then (CURLE_OK, if arg \<noteq> 0 then s\<lparr>set_method := HTTPREQ_PUT, opt_no_body := False\<rparr> else s\<lparr>set_method := HTTPREQ_GET\<rparr>)
      else if i = CURLOPT_POSTFIELDSIZE then setopt_POSTFIELDSIZE arg s
      else if i = CURLOPT_AUTOREFERER then (CURLE_OK, s\<lparr>http_auto_referer := arg \<noteq> 0\<rparr>)
      else if i = CURLOPT_TRANSFER_ENCODING then (CURLE_OK, s\<lparr>http_transfer_encoding := arg \<noteq> 0\<rparr>)
      else if i = CURLOPT_FOLLOWLOCATION then (CURLE_OK, s\<lparr>http_follow_location := arg \<noteq> 0\<rparr>)
      else if i = CURLOPT_UNRESTRICTED_AUTH then (CURLE_OK, s\<lparr>allow_auth_to_other_hosts := arg \<noteq> 0\<rparr>)
      else if i = CURLOPT_MAXREDIRS
        then if arg < -1 then (CURLE_BAD_FUNCTION_ARGUMENT, s) else (CURLE_OK, s\<lparr>maxredirs := arg\<rparr>)
      else if i = CURLOPT_POSTREDIR
        then if arg < 0 then (CURLE_BAD_FUNCTION_ARGUMENT, s) else (CURLE_OK, s\<lparr>keep_post := arg mod 8\<rparr>)
      else if i = CURLOPT_POST
        then (CURLE_OK, if arg \<noteq> 0 then s\<lparr>set_method := HTTPREQ_POST, opt_no_body := False\<rparr> else s\<lparr>set_method := HTTPREQ_GET\<rparr>)
      else if i = CURLOPT_HTTPGET
        then (CURLE_OK, if arg \<noteq> 0 then s\<lparr>set_method := HTTPREQ_GET, opt_no_body := False\<rparr> else s)
      else if i = CURLOPT_INFILESIZE
        then if arg < -1 then (CURLE_BAD_FUNCTION_ARGUMENT, s) else (CURLE_OK, s\<lparr>filesize := arg\<rparr>)
      else if i = CURLOPT_SSL_VERIFYPEER then (CURLE_OK, s\<lparr>verifypeer := arg \<noteq> 0\<rparr>)
      else if i = CURLOPT_SSL_VERIFYHOST then (CURLE_OK, s\<lparr>verifyhost := arg mod 4 \<noteq> 0\<rparr>)
      else (CURLE_OK, s))"

text \<open>Options that read a string or another pointer to characters; \<open>all\<close> are the content encodings of the build.\<close>

definition setopt_chars :: "bytes \<Rightarrow> CURLoption \<Rightarrow> ptr \<Rightarrow> bytes \<Rightarrow> UserDefined \<Rightarrow> (CURLcode \<times> UserDefined) outcome" where
  "setopt_chars all i p cs s =
     (if i = CURLOPT_COPYPOSTFIELDS then setopt_COPYPOSTFIELDS p cs s
      else if i = CURLOPT_POSTFIELDS
        then Inr (CURLE_OK, s\<lparr>postfields := p, copypostfields := None, set_method := HTTPREQ_POST\<rparr>)
      else if i = CURLOPT_ACCEPT_ENCODING
        then let (res, str) = Curl_setstropt (if p = Null then None else if symbol cs = 0 then Some all else Some cs) in
             Inr (res, s\<lparr>encoding := str\<rparr>)
      else if i = CURLOPT_CUSTOMREQUEST
        then let (res, str) = Curl_setstropt (if p = Null then None else Some cs) in
             Inr (res, s\<lparr>customrequest := str\<rparr>)
      else if i = CURLOPT_WRITEDATA then Inr (CURLE_OK, s\<lparr>set_out := p\<rparr>)
      else if i = CURLOPT_READDATA then Inr (CURLE_OK, s\<lparr>in_set := p\<rparr>)
      else if i = CURLOPT_XFERINFODATA then Inr (CURLE_OK, s\<lparr>progress_client := p\<rparr>)
      else Inr (CURLE_OK, s))"

definition setopt_ptr :: "CURLoption \<Rightarrow> ptr \<Rightarrow> UserDefined \<Rightarrow> CURLcode \<times> UserDefined" where
  "setopt_ptr i p s =
     (CURLE_OK,
      if i = CURLOPT_WRITEDATA then s\<lparr>set_out := p\<rparr>
      else if i = CURLOPT_READDATA then s\<lparr>in_set := p\<rparr>
      else if i = CURLOPT_XFERINFODATA then s\<lparr>progress_client := p\<rparr>
      else s)"

definition setopt_off :: "CURLoption \<Rightarrow> int \<Rightarrow> UserDefined \<Rightarrow> CURLcode \<times> UserDefined" where
  "setopt_off i bigsize s =
     (if i = CURLOPT_POSTFIELDSIZE_LARGE then setopt_POSTFIELDSIZE bigsize s
      else if i = CURLOPT_INFILESIZE_LARGE
        then if bigsize < -1 then (CURLE_BAD_FUNCTION_ARGUMENT, s) else (CURLE_OK, s\<lparr>filesize := bigsize\<rparr>)
      else (CURLE_OK, s))"

definition setopt_slist :: "CURLoption \<Rightarrow> nat option \<Rightarrow> UserDefined \<Rightarrow> CURLcode \<times> UserDefined" where
  "setopt_slist i p s =
     (CURLE_OK,
      if i = CURLOPT_HTTPHEADER then s\<lparr>set_headers := p\<rparr>
      else if i = CURLOPT_MAIL_RCPT then s\<lparr>mail_rcpt := p\<rparr>
      else s)"

definition setopt_function :: "CURLoption \<Rightarrow> callback \<Rightarrow> UserDefined \<Rightarrow> CURLcode \<times> UserDefined" where
  "setopt_function i f s =
     (CURLE_OK,
      if i = CURLOPT_XFERINFOFUNCTION then s\<lparr>fxferinfo := f\<rparr>
      else if i = CURLOPT_DEBUGFUNCTION then s\<lparr>fdebug := f\<rparr>
      else if i = CURLOPT_WRITEFUNCTION then s\<lparr>fwrite_func := (if f = Cb_null then Cb_fwrite else f)\<rparr>
      else if i = CURLOPT_READFUNCTION
        then if f = Cb_null then s\<lparr>is_fread_set := False, fread_func_set := Cb_fread\<rparr>
             else s\<lparr>fread_func_set := f, is_fread_set := True\<rparr>
      else s)"

text \<open>
  All options together, but for the two that reach outside of the handle. The options that are not in
  the list leave the modelled fields as they are; \<open>others\<close> is what they return.
\<close>

definition modelled_options :: "CURLoption list" where
  "modelled_options =
     [CURLOPT_VERBOSE, CURLOPT_HEADER, CURLOPT_NOPROGRESS, CURLOPT_NOBODY, CURLOPT_FAILONERROR,
      CURLOPT_KEEP_SENDING_ON_ERROR, CURLOPT_UPLOAD, CURLOPT_PUT, CURLOPT_POSTFIELDSIZE, CURLOPT_AUTOREFERER,
      CURLOPT_TRANSFER_ENCODING, CURLOPT_FOLLOWLOCATION, CURLOPT_UNRESTRICTED_AUTH, CURLOPT_MAXREDIRS,
      CURLOPT_POSTREDIR, CURLOPT_POST, CURLOPT_HTTPGET, CURLOPT_INFILESIZE, CURLOPT_SSL_VERIFYPEER,
      CURLOPT_SSL_VERIFYHOST, CURLOPT_COPYPOSTFIELDS, CURLOPT_POSTFIELDS, CURLOPT_ACCEPT_ENCODING,
      CURLOPT_CUSTOMREQUEST, CURLOPT_WRITEDATA, CURLOPT_READDATA, CURLOPT_XFERINFODATA,
      CURLOPT_POSTFIELDSIZE_LARGE, CURLOPT_INFILESIZE_LARGE, CURLOPT_HTTPHEADER, CURLOPT_MAIL_RCPT,
      CURLOPT_XFERINFOFUNCTION, CURLOPT_DEBUGFUNCTION, CURLOPT_WRITEFUNCTION, CURLOPT_READFUNCTION]"

definition setopt_arg ::
  "bytes \<Rightarrow> (CURLoption \<Rightarrow> opt_arg \<Rightarrow> CURLcode) \<Rightarrow> CURLoption \<Rightarrow> opt_arg \<Rightarrow> UserDefined \<Rightarrow> (CURLcode \<times> UserDefined) outcome" where
  "setopt_arg all others i a s =
     (if i \<notin> set modelled_options then Inr (others i a, s)
      else case a of
             ALong n \<Rightarrow> Inr (setopt_long i n s)
           | AOff n \<Rightarrow> Inr (setopt_off i n s)
           | AChars p cs \<Rightarrow> setopt_chars all i p cs s
           | ASlist p \<Rightarrow> Inr (setopt_slist i p s)
           | APtr p \<Rightarrow> Inr (setopt_ptr i p s)
           | AFun f \<Rightarrow> Inr (setopt_function i f s)
           | _ \<Rightarrow> Inr (others i a, s))"

section \<open>The beginning of a transfer\<close>

text \<open>The size of the data to send, \<open>Curl_pretransfer\<close>; \<open>len\<close> is the length of the text that \<open>postfields\<close> leads to.\<close>

definition infilesize :: "int \<Rightarrow> UserDefined \<Rightarrow> int" where
  "infilesize len s =
     (if set_method s = HTTPREQ_PUT then filesize s
      else if set_method s \<noteq> HTTPREQ_GET \<and> set_method s \<noteq> HTTPREQ_HEAD
        then if postfields s \<noteq> Null \<and> postfieldsize s = -1 then len else postfieldsize s
      else 0)"

section \<open>Types of options\<close>

lemma find_map_easyopt:
  assumes "opt_name l = None" "rs \<noteq> []"
  shows "lookup_loop (map easyopt rs @ [l]) None i =
    Inr (map_option easyopt (find (\<lambda>(_, j, _, f). j = i \<and> f AND CURLOT_FLAG_ALIAS = 0) rs))"
  using assms(2)
proof (induction rs)
  case (Cons r rs)
  obtain n j t f where r: "r = (n, j, t, f)" by (cases r)
  show ?case
  proof (cases rs)
    case Nil
    with assms(1) r show ?thesis by (auto simp: easyopt_def)
  next
    case (Cons r' rs')
    with Cons.IH r show ?thesis by (auto simp: easyopt_def split: prod.splits)
  qed
qed simp

lemma option_type_by_id:
  assumes "i \<noteq> 0"
  shows "curl_easy_option_by_id i = Inr r \<Longrightarrow> option_type i = map_option opt_type r"
    and "\<exists>r. curl_easy_option_by_id i = Inr r"
proof -
  have ne: "easyopt_rows \<noteq> []" using easyopts_3_head by auto
  have "curl_easy_option_by_id i =
      Inr (map_option easyopt (find (\<lambda>(_, j, _, f). j = i \<and> f AND CURLOT_FLAG_ALIAS = 0) easyopt_rows))"
    using find_map_easyopt [OF _ ne] assms by (simp add: curl_easy_option_by_id_def lookup_option_def Curl_easyopts_def)
  then show "curl_easy_option_by_id i = Inr r \<Longrightarrow> option_type i = map_option opt_type r"
    and "\<exists>r. curl_easy_option_by_id i = Inr r"
    by (auto simp: option_type_def easyopt_def option.map_comp comp_def case_prod_beta')
qed

text \<open>The types of the options that the component sets by itself.\<close>

definition row_ids :: "easyopt_row list \<Rightarrow> (CURLoption \<times> curl_easytype \<times> nat) list" where
  "row_ids = map (\<lambda>(_, j, t, f). (j, t, f))"

lemma option_type_ids:
  "option_type i =
     map_option (\<lambda>(_, t, _). t) (find (\<lambda>(j, _, f). j = i \<and> f AND CURLOT_FLAG_ALIAS = 0) (row_ids easyopt_rows))"
  unfolding row_ids_def find_map option_type_def by (simp add: option.map_comp comp_def case_prod_beta')

lemma find_filter: "(\<And>x. P x \<Longrightarrow> Q x) \<Longrightarrow> find P xs = find P (filter Q xs)"
  by (induction xs) auto

lemma component_rows:
  "filter (\<lambda>(j, _, f). j \<in> set
      [10102, 20094, 52, 10023, 30115, 10187, 10269, 43, 10015, 60, 10009, 20012, 10100, 81, 64, 207, 46, 41, 10001, 20011, 10057, 20219] \<and> f AND CURLOT_FLAG_ALIAS = 0)
    (row_ids easyopt_rows) =
    [(CURLOPT_ACCEPT_ENCODING, CURLOT_STRING, 0),
     (CURLOPT_DEBUGFUNCTION, CURLOT_FUNCTION, 0),
     (CURLOPT_FOLLOWLOCATION, CURLOT_LONG, 0),
     (CURLOPT_HTTPHEADER, CURLOT_SLIST, 0),
     (CURLOPT_INFILESIZE_LARGE, CURLOT_OFF_T, 0),
     (CURLOPT_MAIL_RCPT, CURLOT_SLIST, 0),
     (CURLOPT_MIMEPOST, CURLOT_OBJECT, 0),
     (CURLOPT_NOPROGRESS, CURLOT_LONG, 0),
     (CURLOPT_POSTFIELDS, CURLOT_OBJECT, 0),
     (CURLOPT_POSTFIELDSIZE, CURLOT_LONG, 0),
     (CURLOPT_READDATA, CURLOT_CBPTR, 0),
     (CURLOPT_READFUNCTION, CURLOT_FUNCTION, 0),
     (CURLOPT_SHARE, CURLOT_OBJECT, 0),
     (CURLOPT_SSL_VERIFYHOST, CURLOT_LONG, 0),
     (CURLOPT_SSL_VERIFYPEER, CURLOT_LONG, 0),
     (CURLOPT_TRANSFER_ENCODING, CURLOT_LONG, 0),
     (CURLOPT_UPLOAD, CURLOT_LONG, 0),
     (CURLOPT_VERBOSE, CURLOT_LONG, 0),
     (CURLOPT_WRITEDATA, CURLOT_CBPTR, 0),
     (CURLOPT_WRITEFUNCTION, CURLOT_FUNCTION, 0),
     (CURLOPT_XFERINFODATA, CURLOT_CBPTR, 0),
     (CURLOPT_XFERINFOFUNCTION, CURLOT_FUNCTION, 0)]"
  unfolding row_ids_def map_append Curl_easyopts_1_def Curl_easyopts_2_def Curl_easyopts_3_def list.map prod.case
  by (simp add: CURLOT_FLAG_ALIAS_def)

lemma known_types [simp]:
  "option_type CURLOPT_ACCEPT_ENCODING = Some CURLOT_STRING"
  "option_type CURLOPT_DEBUGFUNCTION = Some CURLOT_FUNCTION"
  "option_type CURLOPT_FOLLOWLOCATION = Some CURLOT_LONG"
  "option_type CURLOPT_HTTPHEADER = Some CURLOT_SLIST"
  "option_type CURLOPT_INFILESIZE_LARGE = Some CURLOT_OFF_T"
  "option_type CURLOPT_MAIL_RCPT = Some CURLOT_SLIST"
  "option_type CURLOPT_MIMEPOST = Some CURLOT_OBJECT"
  "option_type CURLOPT_NOPROGRESS = Some CURLOT_LONG"
  "option_type CURLOPT_POSTFIELDS = Some CURLOT_OBJECT"
  "option_type CURLOPT_POSTFIELDSIZE = Some CURLOT_LONG"
  "option_type CURLOPT_READDATA = Some CURLOT_CBPTR"
  "option_type CURLOPT_READFUNCTION = Some CURLOT_FUNCTION"
  "option_type CURLOPT_SHARE = Some CURLOT_OBJECT"
  "option_type CURLOPT_SSL_VERIFYHOST = Some CURLOT_LONG"
  "option_type CURLOPT_SSL_VERIFYPEER = Some CURLOT_LONG"
  "option_type CURLOPT_TRANSFER_ENCODING = Some CURLOT_LONG"
  "option_type CURLOPT_UPLOAD = Some CURLOT_LONG"
  "option_type CURLOPT_VERBOSE = Some CURLOT_LONG"
  "option_type CURLOPT_WRITEDATA = Some CURLOT_CBPTR"
  "option_type CURLOPT_WRITEFUNCTION = Some CURLOT_FUNCTION"
  "option_type CURLOPT_XFERINFODATA = Some CURLOT_CBPTR"
  "option_type CURLOPT_XFERINFOFUNCTION = Some CURLOT_FUNCTION"
  unfolding option_type_ids
  by (subst find_filter [where Q = "\<lambda>(j, _, f). j \<in> set
      [10102, 20094, 52, 10023, 30115, 10187, 10269, 43, 10015, 60, 10009, 20012, 10100, 81, 64, 207, 46, 41, 10001, 20011, 10057, 20219] \<and> f AND CURLOT_FLAG_ALIAS = 0"],
    (simp split: prod.splits) [], unfold component_rows, simp add: CURLOT_FLAG_ALIAS_def)+

end
