(* ===== verification/Curl_Slist.thy ===== *)
theory Curl_Slist
imports Prelude
begin

text \<open>
  The linked list of strings of libcurl, \<open>curl-8.6.0/lib/slist.c\<close>, on an explicit store: a map
  from addresses to nodes, with \<open>None\<close> for the null pointer. \<open>malloc\<close> gives the address of a
  new node, or nothing; the code relies on it not being in use (\<open>fresh\<close>). \<open>strdup\<close> tells
  whether a string can be copied. The loops that follow the links are partial functions,
  because they do not end on a cyclic list.
\<close>

record slist_node =
  sl_data :: bytes
  sl_next :: "nat option"

type_synonym slist_heap = "nat \<rightharpoonup> slist_node"

definition fresh :: "(slist_heap \<Rightarrow> nat option) \<Rightarrow> bool" where
  "fresh malloc \<longleftrightarrow> (\<forall>h a. malloc h = Some a \<longrightarrow> h a = None)"

partial_function (option) slist_last_loop :: "slist_heap \<Rightarrow> nat \<Rightarrow> nat outcome option" where
  "slist_last_loop h item =
     (case h item of
        None \<Rightarrow> Some (Inl UseAfterFree)
      | Some n \<Rightarrow> (case sl_next n of None \<Rightarrow> Some (Inr item) | Some q \<Rightarrow> slist_last_loop h q))"

definition slist_get_last :: "slist_heap \<Rightarrow> nat option \<Rightarrow> nat option outcome option" where
  "slist_get_last h list =
     (case list of
        None \<Rightarrow> Some (Inr None)
      | Some p \<Rightarrow> map_option (\<lambda>r. bindE r (\<lambda>a. Inr (Some a))) (slist_last_loop h p))"

definition set_next :: "slist_heap \<Rightarrow> nat \<Rightarrow> nat \<Rightarrow> slist_heap outcome" where
  "set_next h a q =
     (case h a of None \<Rightarrow> Inl UseAfterFree | Some n \<Rightarrow> Inr (h(a \<mapsto> n\<lparr>sl_next := Some q\<rparr>)))"

definition Curl_slist_append_nodup ::
  "(slist_heap \<Rightarrow> nat option) \<Rightarrow> slist_heap \<Rightarrow> nat option \<Rightarrow> bytes \<Rightarrow> (slist_heap \<times> nat option) outcome option" where
  "Curl_slist_append_nodup malloc h list data =
     (case malloc h of
        None \<Rightarrow> Some (Inr (h, None))
      | Some new_item \<Rightarrow>
          let h1 = h(new_item \<mapsto> \<lparr>sl_data = data, sl_next = None\<rparr>) in
          if list = None then Some (Inr (h1, Some new_item))
          else map_option
                 (\<lambda>r. bindE r (\<lambda>last. case last of
                                           None \<Rightarrow> Inl NullDeref
                                         | Some a \<Rightarrow> bindE (set_next h1 a new_item) (\<lambda>h2. Inr (h2, list))))
                 (slist_get_last h1 list))"

definition curl_slist_append ::
  "(slist_heap \<Rightarrow> nat option) \<Rightarrow> bool \<Rightarrow> slist_heap \<Rightarrow> nat option \<Rightarrow> bytes \<Rightarrow> (slist_heap \<times> nat option) outcome option" where
  "curl_slist_append malloc strdup h list data =
     (if \<not> strdup then Some (Inr (h, None)) else Curl_slist_append_nodup malloc h list (c_str data))"

partial_function (option) slist_free_loop :: "slist_heap \<Rightarrow> nat \<Rightarrow> slist_heap outcome option" where
  "slist_free_loop h item =
     (case h item of
        None \<Rightarrow> Some (Inl UseAfterFree)
      | Some n \<Rightarrow>
          (case sl_next n of
             None \<Rightarrow> Some (Inr (h(item := None)))
           | Some q \<Rightarrow> slist_free_loop (h(item := None)) q))"

definition curl_slist_free_all :: "slist_heap \<Rightarrow> nat option \<Rightarrow> slist_heap outcome option" where
  "curl_slist_free_all h list =
     (case list of None \<Rightarrow> Some (Inr h) | Some p \<Rightarrow> slist_free_loop h p)"

partial_function (option) slist_dup_loop ::
  "(slist_heap \<Rightarrow> nat option) \<Rightarrow> bool \<Rightarrow> slist_heap \<Rightarrow> nat option \<Rightarrow> nat option \<Rightarrow> (slist_heap \<times> nat option) outcome option" where
  "slist_dup_loop malloc strdup h inlist outlist =
     (case inlist of
        None \<Rightarrow> Some (Inr (h, outlist))
      | Some p \<Rightarrow>
          (case h p of
             None \<Rightarrow> Some (Inl UseAfterFree)
           | Some n \<Rightarrow>
               (case curl_slist_append malloc strdup h outlist (sl_data n) of
                  None \<Rightarrow> None
                | Some r \<Rightarrow>
                    (case r of
                       Inl f \<Rightarrow> Some (Inl f)
                     | Inr s \<Rightarrow>
                         (if snd s = None
                          then map_option (\<lambda>r. bindE r (\<lambda>h2. Inr (h2, None))) (curl_slist_free_all (fst s) outlist)
                          else slist_dup_loop malloc strdup (fst s) (sl_next n) (snd s))))))"

definition Curl_slist_duplicate ::
  "(slist_heap \<Rightarrow> nat option) \<Rightarrow> bool \<Rightarrow> slist_heap \<Rightarrow> nat option \<Rightarrow> (slist_heap \<times> nat option) outcome option" where
  "Curl_slist_duplicate malloc strdup h inlist = slist_dup_loop malloc strdup h inlist None"

section \<open>Lists in the store\<close>

text \<open>The list at a pointer with the addresses of its nodes and their strings.\<close>

fun slist_at :: "slist_heap \<Rightarrow> nat option \<Rightarrow> nat list \<Rightarrow> bytes list \<Rightarrow> bool" where
  "slist_at h p [] [] \<longleftrightarrow> p = None"
| "slist_at h p (a # as) (x # xs) \<longleftrightarrow>
     p = Some a \<and> (case h a of None \<Rightarrow> False | Some n \<Rightarrow> sl_data n = x \<and> slist_at h (sl_next n) as xs)"
| "slist_at h p as xs \<longleftrightarrow> False"

lemma slist_at_cong: "(\<And>a. a \<in> set as \<Longrightarrow> h a = h' a) \<Longrightarrow> slist_at h p as xs = slist_at h' p as xs"
  by (induction h p as xs rule: slist_at.induct) (auto split: option.splits)

lemma slist_at_upd: "a \<notin> set as \<Longrightarrow> slist_at (h(a := v)) p as xs = slist_at h p as xs"
  by (rule slist_at_cong) auto

lemma slist_at_dom: "slist_at h p as xs \<Longrightarrow> set as \<subseteq> dom h \<and> length as = length xs"
  by (induction h p as xs rule: slist_at.induct) (auto split: option.splits)

lemma slist_at_None: "slist_at h p as xs \<Longrightarrow> (p = None) = (as = [])"
  by (cases "(h, p, as, xs)" rule: slist_at.cases) auto

lemma slist_last_loop_ok:
  "slist_at h (Some p) as xs \<Longrightarrow> slist_last_loop h p = Some (Inr (last as))"
proof (induction as arbitrary: p xs)
  case Nil
  then show ?case by (cases xs) simp_all
next
  case (Cons a as)
  then obtain x xs' n where n: "xs = x # xs'" "a = p" "h p = Some n" "slist_at h (sl_next n) as xs'"
    by (cases xs) (auto split: option.splits)
  show ?case
  proof (cases "sl_next n")
    case None
    then have "as = []" using n(4) slist_at_None by blast
    with None n show ?thesis by (subst slist_last_loop.simps) simp
  next
    case (Some q)
    then have "as \<noteq> []" using n(4) slist_at_None [of h "Some q" as xs'] by simp
    with Some n Cons.IH [of q xs'] show ?thesis by (subst slist_last_loop.simps) simp
  qed
qed

lemma slist_at_append:
  assumes "slist_at h p as xs" "distinct as" "as \<noteq> []" "h b = None" "h (last as) = Some n"
  shows "slist_at (h(b \<mapsto> \<lparr>sl_data = x, sl_next = None\<rparr>, last as \<mapsto> n\<lparr>sl_next := Some b\<rparr>)) p (as @ [b]) (xs @ [x])"
  using assms
proof (induction h p as xs rule: slist_at.induct)
  case (2 h p a as y xs)
  have b: "b \<noteq> a" "b \<notin> set as" using slist_at_dom [OF 2(2)] 2(5) by auto
  show ?case
  proof (cases "as = []")
    case True
    with 2 b show ?thesis by (cases xs) (auto split: option.splits)
  next
    case False
    obtain m where m: "h a = Some m" "p = Some a" "sl_data m = y" "slist_at h (sl_next m) as xs"
      using 2(2) by (auto split: option.splits)
    define h' where "h' = h(b \<mapsto> \<lparr>sl_data = x, sl_next = None\<rparr>, last as \<mapsto> n\<lparr>sl_next := Some b\<rparr>)"
    have "slist_at h' (sl_next m) (as @ [b]) (xs @ [x])"
      unfolding h'_def
    proof (rule 2(1) [OF m(1,4)])
      show "h (last as) = Some n" using 2(6) False by simp
    qed (use 2(3,5) False in simp_all)
    moreover have "h' a = Some m" unfolding h'_def using b m(1) 2(3) False last_in_set by fastforce
    ultimately have "slist_at h' p ((a # as) @ [b]) ((y # xs) @ [x])" using m by simp
    then show ?thesis using False by (simp only: h'_def last.simps if_False)
  qed
qed simp_all

text \<open>Appending.\<close>

lemma slist_append_ok:
  assumes "fresh malloc" "slist_at h p as xs" "distinct as" "malloc h = Some b"
  shows "\<exists>h' p'. curl_slist_append malloc True h p x = Some (Inr (h', p')) \<and>
    slist_at h' p' (as @ [b]) (xs @ [c_str x]) \<and> distinct (as @ [b]) \<and>
    (\<forall>c. c \<notin> set (as @ [b]) \<longrightarrow> h' c = h c)"
proof -
  have hb: "h b = None" using assms(1,4) by (auto simp: fresh_def)
  then have b: "b \<notin> set as" using slist_at_dom [OF assms(2)] by auto
  show ?thesis
  proof (cases p)
    case None
    then have "as = []" "xs = []" using slist_at_None [OF assms(2)] slist_at_dom [OF assms(2)] by auto
    with None assms(4) show ?thesis by (auto simp: curl_slist_append_def Curl_slist_append_nodup_def Let_def)
  next
    case (Some q)
    then have ne: "as \<noteq> []" using slist_at_None [OF assms(2)] by auto
    let ?h1 = "h(b \<mapsto> \<lparr>sl_data = c_str x, sl_next = None\<rparr>)"
    have l: "last as \<in> set as" using ne by simp
    then obtain n where n: "h (last as) = Some n" using slist_at_dom [OF assms(2)] by blast
    have "slist_at ?h1 (Some q) as xs" using assms(2) b Some slist_at_upd by simp
    then have "slist_last_loop ?h1 q = Some (Inr (last as))" by (rule slist_last_loop_ok)
    moreover have "last as \<noteq> b" using l b by auto
    ultimately have "curl_slist_append malloc True h p x =
      Some (Inr (?h1(last as \<mapsto> n\<lparr>sl_next := Some b\<rparr>), p))"
      using assms(4) n Some
      by (simp add: curl_slist_append_def Curl_slist_append_nodup_def slist_get_last_def set_next_def Let_def)
    with slist_at_append [OF assms(2,3) ne hb n, of "c_str x"] b l assms(3) show ?thesis by auto
  qed
qed

text \<open>Freeing.\<close>

lemma slist_free_loop_ok:
  "\<lbrakk>slist_at h (Some p) as xs; distinct as\<rbrakk> \<Longrightarrow> slist_free_loop h p = Some (Inr (h |` (- set as)))"
proof (induction as arbitrary: h p xs)
  case Nil
  then show ?case by (cases xs) simp_all
next
  case (Cons a as)
  then obtain x xs' n where n: "xs = x # xs'" "a = p" "h p = Some n" "slist_at h (sl_next n) as xs'"
    by (cases xs) (auto split: option.splits)
  let ?h = "h(p := None)"
  have at: "slist_at ?h (sl_next n) as xs'" using n(2,4) Cons.prems(2) slist_at_upd by simp
  have eq: "?h |` (- set as) = h |` (- set (a # as))" using n(2) by (auto simp: restrict_map_def)
  show ?case
  proof (cases "sl_next n")
    case None
    then have "as = []" using n(4) slist_at_None by blast
    with None n eq show ?thesis by (subst slist_free_loop.simps) (auto simp: restrict_map_def)
  next
    case (Some q)
    have "slist_free_loop ?h q = Some (Inr (h |` (- set (a # as))))"
      unfolding eq [symmetric] using Cons.prems(2) by (intro Cons.IH [OF at [unfolded Some]]) simp
    with n(3) Some show ?thesis by (subst slist_free_loop.simps) (simp only: option.case)
  qed
qed

lemma slist_free_all_ok:
  assumes "slist_at h p as xs" "distinct as"
  shows "curl_slist_free_all h p = Some (Inr (h |` (- set as)))"
proof (cases p)
  case None
  then have "as = []" using slist_at_None [OF assms(1)] by simp
  with None show ?thesis by (simp add: curl_slist_free_all_def restrict_map_def)
next
  case (Some q)
  with assms slist_free_loop_ok show ?thesis by (simp add: curl_slist_free_all_def)
qed


section \<open>Duplicating\<close>

lemma slist_at_in:
  "slist_at h (Some p) as xs \<Longrightarrow>
     \<exists>n as' xs'. h p = Some n \<and> as = p # as' \<and> xs = sl_data n # xs' \<and> slist_at h (sl_next n) as' xs'"
  by (cases "(h, Some p, as, xs)" rule: slist_at.cases) (auto split: option.splits)

lemma fresh_frame:
  assumes "h b = None" "\<forall>c. c \<notin> set (as @ [b]) \<longrightarrow> h1 c = h c" "set as' \<inter> dom h1 \<subseteq> set (as @ [b])"
  shows "set as' \<inter> dom h \<subseteq> set as"
proof
  fix c assume c: "c \<in> set as' \<inter> dom h"
  then have "c \<noteq> b" using assms(1) by auto
  show "c \<in> set as"
  proof (rule ccontr)
    assume "c \<notin> set as"
    with \<open>c \<noteq> b\<close> assms(2) c have "c \<in> dom h1" by auto
    with assms(3) c \<open>c \<noteq> b\<close> \<open>c \<notin> set as\<close> show False by auto
  qed
qed

lemma finite_frame: "finite (dom h) \<Longrightarrow> \<forall>c. c \<notin> set as \<longrightarrow> h1 c = h c \<Longrightarrow> finite (dom h1)"
  by (rule finite_subset [of _ "dom h \<union> set as"]) auto

text \<open>
  Duplicating with a store that has always room: the strings of a well-formed list have no
  zero byte, because they were copied as C strings.
\<close>

lemma slist_dup_loop_ok:
  assumes "fresh malloc" "\<And>h. finite (dom h) \<Longrightarrow> \<exists>b. malloc h = Some b"
  shows "\<lbrakk>finite (dom h); slist_at h p as xs; \<forall>x \<in> set xs. 0 \<notin> set x; slist_at h q bs ys; distinct bs; set as \<inter> set bs = {}\<rbrakk> \<Longrightarrow>
    \<exists>h' q' bs'. slist_dup_loop malloc True h p q = Some (Inr (h', q')) \<and> slist_at h' q' bs' (ys @ xs) \<and> distinct bs' \<and>
      set bs \<subseteq> set bs' \<and> set bs' \<inter> dom h \<subseteq> set bs \<and> (\<forall>c. c \<notin> set bs' \<longrightarrow> h' c = h c)"
proof (induction xs arbitrary: h p as q bs ys)
  case Nil
  then have "as = []" "p = None" using slist_at_dom [of h p as "[]"] slist_at_None [of h p as "[]"] by auto
  with Nil show ?case by (subst slist_dup_loop.simps) auto
next
  case (Cons x xs)
  then obtain a where p: "p = Some a" by (cases p; cases as) auto
  from slist_at_in Cons.prems(2) p obtain n as' where
    n: "h a = Some n" "as = a # as'" "x = sl_data n" "slist_at h (sl_next n) as' xs" by blast
  obtain b where b: "malloc h = Some b" using assms(2) [OF Cons.prems(1)] by blast
  then have hb: "h b = None" using assms(1) by (auto simp: fresh_def)
  from slist_append_ok [OF assms(1) Cons.prems(4,5) b, of x] obtain h1 q1 where
    h1: "curl_slist_append malloc True h q x = Some (Inr (h1, q1))"
      "slist_at h1 q1 (bs @ [b]) (ys @ [x])" "distinct (bs @ [b])" "\<forall>c. c \<notin> set (bs @ [b]) \<longrightarrow> h1 c = h c"
    using Cons.prems(3) by auto
  have disj: "set as' \<inter> set (bs @ [b]) = {}"
    using Cons.prems(6) n(2) hb slist_at_dom [OF n(4)] by auto
  have at: "slist_at h1 (sl_next n) as' xs"
    using n(4) h1(4) disj slist_at_cong [of as' h1 h] by (metis disjoint_iff)
  obtain c1 where q1: "q1 = Some c1" using slist_at_None [OF h1(2)] by auto
  from Cons.IH [OF finite_frame [OF Cons.prems(1) h1(4)] at _ h1(2,3) disj] Cons.prems(3) obtain h' q' bs' where
    r: "slist_dup_loop malloc True h1 (sl_next n) q1 = Some (Inr (h', q'))" "slist_at h' q' bs' ((ys @ [x]) @ xs)"
      "distinct bs'" "set (bs @ [b]) \<subseteq> set bs'" "set bs' \<inter> dom h1 \<subseteq> set (bs @ [b])"
      "\<forall>c. c \<notin> set bs' \<longrightarrow> h' c = h1 c" by auto
  have "slist_dup_loop malloc True h p q = Some (Inr (h', q'))"
    using p n(1,3) h1(1) q1 r(1) by (subst slist_dup_loop.simps) simp
  moreover have "set bs' \<inter> dom h \<subseteq> set bs" by (rule fresh_frame [OF hb h1(4) r(5)])
  moreover have "\<forall>c. c \<notin> set bs' \<longrightarrow> h' c = h c" using r(4,6) h1(4) by auto
  ultimately show ?case using r by auto
qed

section \<open>Appending many strings\<close>

fun append_all ::
  "(slist_heap \<Rightarrow> nat option) \<Rightarrow> bytes list \<Rightarrow> slist_heap \<Rightarrow> nat option \<Rightarrow> (slist_heap \<times> nat option) outcome option" where
  "append_all malloc [] h p = Some (Inr (h, p))"
| "append_all malloc (x # xs) h p =
     (case curl_slist_append malloc True h p x of
        Some (Inr (h', p')) \<Rightarrow> append_all malloc xs h' p'
      | r \<Rightarrow> r)"

lemma append_all_ok:
  assumes "fresh malloc" "\<And>h. finite (dom h) \<Longrightarrow> \<exists>b. malloc h = Some b"
  shows "\<lbrakk>finite (dom h); slist_at h p as ys; distinct as\<rbrakk> \<Longrightarrow>
    \<exists>h' p' as'. append_all malloc xs h p = Some (Inr (h', p')) \<and> slist_at h' p' as' (ys @ map c_str xs) \<and> distinct as' \<and>
      set as \<subseteq> set as' \<and> set as' \<inter> dom h \<subseteq> set as \<and> (\<forall>c. c \<notin> set as' \<longrightarrow> h' c = h c)"
proof (induction xs arbitrary: h p as ys)
  case Nil
  then show ?case by auto
next
  case (Cons x xs)
  obtain b where b: "malloc h = Some b" using assms(2) [OF Cons.prems(1)] by blast
  then have hb: "h b = None" using assms(1) by (auto simp: fresh_def)
  from slist_append_ok [OF assms(1) Cons.prems(2,3) b, of x] obtain h1 p1 where
    h1: "curl_slist_append malloc True h p x = Some (Inr (h1, p1))"
      "slist_at h1 p1 (as @ [b]) (ys @ [c_str x])" "distinct (as @ [b])" "\<forall>c. c \<notin> set (as @ [b]) \<longrightarrow> h1 c = h c"
    by auto
  from Cons.IH [OF finite_frame [OF Cons.prems(1) h1(4)] h1(2,3)] obtain h' p' as' where
    r: "append_all malloc xs h1 p1 = Some (Inr (h', p'))" "slist_at h' p' as' ((ys @ [c_str x]) @ map c_str xs)"
      "distinct as'" "set (as @ [b]) \<subseteq> set as'" "set as' \<inter> dom h1 \<subseteq> set (as @ [b])"
      "\<forall>c. c \<notin> set as' \<longrightarrow> h' c = h1 c" by auto
  moreover have "set as' \<inter> dom h \<subseteq> set as" by (rule fresh_frame [OF hb h1(4) r(5)])
  moreover have "\<forall>c. c \<notin> set as' \<longrightarrow> h' c = h c" using r(4,6) h1(4) by auto
  ultimately show ?case using h1(1) by auto
qed

lemma restrict_fresh:
  assumes "set as \<inter> dom h = {}" "\<forall>c. c \<notin> set as \<longrightarrow> h' c = h c"
  shows "h' |` (- set as) = h"
proof
  fix c
  show "(h' |` (- set as)) c = h c"
    using assms by (cases "c \<in> set as") (auto simp: domIff disjoint_iff)
qed

section \<open>Properties\<close>

text \<open>An allocator that gives the address after the highest one in use.\<close>

definition bump :: "slist_heap \<Rightarrow> nat option" where
  "bump h = (if finite (dom h) then Some (Suc (Max (insert 0 (dom h)))) else None)"

lemma fresh_bump: "fresh bump"
proof -
  have "h (Suc (Max (insert 0 (dom h)))) = None" if "finite (dom h)" for h :: slist_heap
  proof (rule ccontr)
    assume "h (Suc (Max (insert 0 (dom h)))) \<noteq> None"
    then have "Suc (Max (insert 0 (dom h))) \<in> insert 0 (dom h)" by auto
    then have "Suc (Max (insert 0 (dom h))) \<le> Max (insert 0 (dom h))" using that by (intro Max_ge) simp_all
    then show False by simp
  qed
  then show ?thesis by (simp add: fresh_def bump_def)
qed

text \<open>
  C16: appending strings one by one to the null pointer builds the list of their C strings in
  order; a duplicate of it has the same strings in nodes of its own; and freeing the list
  releases exactly the nodes that were allocated for it, with everything else in the store
  untouched from beginning to end.
\<close>

theorem slist_lifecycle:
  assumes "fresh malloc" "\<forall>h. finite (dom h) \<longrightarrow> malloc h \<noteq> None" "finite (dom h)"
  shows "\<exists>h1 p as h2 q bs.
    append_all malloc xs h None = Some (Inr (h1, p)) \<and> slist_at h1 p as (map c_str xs) \<and>
    Curl_slist_duplicate malloc True h1 p = Some (Inr (h2, q)) \<and> slist_at h2 q bs (map c_str xs) \<and>
    slist_at h2 p as (map c_str xs) \<and> set as \<inter> set bs = {} \<and>
    curl_slist_free_all h2 q = Some (Inr h1) \<and> curl_slist_free_all h1 p = Some (Inr h)"
proof -
  have m: "\<exists>b. malloc h = Some b" if "finite (dom h)" for h using assms(2) that by auto
  from append_all_ok [OF assms(1) m assms(3), of None "[]" "[]" xs] obtain h1 p as where
    h1: "append_all malloc xs h None = Some (Inr (h1, p))" "slist_at h1 p as (map c_str xs)" "distinct as"
      "set as \<inter> dom h = {}" "\<forall>c. c \<notin> set as \<longrightarrow> h1 c = h c" by auto
  have nul: "\<forall>x \<in> set (map c_str xs). 0 \<notin> set x" by (auto simp: c_str_no_nul)
  from slist_dup_loop_ok [OF assms(1) m finite_frame [OF assms(3) h1(5)] h1(2) nul, of None "[]" "[]"]
  obtain h2 q bs where h2: "slist_dup_loop malloc True h1 p None = Some (Inr (h2, q))"
      "slist_at h2 q bs (map c_str xs)" "distinct bs" "set bs \<inter> dom h1 = {}" "\<forall>c. c \<notin> set bs \<longrightarrow> h2 c = h1 c"
    by auto
  have disj: "set as \<inter> set bs = {}" using slist_at_dom [OF h1(2)] h2(4) by auto
  have "slist_at h2 p as (map c_str xs)" using h1(2) h2(5) disj slist_at_cong [of as h2 h1] by (metis disjoint_iff)
  moreover have "h1 |` (- set as) = h" by (rule restrict_fresh [OF h1(4,5)])
  moreover have "h2 |` (- set bs) = h1" by (rule restrict_fresh [OF h2(4,5)])
  ultimately show ?thesis
    using h1 h2 disj slist_free_all_ok [OF h1(2,3)] slist_free_all_ok [OF h2(2,3)]
    by (auto simp: Curl_slist_duplicate_def)
qed

theorem slist_lifecycle_witness:
  "\<exists>h1 p as h2 q bs.
    append_all bump [bytes_of ''pragma:'', bytes_of ''Accept: */*''] Map.empty None = Some (Inr (h1, p)) \<and>
    slist_at h1 p as [bytes_of ''pragma:'', bytes_of ''Accept: */*''] \<and>
    Curl_slist_duplicate bump True h1 p = Some (Inr (h2, q)) \<and>
    slist_at h2 q bs [bytes_of ''pragma:'', bytes_of ''Accept: */*''] \<and>
    slist_at h2 p as [bytes_of ''pragma:'', bytes_of ''Accept: */*''] \<and>
    set as \<inter> set bs = {} \<and>
    curl_slist_free_all h2 q = Some (Inr h1) \<and> curl_slist_free_all h1 p = Some (Inr Map.empty)"
proof -
  have "\<forall>h. finite (dom h) \<longrightarrow> bump h \<noteq> None" by (simp add: bump_def)
  from slist_lifecycle [OF fresh_bump this, of Map.empty "[bytes_of ''pragma:'', bytes_of ''Accept: */*'']"]
  show ?thesis by simp
qed

end
