(* ===== verification/Curl_Easy.thy ===== *)
theory Curl_Easy
imports Curl_Setopt Curl_Slist
begin

text \<open>
  What the component uses of libcurl besides text functions, on one state: the live easy handles,
  shares, MIME structures and string lists by address. A handle has two parts, its options
  (\<open>UserDefined\<close>) and its pointers into a share (\<open>easy\<close> of \<open>Curl_Share\<close>).

  The functions are \<open>curl_easy_init\<close>, \<open>curl_easy_cleanup\<close> (\<open>easy.c\<close>, \<open>url.c\<close>),
  \<open>curl_easy_setopt\<close> (\<open>setopt.c\<close>) and the functions of \<open>mime.c\<close> on parts. A MIME structure and
  the handle that posts it point to each other; the invariant \<open>lib_ok\<close> says that these pointers
  agree in every state.
\<close>

section \<open>MIME parts\<close>

datatype mimedata = MIMEKIND_NONE | MIMEKIND_DATA bytes | MIMEKIND_FILE "bytes option"

record mimepart =
  part_name :: "bytes option"
  part_filename :: "bytes option"
  part_mimetype :: "bytes option"
  part_data :: mimedata
  part_datasize :: int

record mime =
  mime_parent :: "nat option"
  mime_parts :: "mimepart list"

definition Curl_mime_initpart :: mimepart where
  "Curl_mime_initpart =
     \<lparr>part_name = None, part_filename = None, part_mimetype = None, part_data = MIMEKIND_NONE, part_datasize = 0\<rparr>"

definition cleanup_part_content :: "mimepart \<Rightarrow> mimepart" where
  "cleanup_part_content part = part\<lparr>part_data := MIMEKIND_NONE, part_datasize := 0\<rparr>"

text \<open>The setters of a part; \<open>mem\<close> tells whether a string can be copied, and \<open>None\<close> is a null pointer.\<close>

definition curl_mime_name :: "bool \<Rightarrow> mimepart option \<Rightarrow> bytes option \<Rightarrow> CURLcode \<times> mimepart option" where
  "curl_mime_name mem part name =
     (case part of
        None \<Rightarrow> (CURLE_BAD_FUNCTION_ARGUMENT, None)
      | Some p \<Rightarrow>
          (case name of
             None \<Rightarrow> (CURLE_OK, Some (p\<lparr>part_name := None\<rparr>))
           | Some n \<Rightarrow> if mem then (CURLE_OK, Some (p\<lparr>part_name := Some (c_str n)\<rparr>))
                       else (CURLE_OUT_OF_MEMORY, Some (p\<lparr>part_name := None\<rparr>))))"

definition curl_mime_filename :: "bool \<Rightarrow> mimepart option \<Rightarrow> bytes option \<Rightarrow> CURLcode \<times> mimepart option" where
  "curl_mime_filename mem part filename =
     (case part of
        None \<Rightarrow> (CURLE_BAD_FUNCTION_ARGUMENT, None)
      | Some p \<Rightarrow>
          (case filename of
             None \<Rightarrow> (CURLE_OK, Some (p\<lparr>part_filename := None\<rparr>))
           | Some n \<Rightarrow> if mem then (CURLE_OK, Some (p\<lparr>part_filename := Some (c_str n)\<rparr>))
                       else (CURLE_OUT_OF_MEMORY, Some (p\<lparr>part_filename := None\<rparr>))))"

definition curl_mime_type :: "bool \<Rightarrow> mimepart option \<Rightarrow> bytes option \<Rightarrow> CURLcode \<times> mimepart option" where
  "curl_mime_type mem part mimetype =
     (case part of
        None \<Rightarrow> (CURLE_BAD_FUNCTION_ARGUMENT, None)
      | Some p \<Rightarrow>
          (case mimetype of
             None \<Rightarrow> (CURLE_OK, Some (p\<lparr>part_mimetype := None\<rparr>))
           | Some n \<Rightarrow> if mem then (CURLE_OK, Some (p\<lparr>part_mimetype := Some (c_str n)\<rparr>))
                       else (CURLE_OUT_OF_MEMORY, Some (p\<lparr>part_mimetype := None\<rparr>))))"

text \<open>The content from memory; the size \<open>None\<close> stands for \<open>CURL_ZERO_TERMINATED\<close>.\<close>

definition curl_mime_data :: "bool \<Rightarrow> mimepart option \<Rightarrow> bytes option \<Rightarrow> nat option \<Rightarrow> (CURLcode \<times> mimepart option) outcome" where
  "curl_mime_data mem part ptr datasize =
     (case part of
        None \<Rightarrow> Inr (CURLE_BAD_FUNCTION_ARGUMENT, None)
      | Some p \<Rightarrow>
          let p = cleanup_part_content p in
          (case ptr of
             None \<Rightarrow> Inr (CURLE_OK, Some p)
           | Some cs \<Rightarrow>
               let n = (case datasize of None \<Rightarrow> strlen cs | Some n \<Rightarrow> n) in
               if n > length cs + 1 then Inl OobRead
               else if mem then Inr (CURLE_OK, Some (p\<lparr>part_data := MIMEKIND_DATA (take n (cs @ [0])), part_datasize := int n\<rparr>))
               else Inr (CURLE_OUT_OF_MEMORY, Some p)))"

text \<open>
  The content from a file. \<open>stat\<close> gives nothing for a file that cannot be read, and else its
  size, or -1 when it is not a regular file; \<open>basename\<close> is that of the C library, or this one
  where the library has none.
\<close>

definition Curl_basename :: "bytes \<Rightarrow> bytes" where
  "Curl_basename path = rev (takeWhile (\<lambda>c. c \<noteq> 0x2F \<and> c \<noteq> 0x5C) (rev (c_str path)))"

definition strippath :: "(bytes \<Rightarrow> bytes) \<Rightarrow> bool \<Rightarrow> bytes \<Rightarrow> bytes option" where
  "strippath basename mem fullfile = (if mem then Some (c_str (basename (c_str fullfile))) else None)"

definition curl_mime_filedata ::
  "(bytes \<Rightarrow> int option) \<Rightarrow> (bytes \<Rightarrow> bytes) \<Rightarrow> bool \<Rightarrow> mimepart option \<Rightarrow> bytes option \<Rightarrow> CURLcode \<times> mimepart option" where
  "curl_mime_filedata stat basename mem part filename =
     (case part of
        None \<Rightarrow> (CURLE_BAD_FUNCTION_ARGUMENT, None)
      | Some p \<Rightarrow>
          let p = cleanup_part_content p in
          (case filename of
             None \<Rightarrow> (CURLE_OK, Some p)
           | Some f \<Rightarrow>
               let readable = (if stat (c_str f) = None then CURLE_READ_ERROR else CURLE_OK);
                   result = (if mem then readable else CURLE_OUT_OF_MEMORY);
                   p1 = p\<lparr>part_data := MIMEKIND_FILE (if mem then Some (c_str f) else None),
                     part_datasize := (if result = CURLE_OK then (case stat (c_str f) of None \<Rightarrow> -1 | Some n \<Rightarrow> n) else -1)\<rparr> in
               (case strippath basename mem f of
                  None \<Rightarrow> (CURLE_OUT_OF_MEMORY, Some p1)
                | Some base \<Rightarrow>
                    let (res, p2) = curl_mime_filename mem (Some p1) (Some base) in
                    (if res \<noteq> CURLE_OK then res else result, p2))))"

section \<open>The state\<close>

record libcurl =
  shares :: share_heap
  links :: easy_heap
  sets :: "nat \<rightharpoonup> UserDefined"
  mimes :: "nat \<rightharpoonup> mime"

text \<open>A new MIME structure and a new part of one; allocation may fail, and the random boundary too.\<close>

definition curl_mime_init :: "nat option \<Rightarrow> 'a libcurl_scheme \<Rightarrow> nat option \<times> 'a libcurl_scheme" where
  "curl_mime_init new L =
     (case new of
        None \<Rightarrow> (None, L)
      | Some a \<Rightarrow> (Some a, L\<lparr>mimes := (mimes L)(a \<mapsto> \<lparr>mime_parent = None, mime_parts = []\<rparr>)\<rparr>))"

definition curl_mime_addpart :: "bool \<Rightarrow> nat option \<Rightarrow> 'a libcurl_scheme \<Rightarrow> (mimepart option \<times> 'a libcurl_scheme) outcome" where
  "curl_mime_addpart mem m L =
     (case m of
        None \<Rightarrow> Inr (None, L)
      | Some a \<Rightarrow>
          (case mimes L a of
             None \<Rightarrow> Inl UseAfterFree
           | Some mi \<Rightarrow>
               if mem
               then Inr (Some Curl_mime_initpart,
                         L\<lparr>mimes := (mimes L)(a \<mapsto> mi\<lparr>mime_parts := mime_parts mi @ [Curl_mime_initpart]\<rparr>)\<rparr>)
               else Inr (None, L)))"

text \<open>Storing what was done through a pointer to the last part.\<close>

definition set_last_part :: "nat \<Rightarrow> mimepart \<Rightarrow> 'a libcurl_scheme \<Rightarrow> 'a libcurl_scheme outcome" where
  "set_last_part a p L =
     (case mimes L a of
        None \<Rightarrow> Inl UseAfterFree
      | Some mi \<Rightarrow> Inr (L\<lparr>mimes := (mimes L)(a \<mapsto> mi\<lparr>mime_parts := butlast (mime_parts mi) @ [p]\<rparr>)\<rparr>))"

text \<open>
  A structure that is posted by a handle is the content of its part \<open>set.mimepost\<close>. Unbinding
  clears that part and the parent of the structure; releasing the content of the part unbinds
  the structure first.
\<close>

definition mime_subparts_unbind :: "nat \<Rightarrow> 'a libcurl_scheme \<Rightarrow> 'a libcurl_scheme outcome" where
  "mime_subparts_unbind a L =
     (case mimes L a of
        None \<Rightarrow> Inl UseAfterFree
      | Some mi \<Rightarrow>
          (case mime_parent mi of
             None \<Rightarrow> Inr L
           | Some h \<Rightarrow>
               (case sets L h of
                  None \<Rightarrow> Inl UseAfterFree
                | Some s \<Rightarrow> Inr (L\<lparr>sets := (sets L)(h \<mapsto> s\<lparr>mimepost := None\<rparr>),
                                  mimes := (mimes L)(a \<mapsto> mi\<lparr>mime_parent := None\<rparr>)\<rparr>))))"

definition unbind_post :: "nat \<Rightarrow> 'a libcurl_scheme \<Rightarrow> 'a libcurl_scheme outcome" where
  "unbind_post h L =
     (case sets L h of
        None \<Rightarrow> Inl UseAfterFree
      | Some s \<Rightarrow>
          bindE (case mimepost s of None \<Rightarrow> Inr L | Some a \<Rightarrow> mime_subparts_unbind a L)
            (\<lambda>L1. Inr (L1\<lparr>sets := (sets L1)(h \<mapsto> s\<lparr>mimepost := None\<rparr>)\<rparr>)))"

definition curl_mime_free :: "nat option \<Rightarrow> 'a libcurl_scheme \<Rightarrow> 'a libcurl_scheme outcome" where
  "curl_mime_free m L =
     (case m of
        None \<Rightarrow> Inr L
      | Some a \<Rightarrow> bindE (mime_subparts_unbind a L) (\<lambda>L1. Inr (L1\<lparr>mimes := (mimes L1)(a := None)\<rparr>)))"

text \<open>Posting a structure with a handle, without ownership; the part \<open>set.mimepost\<close> has no parent of its own.\<close>

definition Curl_mime_set_subparts :: "nat \<Rightarrow> nat option \<Rightarrow> 'a libcurl_scheme \<Rightarrow> (CURLcode \<times> 'a libcurl_scheme) outcome" where
  "Curl_mime_set_subparts h m L =
     (case sets L h of
        None \<Rightarrow> Inl UseAfterFree
      | Some s \<Rightarrow>
          if m \<noteq> None \<and> mimepost s = m then Inr (CURLE_OK, L)
          else bindE (unbind_post h L) (\<lambda>L1.
            case m of
              None \<Rightarrow> Inr (CURLE_OK, L1)
            | Some a \<Rightarrow>
                (case mimes L1 a of
                   None \<Rightarrow> Inl UseAfterFree
                 | Some mi \<Rightarrow>
                     if mime_parent mi \<noteq> None then Inr (CURLE_BAD_FUNCTION_ARGUMENT, L1)
                     else Inr (CURLE_OK, L1\<lparr>mimes := (mimes L1)(a \<mapsto> mi\<lparr>mime_parent := Some h\<rparr>),
                            sets := (sets L1)(h \<mapsto> s\<lparr>mimepost := Some a\<rparr>)\<rparr>))))"

section \<open>Handles\<close>

definition curl_easy_init :: "nat option \<Rightarrow> 'a libcurl_scheme \<Rightarrow> nat option \<times> 'a libcurl_scheme" where
  "curl_easy_init new L =
     (case new of
        None \<Rightarrow> (None, L)
      | Some h \<Rightarrow> (Some h, L\<lparr>links := (links L)(h \<mapsto> new_easy), sets := (sets L)(h \<mapsto> Curl_init_userdefined)\<rparr>))"

definition Curl_close :: "nat \<Rightarrow> 'a libcurl_scheme \<Rightarrow> 'a libcurl_scheme outcome" where
  "Curl_close h L =
     (case links L h of
        None \<Rightarrow> Inl UseAfterFree
      | Some e \<Rightarrow>
          bindE (close_share (shares L) e) (\<lambda>sh.
          bindE (unbind_post h (L\<lparr>shares := sh\<rparr>)) (\<lambda>L1.
            Inr (L1\<lparr>links := (links L1)(h := None), sets := (sets L1)(h := None)\<rparr>))))"

definition curl_easy_cleanup :: "nat option \<Rightarrow> 'a libcurl_scheme \<Rightarrow> 'a libcurl_scheme outcome" where
  "curl_easy_cleanup data L = (case data of None \<Rightarrow> Inr L | Some h \<Rightarrow> Curl_close h L)"

text \<open>The build of libcurl: its content encodings, whether it has libpsl, and what options outside of the model return.\<close>

record build =
  all_encodings :: bytes
  libpsl :: bool
  others :: "CURLoption \<Rightarrow> opt_arg \<Rightarrow> CURLcode"

definition Curl_vsetopt :: "'b build_scheme \<Rightarrow> nat \<Rightarrow> CURLoption \<Rightarrow> opt_arg \<Rightarrow> 'a libcurl_scheme \<Rightarrow> (CURLcode \<times> 'a libcurl_scheme) outcome" where
  "Curl_vsetopt B h i a L =
     (case (sets L h, links L h) of
        (Some s, Some e) \<Rightarrow>
          (case option_type i of
             None \<Rightarrow> Inr (CURLE_UNKNOWN_OPTION, L)
           | Some t \<Rightarrow>
               if \<not> arg_fits i t a then Inl BadArgument
               else (case a of
                       AShare p \<Rightarrow>
                         bindE (setopt_SHARE (libpsl B) (shares L) e p)
                           (\<lambda>(sh, e1). Inr (CURLE_OK, L\<lparr>shares := sh, links := (links L)(h \<mapsto> e1)\<rparr>))
                     | AMime m \<Rightarrow>
                         bindE (Curl_mime_set_subparts h m L) (\<lambda>(res, L1).
                           case sets L1 h of
                             None \<Rightarrow> Inl UseAfterFree
                           | Some s1 \<Rightarrow>
                               if res = CURLE_OK
                               then Inr (res, L1\<lparr>sets := (sets L1)(h \<mapsto> s1\<lparr>set_method := HTTPREQ_POST_MIME, opt_no_body := False\<rparr>)\<rparr>)
                               else Inr (res, L1))
                     | _ \<Rightarrow>
                         bindE (setopt_arg (all_encodings B) (others B) i a s)
                           (\<lambda>(res, s1). Inr (res, L\<lparr>sets := (sets L)(h \<mapsto> s1)\<rparr>))))
      | _ \<Rightarrow> Inl UseAfterFree)"

definition curl_easy_setopt :: "'b build_scheme \<Rightarrow> nat option \<Rightarrow> CURLoption \<Rightarrow> opt_arg \<Rightarrow> 'a libcurl_scheme \<Rightarrow> (CURLcode \<times> 'a libcurl_scheme) outcome" where
  "curl_easy_setopt B data i a L =
     (case data of None \<Rightarrow> Inr (CURLE_BAD_FUNCTION_ARGUMENT, L) | Some h \<Rightarrow> Curl_vsetopt B h i a L)"

section \<open>The invariant\<close>

definition bound :: "'a libcurl_scheme \<Rightarrow> nat \<Rightarrow> nat \<Rightarrow> bool" where
  "bound L a h \<longleftrightarrow> (case mimes L a of None \<Rightarrow> False | Some mi \<Rightarrow> mime_parent mi = Some h)"

definition posting :: "'a libcurl_scheme \<Rightarrow> nat \<Rightarrow> nat \<Rightarrow> bool" where
  "posting L h a \<longleftrightarrow> (case sets L h of None \<Rightarrow> False | Some s \<Rightarrow> mimepost s = Some a)"

definition lib_ok :: "'a libcurl_scheme \<Rightarrow> bool" where
  "lib_ok L \<longleftrightarrow> shares_ok (shares L) (links L) \<and> dom (links L) = dom (sets L) \<and> (\<forall>a h. bound L a h = posting L h a)"

lemma lib_okD:
  assumes "lib_ok L"
  shows "shares_ok (shares L) (links L)" "dom (links L) = dom (sets L)" "bound L a h = posting L h a"
    "sets L h = Some s \<Longrightarrow> mimepost s = Some a \<Longrightarrow> \<exists>mi. mimes L a = Some mi \<and> mime_parent mi = Some h"
    "mimes L a = Some mi \<Longrightarrow> mime_parent mi = Some h \<Longrightarrow> \<exists>s. sets L h = Some s \<and> mimepost s = Some a"
    "sets L h = Some s \<Longrightarrow> \<exists>e. links L h = Some e" "links L h = Some e \<Longrightarrow> \<exists>s. sets L h = Some s"
proof -
  have b: "\<And>a h. bound L a h = posting L h a" using assms by (simp add: lib_ok_def)
  show "shares_ok (shares L) (links L)" "dom (links L) = dom (sets L)" "bound L a h = posting L h a"
    using assms by (auto simp: lib_ok_def)
  then show "sets L h = Some s \<Longrightarrow> \<exists>e. links L h = Some e" "links L h = Some e \<Longrightarrow> \<exists>s. sets L h = Some s"
    by (auto simp: domIff set_eq_iff)
  show "sets L h = Some s \<Longrightarrow> mimepost s = Some a \<Longrightarrow> \<exists>mi. mimes L a = Some mi \<and> mime_parent mi = Some h"
    using b [of a h] by (auto simp: bound_def posting_def split: option.splits)
  show "mimes L a = Some mi \<Longrightarrow> mime_parent mi = Some h \<Longrightarrow> \<exists>s. sets L h = Some s \<and> mimepost s = Some a"
    using b [of a h] by (auto simp: bound_def posting_def split: option.splits)
qed

lemma unbind_post_ok:
  assumes "lib_ok L" "sets L h = Some s"
  shows "\<exists>L'. unbind_post h L = Inr L' \<and> lib_ok L' \<and> sets L' = (sets L)(h \<mapsto> s\<lparr>mimepost := None\<rparr>) \<and>
    shares L' = shares L \<and> links L' = links L \<and> dom (mimes L') = dom (mimes L) \<and> libcurl.more L' = libcurl.more L \<and>
    (\<forall>a. posting L h a \<or> mimes L' a = mimes L a)"
proof (cases "mimepost s")
  case None
  then have "s\<lparr>mimepost := None\<rparr> = s" by simp
  with None assms show ?thesis by (simp add: unbind_post_def fun_upd_idem)
next
  case (Some a)
  from lib_okD(4) [OF assms Some] obtain mi where mi: "mimes L a = Some mi" "mime_parent mi = Some h" by blast
  define L' where "L' = L\<lparr>sets := (sets L)(h \<mapsto> s\<lparr>mimepost := None\<rparr>), mimes := (mimes L)(a \<mapsto> mi\<lparr>mime_parent := None\<rparr>)\<rparr>"
  have "unbind_post h L = Inr L'"
    using assms mi Some by (simp add: unbind_post_def mime_subparts_unbind_def L'_def)
  moreover have "bound L' b k = posting L' k b" for b k
    using lib_okD(3) [OF assms(1), of b k] lib_okD(3) [OF assms(1), of a k] lib_okD(3) [OF assms(1), of b h] assms(2) mi Some
    by (auto simp: bound_def posting_def L'_def split: option.splits if_splits)
  then have "lib_ok L'" using lib_okD(1,2) [OF assms(1)] assms(2) by (auto simp: lib_ok_def L'_def)
  ultimately show ?thesis using mi Some assms(2) by (auto simp: L'_def posting_def)
qed

text \<open>A structure that is not posted yet, or is posted by the same handle, can be posted; one that another handle posts is refused.\<close>

lemma set_subparts_ok:
  assumes "lib_ok L" "sets L h = Some s" "\<forall>a. m = Some a \<longrightarrow> mimes L a \<noteq> None"
  shows "\<exists>res L'. Curl_mime_set_subparts h m L = Inr (res, L') \<and> lib_ok L' \<and>
    res = (if \<exists>a k. m = Some a \<and> bound L a k \<and> k \<noteq> h then CURLE_BAD_FUNCTION_ARGUMENT else CURLE_OK) \<and>
    sets L' = (sets L)(h \<mapsto> s\<lparr>mimepost := (if res = CURLE_OK then m else None)\<rparr>) \<and>
    shares L' = shares L \<and> links L' = links L \<and> dom (mimes L') = dom (mimes L) \<and> libcurl.more L' = libcurl.more L"
proof (cases "m \<noteq> None \<and> mimepost s = m")
  case True
  then obtain a where a: "m = Some a" "mimepost s = Some a" by auto
  then have "s\<lparr>mimepost := Some a\<rparr> = s" by simp
  moreover have "\<not> (bound L a k \<and> k \<noteq> h)" for k
    using lib_okD(4) [OF assms(1,2) a(2)] by (auto simp: bound_def)
  ultimately show ?thesis using assms a
    by (intro exI [of _ CURLE_OK] exI [of _ L]) (simp add: Curl_mime_set_subparts_def fun_upd_idem)
next
  case False
  from unbind_post_ok [OF assms(1,2)] obtain L1 where L1: "unbind_post h L = Inr L1" "lib_ok L1"
    "sets L1 = (sets L)(h \<mapsto> s\<lparr>mimepost := None\<rparr>)" "shares L1 = shares L" "links L1 = links L"
    "dom (mimes L1) = dom (mimes L)" "libcurl.more L1 = libcurl.more L" "\<forall>a. posting L h a \<or> mimes L1 a = mimes L a" by blast
  show ?thesis
  proof (cases m)
    case None
    with L1 assms(2) show ?thesis
      by (intro exI [of _ CURLE_OK] exI [of _ L1]) (simp add: Curl_mime_set_subparts_def)
  next
    case (Some a)
    have "\<not> posting L h a" using False Some assms(2) by (auto simp: posting_def)
    with L1(8) have same: "mimes L1 a = mimes L a" by auto
    from assms(3) Some obtain mi where mi: "mimes L a = Some mi" by auto
    have par: "(\<exists>k. bound L a k \<and> k \<noteq> h) = (mime_parent mi \<noteq> None)"
      using \<open>\<not> posting L h a\<close> lib_okD(3) [OF assms(1), of a h] mi by (auto simp: bound_def)
    show ?thesis
    proof (cases "mime_parent mi")
      case None
      define L2 where "L2 = L1\<lparr>mimes := (mimes L1)(a \<mapsto> mi\<lparr>mime_parent := Some h\<rparr>), sets := (sets L1)(h \<mapsto> s\<lparr>mimepost := Some a\<rparr>)\<rparr>"
      have "bound L2 b k = posting L2 k b" for b k
        using lib_okD(3) [OF L1(2), of b k] lib_okD(3) [OF L1(2), of a k] lib_okD(3) [OF L1(2), of b h] L1(3) None mi same
        by (auto simp: bound_def posting_def L2_def split: option.splits if_splits)
      then have "lib_ok L2" using lib_okD(1,2) [OF L1(2)] L1(3) by (auto simp: lib_ok_def L2_def)
      moreover have "Curl_mime_set_subparts h m L = Inr (CURLE_OK, L2)"
        using False Some None assms(2) L1(1) mi same by (simp add: Curl_mime_set_subparts_def L2_def)
      moreover have "(\<exists>b k. m = Some b \<and> bound L b k \<and> k \<noteq> h) = False" using par None Some by auto
      moreover have "dom (mimes L2) = dom (mimes L)" using L1(6) mi by (auto simp: L2_def)
      ultimately show ?thesis using L1(3-5,7) Some
        by (intro exI [of _ CURLE_OK] exI [of _ L2]) (simp add: L2_def)
    next
      case (Some k)
      then have "Curl_mime_set_subparts h m L = Inr (CURLE_BAD_FUNCTION_ARGUMENT, L1)"
        using False \<open>m = Some a\<close> assms(2) L1(1) mi same by (simp add: Curl_mime_set_subparts_def)
      moreover have "(\<exists>b k. m = Some b \<and> bound L b k \<and> k \<noteq> h) = True" using par Some \<open>m = Some a\<close> by auto
      ultimately show ?thesis using L1(2-7)
        by (intro exI [of _ CURLE_BAD_FUNCTION_ARGUMENT] exI [of _ L1]) simp
    qed
  qed
qed

lemma lib_ok_sets:
  assumes "lib_ok L" "sets L h = Some s" "mimepost s' = mimepost s"
  shows "lib_ok (L\<lparr>sets := (sets L)(h \<mapsto> s')\<rparr>)"
proof -
  have "posting (L\<lparr>sets := (sets L)(h \<mapsto> s')\<rparr>) k b = posting L k b" for k b
    using assms(2,3) by (simp add: posting_def)
  moreover have "bound (L\<lparr>sets := (sets L)(h \<mapsto> s')\<rparr>) b k = bound L b k" for k b by (simp add: bound_def)
  ultimately show ?thesis using assms(1,2) by (auto simp: lib_ok_def)
qed

lemma mimepost_setopt_arg:
  assumes "setopt_arg all oth i a s = Inr (res, s')"
  shows "mimepost s' = mimepost s"
proof -
  have "mimepost (snd (setopt_POSTFIELDSIZE n s)) = mimepost s" for n by (simp add: setopt_POSTFIELDSIZE_def Let_def)
  then have "mimepost (snd (setopt_long i n s)) = mimepost s" "mimepost (snd (setopt_off i n s)) = mimepost s" for n
    by (simp_all add: setopt_long_def setopt_off_def)
  then have "setopt_long i n s = (r, s'') \<Longrightarrow> mimepost s'' = mimepost s" "setopt_off i n s = (r, s'') \<Longrightarrow> mimepost s'' = mimepost s" for n r s''
    by (metis snd_conv)+
  moreover have "mimepost s'' = mimepost s" if "setopt_chars all i p cs s = Inr (res, s'')" for p cs s''
    using that by (auto simp: setopt_chars_def setopt_COPYPOSTFIELDS_def bindE_Inr_iff Let_def split: if_splits prod.splits)
  ultimately show ?thesis using assms
    by (cases a) (auto simp: setopt_arg_def setopt_slist_def setopt_ptr_def setopt_function_def split: if_splits)
qed

text \<open>Setting an option that concerns the handle only.\<close>

lemma setopt_plain:
  assumes "lib_ok L" "sets L h = Some s" "option_type i = Some t" "arg_fits i t a" "\<not> is_share a" "\<not> is_mime a"
    "setopt_arg (all_encodings B) (others B) i a s = Inr (res, s')"
  shows "curl_easy_setopt B (Some h) i a L = Inr (res, L\<lparr>sets := (sets L)(h \<mapsto> s')\<rparr>)"
    and "lib_ok (L\<lparr>sets := (sets L)(h \<mapsto> s')\<rparr>)"
proof -
  from lib_okD(6) [OF assms(1,2)] obtain e where "links L h = Some e" by blast
  with assms show "curl_easy_setopt B (Some h) i a L = Inr (res, L\<lparr>sets := (sets L)(h \<mapsto> s')\<rparr>)"
    by (cases a) (simp_all add: curl_easy_setopt_def Curl_vsetopt_def)
  show "lib_ok (L\<lparr>sets := (sets L)(h \<mapsto> s')\<rparr>)"
    by (rule lib_ok_sets [OF assms(1,2) mimepost_setopt_arg [OF assms(7)]])
qed

lemma setopt_mime:
  assumes "lib_ok L" "sets L h = Some s" "\<forall>a. m = Some a \<longrightarrow> mimes L a \<noteq> None"
  shows "\<exists>res L'. curl_easy_setopt B (Some h) CURLOPT_MIMEPOST (AMime m) L = Inr (res, L') \<and> lib_ok L' \<and>
    res = (if \<exists>a k. m = Some a \<and> bound L a k \<and> k \<noteq> h then CURLE_BAD_FUNCTION_ARGUMENT else CURLE_OK) \<and>
    sets L' = (sets L)(h \<mapsto> (if res = CURLE_OK
       then s\<lparr>mimepost := m, set_method := HTTPREQ_POST_MIME, opt_no_body := False\<rparr> else s\<lparr>mimepost := None\<rparr>)) \<and>
    shares L' = shares L \<and> links L' = links L \<and> dom (mimes L') = dom (mimes L) \<and> libcurl.more L' = libcurl.more L"
proof -
  from lib_okD(6) [OF assms(1,2)] obtain e where e: "links L h = Some e" by blast
  from set_subparts_ok [OF assms] obtain res L1 where L1: "Curl_mime_set_subparts h m L = Inr (res, L1)" "lib_ok L1"
    "res = (if \<exists>a k. m = Some a \<and> bound L a k \<and> k \<noteq> h then CURLE_BAD_FUNCTION_ARGUMENT else CURLE_OK)"
    "sets L1 = (sets L)(h \<mapsto> s\<lparr>mimepost := (if res = CURLE_OK then m else None)\<rparr>)"
    "shares L1 = shares L" "links L1 = links L" "dom (mimes L1) = dom (mimes L)" "libcurl.more L1 = libcurl.more L" by blast
  define s2 where "s2 = (if res = CURLE_OK
       then s\<lparr>mimepost := m, set_method := HTTPREQ_POST_MIME, opt_no_body := False\<rparr> else s\<lparr>mimepost := None\<rparr>)"
  have "sets L1 h = Some (s\<lparr>mimepost := (if res = CURLE_OK then m else None)\<rparr>)" using L1(4) by simp
  note ok = lib_ok_sets [OF L1(2) this, of s2]
  have "curl_easy_setopt B (Some h) CURLOPT_MIMEPOST (AMime m) L = Inr (res, L1\<lparr>sets := (sets L1)(h \<mapsto> s2)\<rparr>)"
    using assms(2) e L1(1,4) by (cases "res = CURLE_OK") (auto simp: curl_easy_setopt_def Curl_vsetopt_def s2_def fun_upd_idem)
  with ok L1(3-8) show ?thesis
    by (intro exI [of _ res] exI [of _ "L1\<lparr>sets := (sets L1)(h \<mapsto> s2)\<rparr>"]) (simp add: s2_def)
qed

lemma setopt_share:
  assumes "lib_ok L" "sets L h = Some s" "links L h = Some e" "\<forall>a. p = Some a \<longrightarrow> shares L a \<noteq> None"
  shows "\<exists>sh e'. curl_easy_setopt B (Some h) CURLOPT_SHARE (AShare p) L =
      Inr (CURLE_OK, L\<lparr>shares := sh, links := (links L)(h \<mapsto> e')\<rparr>) \<and>
    setopt_SHARE (libpsl B) (shares L) e p = Inr (sh, e') \<and> e_share e' = p \<and> lib_ok (L\<lparr>shares := sh, links := (links L)(h \<mapsto> e')\<rparr>)"
proof -
  from setopt_SHARE_ok [OF lib_okD(1) [OF assms(1)] assms(3,4)] obtain sh e' where
    1: "setopt_SHARE (libpsl B) (shares L) e p = Inr (sh, e')" "shares_ok sh ((links L)(h \<mapsto> e'))" "e_share e' = p" by blast
  have "lib_ok (L\<lparr>shares := sh, links := (links L)(h \<mapsto> e')\<rparr>)"
    using assms 1(2) by (auto simp: lib_ok_def bound_def posting_def)
  with 1 assms(2,3) show ?thesis by (simp add: curl_easy_setopt_def Curl_vsetopt_def)
qed

lemma easy_init_ok:
  assumes "lib_ok L" "links L h = None" "card (dom (links L)) < 2 ^ 32 - 1"
  shows "curl_easy_init (Some h) L = (Some h, L\<lparr>links := (links L)(h \<mapsto> new_easy), sets := (sets L)(h \<mapsto> Curl_init_userdefined)\<rparr>)"
    and "lib_ok (L\<lparr>links := (links L)(h \<mapsto> new_easy), sets := (sets L)(h \<mapsto> Curl_init_userdefined)\<rparr>)"
proof -
  have n: "sets L h = None" using assms(2) lib_okD(2) [OF assms(1)] by (metis domIff)
  show "curl_easy_init (Some h) L = (Some h, L\<lparr>links := (links L)(h \<mapsto> new_easy), sets := (sets L)(h \<mapsto> Curl_init_userdefined)\<rparr>)"
    by (simp add: curl_easy_init_def)
  have "\<not> bound L a h" for a using lib_okD(3) [OF assms(1), of a h] n by (simp add: posting_def)
  then show "lib_ok (L\<lparr>links := (links L)(h \<mapsto> new_easy), sets := (sets L)(h \<mapsto> Curl_init_userdefined)\<rparr>)"
    using shares_ok_new [OF lib_okD(1) [OF assms(1)] assms(2,3)] lib_okD(2,3) [OF assms(1)]
    by (auto simp: lib_ok_def bound_def posting_def Curl_init_userdefined_def)
qed

lemma Curl_close_ok:
  assumes "lib_ok L" "sets L h = Some s"
  shows "\<exists>L'. curl_easy_cleanup (Some h) L = Inr L' \<and> lib_ok L' \<and> sets L' = (sets L)(h := None) \<and>
    dom (mimes L') = dom (mimes L) \<and> libcurl.more L' = libcurl.more L"
proof -
  from lib_okD(6) [OF assms] obtain e where e: "links L h = Some e" by blast
  from close_share_ok [OF lib_okD(1) [OF assms(1)] e] obtain sh where
    sh: "close_share (shares L) e = Inr sh" "shares_ok sh ((links L)(h := None))" by blast
  from unbind_post_ok [OF assms] obtain L0 where L0: "unbind_post h L = Inr L0" "lib_ok L0"
    "sets L0 = (sets L)(h \<mapsto> s\<lparr>mimepost := None\<rparr>)" "shares L0 = shares L" "links L0 = links L"
    "dom (mimes L0) = dom (mimes L)" "libcurl.more L0 = libcurl.more L" by blast
  define L1 where "L1 = L0\<lparr>shares := sh\<rparr>"
  have "unbind_post h (L\<lparr>shares := sh\<rparr>) = Inr L1"
    using L0(1) by (auto simp: L1_def unbind_post_def mime_subparts_unbind_def bindE_Inr_iff split: option.splits)
  moreover define L2 where "L2 = L1\<lparr>links := (links L1)(h := None), sets := (sets L1)(h := None)\<rparr>"
  ultimately have "curl_easy_cleanup (Some h) L = Inr L2"
    using e sh(1) by (simp add: curl_easy_cleanup_def Curl_close_def)
  moreover have "bound L2 a k = posting L2 k a" for a k
    using lib_okD(3) [OF L0(2), of a k] L0(3) by (auto simp: bound_def posting_def L2_def L1_def split: option.splits)
  then have "lib_ok L2"
    using sh(2) L0 lib_okD(2) [OF assms(1)] by (auto simp: lib_ok_def L2_def L1_def)
  ultimately show ?thesis using L0 by (auto simp: L2_def L1_def)
qed

lemma lib_ok_mimes:
  assumes "lib_ok L" "mimes L a = v" "(case v of None \<Rightarrow> None | Some mi \<Rightarrow> mime_parent mi) = (case v' of None \<Rightarrow> None | Some mi \<Rightarrow> mime_parent mi)"
  shows "lib_ok (L\<lparr>mimes := (mimes L)(a := v')\<rparr>)"
proof -
  have "bound (L\<lparr>mimes := (mimes L)(a := v')\<rparr>) b k = bound L b k" for b k
    using assms(2,3) by (auto simp: bound_def split: option.splits)
  then show ?thesis using assms(1) by (simp add: lib_ok_def posting_def)
qed

lemma mime_init_ok:
  assumes "lib_ok L" "mimes L a = None"
  shows "lib_ok (L\<lparr>mimes := (mimes L)(a \<mapsto> \<lparr>mime_parent = None, mime_parts = []\<rparr>)\<rparr>)"
  by (rule lib_ok_mimes [OF assms]) simp

lemma set_parts_ok:
  assumes "lib_ok L" "mimes L a = Some mi"
  shows "lib_ok (L\<lparr>mimes := (mimes L)(a \<mapsto> mi\<lparr>mime_parts := ps\<rparr>)\<rparr>)"
  by (rule lib_ok_mimes [OF assms]) simp

text \<open>Freeing a structure takes it away from the handle that posts it.\<close>

lemma mime_free_ok:
  assumes "lib_ok L" "mimes L a = Some mi"
  shows "\<exists>L'. curl_mime_free (Some a) L = Inr L' \<and> lib_ok L' \<and> mimes L' = (mimes L)(a := None) \<and>
    dom (sets L') = dom (sets L) \<and> (\<forall>h s'. sets L' h = Some s' \<longrightarrow> mimepost s' \<noteq> Some a) \<and>
    shares L' = shares L \<and> links L' = links L \<and> libcurl.more L' = libcurl.more L"
proof (cases "mime_parent mi")
  case None
  have no: "sets L h = Some s \<Longrightarrow> mimepost s \<noteq> Some a" for h s
    using lib_okD(3) [OF assms(1), of a h] assms(2) None by (simp add: bound_def posting_def)
  have "lib_ok (L\<lparr>mimes := (mimes L)(a := None)\<rparr>)"
    by (rule lib_ok_mimes [OF assms]) (simp add: None)
  with None assms(2) no show ?thesis
    by (intro exI [of _ "L\<lparr>mimes := (mimes L)(a := None)\<rparr>"]) (simp add: curl_mime_free_def mime_subparts_unbind_def)
next
  case (Some h)
  from lib_okD(5) [OF assms Some] obtain s where s: "sets L h = Some s" "mimepost s = Some a" by blast
  define L1 where "L1 = L\<lparr>sets := (sets L)(h \<mapsto> s\<lparr>mimepost := None\<rparr>), mimes := (mimes L)(a := None)\<rparr>"
  have only: "posting L k a \<Longrightarrow> k = h" for k
    using lib_okD(3) [OF assms(1), of a k] assms(2) Some by (simp add: bound_def)
  have "bound L1 b k = posting L1 k b" for b k
  proof (cases "b = a")
    case True
    have "\<not> posting L1 k a"
    proof (cases "k = h")
      case True
      then show ?thesis by (simp add: posting_def L1_def)
    next
      case False
      then have "posting L1 k a = posting L k a" by (simp add: posting_def L1_def)
      with False only [of k] show ?thesis by blast
    qed
    moreover have "\<not> bound L1 a k" by (simp add: bound_def L1_def)
    ultimately show ?thesis by (simp only: True)
  next
    case False
    then have "bound L1 b k = bound L b k" by (simp add: bound_def L1_def)
    moreover have "posting L1 k b = posting L k b" using False s by (simp add: posting_def L1_def)
    ultimately show ?thesis by (simp only: lib_okD(3) [OF assms(1)])
  qed
  moreover have "dom (sets L1) = dom (sets L)" using s by (auto simp: L1_def)
  ultimately have "lib_ok L1" using lib_okD(1,2) [OF assms(1)] by (simp add: lib_ok_def L1_def)
  moreover have "curl_mime_free (Some a) L = Inr L1"
    using assms(2) Some s by (simp add: curl_mime_free_def mime_subparts_unbind_def L1_def)
  moreover have "mimepost s' \<noteq> Some a" if "sets L1 k = Some s'" for k s'
  proof (cases "k = h")
    case True
    with that show ?thesis by (auto simp: L1_def)
  next
    case False
    with that only [of k] show ?thesis by (auto simp: L1_def posting_def)
  qed
  moreover have "mimes L1 = (mimes L)(a := None)" "shares L1 = shares L" "links L1 = links L" "libcurl.more L1 = libcurl.more L"
    by (simp_all add: L1_def)
  ultimately show ?thesis using \<open>dom (sets L1) = dom (sets L)\<close> by blast
qed

end
