(* ===== verification/Callbacks.thy ===== *)
theory Callbacks
imports Curl_Dynbuf Complex_Main
begin

text \<open>
  The functions that libcurl calls back during a transfer, \<open>curl1c/Common.cpp\<close> and
  \<open>curl1c/Context.cpp\<close>: \<open>read_callback\<close> hands out the text to send, \<open>curl_swrite\<close> and
  \<open>curl_fwrite\<close> collect what is received, and \<open>my_trace\<close> with \<open>my_trace_dump\<close> prints the
  traffic. Sizes are 32 bits wide. What is printed is a list of messages.
\<close>

section \<open>Sending\<close>

text \<open>A pointer into the text to send is the offset in it.\<close>

record WriteThis =
  readptr :: nat
  sizeleft :: u32

definition read_callback ::
  "bytes \<Rightarrow> bytes \<Rightarrow> u32 \<Rightarrow> u32 \<Rightarrow> WriteThis \<Rightarrow> (u32 \<times> bytes \<times> WriteThis) outcome" where
  "read_callback text dest sz nmemb wt =
     (let buffer_size = sz * nmemb in
      if sizeleft wt \<noteq> 0
      then let copy_this_much = (if sizeleft wt > buffer_size then buffer_size else sizeleft wt) in
           if length text < readptr wt + unat copy_this_much then Inl OobRead
           else bindE (store dest 0 (take (unat copy_this_much) (drop (readptr wt) text)))
             (\<lambda>dest'. Inr (copy_this_much, dest',
                wt\<lparr>readptr := readptr wt + unat copy_this_much, sizeleft := sizeleft wt - copy_this_much\<rparr>))
      else Inr (0, dest, wt))"

text \<open>
  The calls that libcurl makes, each with a buffer of the size it asks for. The result are the
  chunks that it gets.
\<close>

fun read_calls :: "bytes \<Rightarrow> u32 list \<Rightarrow> WriteThis \<Rightarrow> (bytes list \<times> WriteThis) outcome" where
  "read_calls text [] wt = Inr ([], wt)"
| "read_calls text (n # ns) wt =
     bindE (read_callback text (replicate (unat n) 0) 1 n wt)
       (\<lambda>(k, dest, wt'). bindE (read_calls text ns wt') (\<lambda>(cs, wt''). Inr (take (unat k) dest # cs, wt'')))"

section \<open>Receiving\<close>

text \<open>
  \<open>mem\<close> is the memory from \<open>ptr\<close> to the end of the allocation. \<open>std::string::append\<close> has no
  overload for a pointer, an offset and a length: the pointer is converted to a \<open>std::string\<close>
  first, which ends at the first zero byte, and a part of that is appended.
\<close>

definition curl_swrite :: "bytes \<Rightarrow> u32 \<Rightarrow> u32 \<Rightarrow> bytes \<Rightarrow> (u32 \<times> bytes) outcome" where
  "curl_swrite mem sz count stream =
     (if 0 \<notin> set mem then Inl OobRead
      else Inr (sz * count, stream @ take (unat (sz * count)) (c_str mem)))"

definition curl_fwrite :: "bytes \<Rightarrow> u32 \<Rightarrow> u32 \<Rightarrow> bytes \<Rightarrow> (u32 \<times> bytes) outcome" where
  "curl_fwrite mem sz nmemb file =
     (if length mem < unat sz * unat nmemb then Inl OobRead
      else Inr (nmemb, file @ take (unat sz * unat nmemb) mem))"

text \<open>The chunks that libcurl delivers, each with what follows it in memory.\<close>

fun swrite_calls :: "(bytes \<times> bytes) list \<Rightarrow> bytes \<Rightarrow> bytes outcome" where
  "swrite_calls [] stream = Inr stream"
| "swrite_calls ((chunk, beyond) # cs) stream =
     bindE (curl_swrite (chunk @ beyond) 1 (of_nat (length chunk)) stream) (\<lambda>(_, s). swrite_calls cs s)"

section \<open>Tracing\<close>

text \<open>Numbers as text: decimal, and hexadecimal with leading zeros up to a width.\<close>

fun digits_of :: "nat \<Rightarrow> nat \<Rightarrow> bytes" where
  "digits_of b n =
     (if b < 2 \<or> n < b then [bytes_of ''0123456789abcdef'' ! n]
      else digits_of b (n div b) @ [bytes_of ''0123456789abcdef'' ! (n mod b)])"

declare digits_of.simps [simp del]

definition fmt_d :: "u32 \<Rightarrow> bytes" where
  "fmt_d n = (if sint n < 0 then [0x2D] else []) @ digits_of 10 (nat \<bar>sint n\<bar>)"

definition fmt_x :: "nat \<Rightarrow> u32 \<Rightarrow> bytes" where
  "fmt_x w n = (let d = digits_of 16 (unat n) in replicate (w - length d) 0x30 @ d)"

definition get :: "bytes \<Rightarrow> u32 \<Rightarrow> byte outcome" where
  "get ptr i = (if unat i < length ptr then Inr (ptr ! unat i) else Inl OobRead)"

text \<open>Whether the two bytes at a position are a line break; the second is read only after the first.\<close>

definition crlf_at :: "bytes \<Rightarrow> u32 \<Rightarrow> bool outcome" where
  "crlf_at ptr i =
     bindE (get ptr i) (\<lambda>a. if a = 0x0D then bindE (get ptr (i + 1)) (\<lambda>b. Inr (b = 0x0A)) else Inr False)"

definition visible :: "byte \<Rightarrow> byte" where
  "visible c = (if c \<ge> 0x20 then c else 0x2E)"

text \<open>The inner loop: one line of output. It changes \<open>i\<close> when it stops at a line break.\<close>

function dump_line :: "bytes \<Rightarrow> u32 \<Rightarrow> u32 \<Rightarrow> u32 \<Rightarrow> bytes \<Rightarrow> (u32 \<times> bytes) outcome" where
  "dump_line ptr sz i c msg =
     (if c < 0x80 \<and> i + c < sz
      then bindE (if i + c + 1 < sz then crlf_at ptr (i + c) else Inr False)
        (\<lambda>br. if br then Inr (i + (c + 2 - 0x80), msg)
              else bindE (get ptr (i + c))
                (\<lambda>ch. bindE (if i + c + 2 < sz then crlf_at ptr (i + c + 1) else Inr False)
                  (\<lambda>br. if br then Inr (i + (c + 3 - 0x80), msg @ [visible ch])
                        else dump_line ptr sz i (c + 1) (msg @ [visible ch]))))
      else Inr (i, msg))"
  by pat_completeness auto
termination
  by (relation "measure (\<lambda>(_, _, _, c, _). 0x80 - unat c)") (auto simp: word_less_nat_alt unat_word_ariths)

declare dump_line.simps [simp del]

partial_function (option) dump_loop :: "bytes \<Rightarrow> u32 \<Rightarrow> u32 \<Rightarrow> bytes list \<Rightarrow> bytes list outcome option" where
  "dump_loop ptr sz i out =
     (if i < sz
      then case dump_line ptr sz i 0 (fmt_x 4 i @ bytes_of '': '') of
             Inl e \<Rightarrow> Some (Inl e)
           | Inr (i', msg) \<Rightarrow> dump_loop ptr sz (i' + 0x80) (out @ [msg])
      else Some (Inr out))"

definition my_trace_dump :: "bytes \<Rightarrow> bytes \<Rightarrow> u32 \<Rightarrow> bytes list outcome option" where
  "my_trace_dump text ptr sz =
     dump_loop ptr sz 0
       [text @ bytes_of '', '' @ fmt_d sz @ bytes_of '' bytes (0x'' @ fmt_x 0 sz @ bytes_of '')'' @ [0x0A]]"

datatype curl_infotype =
    CURLINFO_TEXT | CURLINFO_HEADER_IN | CURLINFO_HEADER_OUT | CURLINFO_DATA_IN | CURLINFO_DATA_OUT
  | CURLINFO_SSL_DATA_IN | CURLINFO_SSL_DATA_OUT | CURLINFO_END

definition my_trace :: "curl_infotype \<Rightarrow> bytes \<Rightarrow> u32 \<Rightarrow> bytes list outcome option" where
  "my_trace type data sz =
     (case type of
        CURLINFO_TEXT \<Rightarrow> Some (Inr [bytes_of ''== Info, '' @ c_str data])
      | CURLINFO_HEADER_IN \<Rightarrow> my_trace_dump (bytes_of ''<= Recv header'') data sz
      | CURLINFO_HEADER_OUT \<Rightarrow> my_trace_dump (bytes_of ''=> Send header'') data sz
      | CURLINFO_DATA_IN \<Rightarrow> my_trace_dump (bytes_of ''<= Recv data'') data sz
      | CURLINFO_DATA_OUT \<Rightarrow> my_trace_dump (bytes_of ''=> Send data'') data sz
      | CURLINFO_SSL_DATA_IN \<Rightarrow> my_trace_dump (bytes_of ''<= Recv SSL data'') data sz
      | CURLINFO_SSL_DATA_OUT \<Rightarrow> my_trace_dump (bytes_of ''=> Send SSL data'') data sz
      | CURLINFO_END \<Rightarrow> Some (Inr []))"

section \<open>Progress\<close>

text \<open>
  The times and speeds that libcurl reports are exact numbers here. A status line is the six
  numbers in the order of the format: for what was sent the total comes first, for what was
  received it comes last.
\<close>

record curl_progress =
  lastruntime :: rat

type_synonym status_line = "int \<times> int \<times> rat \<times> int \<times> int \<times> rat"

definition curl_progress_function ::
  "rat \<Rightarrow> rat \<Rightarrow> rat \<Rightarrow> int \<Rightarrow> int \<Rightarrow> int \<Rightarrow> int \<Rightarrow> curl_progress \<Rightarrow> curl_progress \<times> status_line option" where
  "curl_progress_function curtime ulspeed dlspeed dltotal dlnow ultotal ulnow myp =
     (if curtime - lastruntime myp \<ge> 1
      then (myp\<lparr>lastruntime := curtime\<rparr>, Some (ultotal, ulnow, ulspeed / 1024, dlnow, dltotal, dlspeed / 1024))
      else (myp, None))"

definition progress_function ::
  "rat \<Rightarrow> rat \<Rightarrow> rat \<Rightarrow> int \<Rightarrow> int \<Rightarrow> int \<Rightarrow> int \<Rightarrow> curl_progress \<Rightarrow> int \<times> curl_progress \<times> status_line option" where
  "progress_function curtime ulspeed dlspeed dltotal dlnow ultotal ulnow p =
     (0, curl_progress_function curtime ulspeed dlspeed dltotal dlnow ultotal ulnow p)"

section \<open>Everything is sent\<close>

lemma read_callback_eq:
  assumes "readptr wt + unat (sizeleft wt) = length text"
  shows "\<exists>k wt'. read_callback text (replicate (unat n) 0) 1 n wt =
      Inr (k, take (unat n) (drop (readptr wt) text) @ replicate (unat n - unat (sizeleft wt)) 0, wt') \<and>
    unat k = min (unat n) (unat (sizeleft wt)) \<and> readptr wt' = min (length text) (readptr wt + unat n) \<and> readptr wt' + unat (sizeleft wt') = length text"
proof -
  let ?k = "if sizeleft wt > n then n else sizeleft wt"
  have k: "unat ?k = min (unat n) (unat (sizeleft wt))" by (auto simp: word_less_nat_alt)
  have len: "length (drop (readptr wt) text) = unat (sizeleft wt)" using assms by simp
  show ?thesis
  proof (cases "sizeleft wt = 0")
    case True
    with assms show ?thesis by (auto simp: read_callback_def Let_def)
  next
    case False
    have t: "take (unat ?k) (drop (readptr wt) text) = take (unat n) (drop (readptr wt) text)"
      unfolding k using len by (simp add: min_def)
    have "store (replicate (unat n) 0) 0 (take (unat ?k) (drop (readptr wt) text)) =
        Inr (take (unat n) (drop (readptr wt) text) @ replicate (unat n - unat (sizeleft wt)) 0)"
      unfolding t using len by (subst store_Inr) (auto simp: min_def)
    moreover have "unat (sizeleft wt - ?k) = unat (sizeleft wt) - unat ?k"
      by (rule unat_sub) (auto simp: word_le_nat_alt word_less_nat_alt)
    ultimately show ?thesis using False assms k
      by (simp add: read_callback_def Let_def min_def split del: if_split)
        (auto simp: word_less_nat_alt not_less split: if_splits)
  qed
qed

lemma read_calls_eq:
  assumes "readptr wt + unat (sizeleft wt) = length text"
  shows "\<exists>cs wt'. read_calls text ns wt = Inr (cs, wt') \<and>
    concat cs = take (sum_list (map unat ns)) (drop (readptr wt) text) \<and> list_all2 (\<lambda>c n. length c \<le> unat n) cs ns \<and>
    readptr wt' = min (length text) (readptr wt + sum_list (map unat ns)) \<and> readptr wt' + unat (sizeleft wt') = length text"
  using assms
proof (induction ns arbitrary: wt)
  case (Cons n ns)
  from read_callback_eq [OF Cons.prems, of n] obtain k wt1 where wt1:
    "read_callback text (replicate (unat n) 0) 1 n wt =
      Inr (k, take (unat n) (drop (readptr wt) text) @ replicate (unat n - unat (sizeleft wt)) 0, wt1)"
    "readptr wt1 = min (length text) (readptr wt + unat n)" "readptr wt1 + unat (sizeleft wt1) = length text"
    and k: "unat k = min (unat n) (unat (sizeleft wt))" by blast
  from Cons.IH [OF wt1(3)] obtain cs wt' where IH: "read_calls text ns wt1 = Inr (cs, wt')"
    "concat cs = take (sum_list (map unat ns)) (drop (readptr wt1) text)" "list_all2 (\<lambda>c n. length c \<le> unat n) cs ns"
    "readptr wt' = min (length text) (readptr wt1 + sum_list (map unat ns))" "readptr wt' + unat (sizeleft wt') = length text" by blast
  have l: "length (drop (readptr wt) text) = unat (sizeleft wt)" using Cons.prems by simp
  have chunk: "take (unat k) (take (unat n) (drop (readptr wt) text) @ replicate (unat n - unat (sizeleft wt)) 0) =
      take (unat n) (drop (readptr wt) text)"
    using l by (simp add: k min_def)
  have "read_calls text (n # ns) wt = Inr (take (unat n) (drop (readptr wt) text) # cs, wt')"
    by (simp only: read_calls.simps wt1(1) bindE_simps prod.case chunk IH(1))
  moreover have "concat (take (unat n) (drop (readptr wt) text) # cs) =
      take (sum_list (map unat (n # ns))) (drop (readptr wt) text)"
    using l by (simp add: IH(2) wt1(2) take_add min_def add.commute)
  ultimately show ?case using IH(3-5) wt1(2) by auto
qed simp

lemma sum_list_ge_length: "\<forall>n \<in> set ns. n \<noteq> (0 :: u32) \<Longrightarrow> length ns \<le> sum_list (map unat ns)"
proof (induction ns)
  case (Cons n ns)
  then have "0 < unat n" by (simp add: unat_gt_0)
  with Cons show ?case by simp
qed simp

section \<open>What a trace shows\<close>

text \<open>The text without its line breaks, and how it is cut into lines.\<close>

fun crlf :: "bytes \<Rightarrow> bool" where
  "crlf (a # b # r) = (a = 0x0D \<and> b = 0x0A)"
| "crlf r = False"

fun strip_crlf :: "bytes \<Rightarrow> bytes" where
  "strip_crlf (a # b # r) = (if a = 0x0D \<and> b = 0x0A then strip_crlf r else a # strip_crlf (b # r))"
| "strip_crlf r = r"

fun line_spec :: "nat \<Rightarrow> bytes \<Rightarrow> bytes \<times> bytes" where
  "line_spec (Suc k) (x # r) =
     (if crlf (x # r) then ([], tl r)
      else if crlf r then ([x], drop 2 r)
      else let (l, rest) = line_spec k r in (x # l, rest))"
| "line_spec k r = ([], r)"

lemma line_spec_strip: "line_spec k d = (l, rest) \<Longrightarrow> l @ strip_crlf rest = strip_crlf d"
proof (induction k d arbitrary: l rule: line_spec.induct)
  case (1 k x r)
  show ?case
  proof (cases "crlf (x # r)")
    case True
    then obtain b r' where "r = b # r'" "x = 0x0D" "b = 0x0A" by (cases r) auto
    with 1 show ?thesis by auto
  next
    case False
    then have "strip_crlf (x # r) = x # strip_crlf r" by (cases r) auto
    moreover have "strip_crlf r = strip_crlf (drop 2 r)" if "crlf r" using that by (cases r rule: crlf.cases) auto
    ultimately show ?thesis using 1 False by (auto simp: Let_def split: if_splits prod.splits)
  qed
qed auto

lemma line_spec_length: "line_spec k d = (l, rest) \<Longrightarrow> length l \<le> k"
  by (induction k d arbitrary: l rule: line_spec.induct) (auto simp: Let_def split: if_splits prod.splits)

lemma crlf_nth: "crlf d \<longleftrightarrow> 1 < length d \<and> d ! 0 = 0x0D \<and> d ! 1 = 0x0A"
  by (cases d; cases "tl d") auto

lemma crlf_drop: "crlf (drop p d) \<longleftrightarrow> Suc p < length d \<and> d ! p = 0x0D \<and> d ! Suc p = 0x0A"
  by (auto simp: crlf_nth)

lemma unat_offset: "unat i + n < 2 ^ 32 \<Longrightarrow> unat (i + of_nat n :: u32) = unat i + n"
  by (simp add: unat_word_ariths unat_of_nat)

lemma crlf_at_eq:
  assumes "length ptr = unat sz" "unat j < unat sz" "unat sz < 2 ^ 32 - 1"
  shows "(if j + 1 < sz then crlf_at ptr j else Inr False) = Inr (crlf (drop (unat j) ptr))"
proof -
  have j: "unat (j + 1) = Suc (unat j)" using unat_offset [of j 1] assms by simp
  show ?thesis
    using assms(1,2) by (auto simp: crlf_drop crlf_at_def get_def j word_less_nat_alt)
qed

lemma line_spec_drop:
  "p < length d \<Longrightarrow> line_spec (Suc k) (drop p d) =
     (if crlf (drop p d) then ([], drop (p + 2) d)
      else if crlf (drop (p + 1) d) then ([d ! p], drop (p + 3) d)
      else let (l, rest) = line_spec k (drop (p + 1) d) in (d ! p # l, rest))"
proof -
  assume "p < length d"
  from Cons_nth_drop_Suc [OF this] have e: "drop p d = d ! p # drop (p + 1) d" by simp
  have "tl (drop (p + 1) d) = drop (p + 2) d" "drop 2 (drop (p + 1) d) = drop (p + 3) d"
    by (simp_all add: tl_drop drop_Suc numeral_2_eq_2 numeral_3_eq_3)
  then show ?thesis unfolding e by (simp only: line_spec.simps)
qed

lemma dump_line_eq:
  assumes "length ptr = unat sz" "unat sz < 2 ^ 32 - 256" "unat i + unat c \<le> unat sz" "unat c \<le> 0x80"
    "line_spec (0x80 - unat c) (drop (unat i + unat c) ptr) = (l, rest)"
  shows "\<exists>i'. dump_line ptr sz i c msg = Inr (i', msg @ map visible l) \<and> rest = drop (unat (i' + 0x80)) ptr \<and>
    (i < sz \<longrightarrow> unat i < unat (i' + 0x80))"
  using assms
proof (induction ptr sz i c msg arbitrary: l rule: dump_line.induct)
  case (1 ptr sz i c msg)
  let ?p = "unat i + unat c"
  have o: "unat (i + c) = ?p" "unat (i + c + 1) = ?p + 1" "unat (i + c + 2) = ?p + 2" "unat (i + c + 3) = ?p + 3"
    using unat_offset [of i "unat c"] unat_offset [of "i + c" 1] unat_offset [of "i + c" 2] unat_offset [of "i + c" 3] "1.prems"(2,3)
    by simp_all
  show ?case
  proof (cases "c < 0x80 \<and> i + c < sz")
    case False
    then have "unat c = 0x80 \<or> drop ?p ptr = []"
      using "1.prems"(1,4) by (auto simp: word_less_nat_alt o)
    then have l: "l = []" "rest = drop ?p ptr" using "1.prems"(5) by auto
    have 80: "unat (i + 0x80) = unat i + 0x80" using unat_offset [of i "0x80"] "1.prems"(2,3) by simp
    have "rest = drop (unat (i + 0x80)) ptr" using l(2) \<open>unat c = 0x80 \<or> _\<close> "1.prems"(4) by (auto simp: 80)
    moreover have "dump_line ptr sz i c msg = Inr (i, msg)"
      by (subst dump_line.simps) (simp only: False if_False)
    ultimately show ?thesis using l(1) by (simp add: 80)
  next
    case True
    then have p: "?p < length ptr" using "1.prems"(1) by (simp add: word_less_nat_alt o)
    have c: "unat c < 0x80" using True by (simp add: word_less_nat_alt)
    then have k: "unat (c + 1) = unat c + 1" using unat_offset [of c 1] by simp
    with c have kk: "0x80 - unat c = Suc (0x80 - unat (c + 1))" by linarith
    have g: "get ptr (i + c) = Inr (ptr ! ?p)" using p by (simp add: get_def o)
    have b1: "(if i + c + 1 < sz then crlf_at ptr (i + c) else Inr False) = Inr (crlf (drop ?p ptr))"
      using crlf_at_eq [of ptr sz "i + c"] "1.prems"(1,2) p by (simp add: o)
    have b2: "(if i + c + 2 < sz then crlf_at ptr (i + c + 1) else Inr False) = Inr (crlf (drop (?p + 1) ptr))"
    proof (cases "?p + 1 < length ptr")
      case True
      have "i + c + 1 + 1 = i + c + 2" by simp
      from crlf_at_eq [of ptr sz "i + c + 1", unfolded this o(2)] True "1.prems"(1,2) show ?thesis by simp
    next
      case False
      then show ?thesis using "1.prems"(1) by (simp add: word_less_nat_alt o)
    qed
    have step: "dump_line ptr sz i c msg =
       (if crlf (drop ?p ptr) then Inr (i + (c + 2 - 0x80), msg)
        else if crlf (drop (?p + 1) ptr) then Inr (i + (c + 3 - 0x80), msg @ [visible (ptr ! ?p)])
        else dump_line ptr sz i (c + 1) (msg @ [visible (ptr ! ?p)]))"
      using True by (subst dump_line.simps) (simp only: b1 b2 g bindE_simps if_True simp_thms)
    note spec = "1.prems"(5) [unfolded kk line_spec_drop [OF p]]
    show ?thesis
    proof (cases "crlf (drop ?p ptr) \<or> crlf (drop (?p + 1) ptr)")
      case True
      moreover have "unat (2 + (i + c)) = ?p + 2" "unat (3 + (i + c)) = ?p + 3" using o(3,4) by (simp_all only: add.commute)
      ultimately show ?thesis using spec unfolding step by auto
    next
      case False
      then obtain l' where l': "line_spec (0x80 - unat (c + 1)) (drop (?p + 1) ptr) = (l', rest)" "l = ptr ! ?p # l'"
        using spec by (auto simp: Let_def split: prod.splits)
      have "\<exists>i'. dump_line ptr sz i (c + 1) (msg @ [visible (ptr ! ?p)]) = Inr (i', (msg @ [visible (ptr ! ?p)]) @ map visible l') \<and>
          rest = drop (unat (i' + 0x80)) ptr \<and> (i < sz \<longrightarrow> unat i < unat (i' + 0x80))"
        using c False p "1.prems"(1,2) l'(1) k
        by (intro "1.IH" [OF True, of False False]) (simp_all add: add.assoc)
      then show ?thesis using False l'(2) unfolding step by simp
    qed
  qed
qed

lemma line_spec_rest: "length (snd (line_spec k d)) \<le> length d"
  by (induction k d rule: line_spec.induct) (auto simp: Let_def split: prod.splits)

lemma line_spec_progress: "d \<noteq> [] \<Longrightarrow> length (snd (line_spec (Suc k) d)) < length d"
proof -
  assume "d \<noteq> []"
  then obtain x r where d: "d = x # r" by (cases d) auto
  have "length (snd (line_spec (Suc k) (x # r))) \<le> length r"
    using line_spec_rest [of k r] by (auto simp: Let_def split: prod.splits)
  then show ?thesis by (simp only: d length_Cons less_Suc_eq_le)
qed

text \<open>All lines of a text.\<close>

function lines_spec :: "bytes \<Rightarrow> bytes list" where
  "lines_spec d = (if d = [] then [] else fst (line_spec 0x80 d) # lines_spec (snd (line_spec 0x80 d)))"
  by pat_completeness auto
termination
  using line_spec_progress [of _ "0x7F"] by (relation "measure length") simp_all

declare lines_spec.simps [simp del]

lemma concat_lines: "concat (lines_spec d) = strip_crlf d" "\<forall>l \<in> set (lines_spec d). length l \<le> 0x80"
proof (induction d rule: lines_spec.induct)
  case (1 d)
  case 1
  then show ?case using "1.IH"(1) line_spec_strip [of "0x80" d "fst (line_spec 0x80 d)" "snd (line_spec 0x80 d)"]
    by (subst lines_spec.simps) auto
  case 2
  then show ?case using "1.IH"(2) line_spec_length [of "0x80" d "fst (line_spec 0x80 d)" "snd (line_spec 0x80 d)"]
    by (subst lines_spec.simps) auto
qed

lemma dump_loop_eq:
  assumes "length ptr = unat sz" "unat sz < 2 ^ 32 - 256"
  shows "\<exists>hs. length hs = length (lines_spec (drop (unat i) ptr)) \<and> dump_loop ptr sz i out =
    Some (Inr (out @ map2 (\<lambda>j l. fmt_x 4 j @ bytes_of '': '' @ map visible l) hs (lines_spec (drop (unat i) ptr))))"
proof (induction "length ptr - unat i" arbitrary: i out rule: less_induct)
  case less
  show ?case
  proof (cases "i < sz")
    case False
    then have "drop (unat i) ptr = []" using assms(1) by (simp add: word_less_nat_alt)
    with False show ?thesis by (subst dump_loop.simps) (simp add: lines_spec.simps)
  next
    case True
    then have d: "drop (unat i) ptr \<noteq> []" using assms(1) by (simp add: word_less_nat_alt)
    obtain l rest where s: "line_spec 0x80 (drop (unat i) ptr) = (l, rest)" by fastforce
    from dump_line_eq [OF assms, of i 0 l rest "fmt_x 4 i @ bytes_of '': ''"] s True obtain i' where
      i': "dump_line ptr sz i 0 (fmt_x 4 i @ bytes_of '': '') = Inr (i', (fmt_x 4 i @ bytes_of '': '') @ map visible l)"
      "rest = drop (unat (i' + 0x80)) ptr" "unat i < unat (i' + 0x80)" by (auto simp: word_less_nat_alt)
    have "length ptr - unat (i' + 0x80) < length ptr - unat i" using i'(3) d by simp
    from less [OF this] obtain hs where hs: "length hs = length (lines_spec rest)"
      "dump_loop ptr sz (i' + 0x80) (out @ [(fmt_x 4 i @ bytes_of '': '') @ map visible l]) =
        Some (Inr ((out @ [(fmt_x 4 i @ bytes_of '': '') @ map visible l]) @
          map2 (\<lambda>j l. fmt_x 4 j @ bytes_of '': '' @ map visible l) hs (lines_spec rest)))"
      unfolding i'(2) by blast
    have L: "lines_spec (drop (unat i) ptr) = l # lines_spec rest" using d s by (subst lines_spec.simps) simp
    show ?thesis
      using True hs i'(1) unfolding L by (intro exI [of _ "i # hs"]) (subst dump_loop.simps, simp)
  qed
qed

section \<open>Collecting chunks\<close>

lemma swrite_calls_eq:
  assumes "\<forall>(chunk, beyond) \<in> set cs. length chunk < 2 ^ 32"
  shows "swrite_calls cs stream =
     (if list_all (\<lambda>(chunk, beyond). 0 \<in> set (chunk @ beyond)) cs
      then Inr (stream @ concat (map (\<lambda>(chunk, _). c_str chunk) cs)) else Inl OobRead)"
  using assms
proof (induction cs stream rule: swrite_calls.induct)
  case (2 chunk beyond cs stream)
  have "take (length chunk) (c_str (chunk @ beyond)) = c_str chunk" by (induction chunk) auto
  with 2 show ?case by (simp add: curl_swrite_def unat_of_nat_u32)
qed simp

section \<open>Properties\<close>

text \<open>
  C8: whatever amounts libcurl asks for, as long as it asks for something, \<open>read_callback\<close>
  has delivered the whole text in order after at most as many calls as the text has bytes, and
  then reports the end of it; no call reads past the text or writes past the buffer.
\<close>

theorem read_callback_delivers:
  assumes "length text < 2 ^ 32" "\<forall>i. req i \<noteq> 0"
  shows "\<exists>k cs wt. k \<le> length text \<and>
    read_calls text (map req [0..<k]) \<lparr>readptr = 0, sizeleft = of_nat (length text)\<rparr> = Inr (cs, wt) \<and>
    concat cs = text \<and> (\<forall>dest n. read_callback text dest 1 n wt = Inr (0, dest, wt))"
proof -
  let ?ns = "map req [0..<length text]"
  let ?wt = "\<lparr>readptr = 0, sizeleft = of_nat (length text) :: u32\<rparr>"
  have "readptr ?wt + unat (sizeleft ?wt) = length text" using assms(1) by (simp add: unat_of_nat_u32)
  from read_calls_eq [OF this, of ?ns] obtain cs wt where r: "read_calls text ?ns ?wt = Inr (cs, wt)"
    "concat cs = take (sum_list (map unat ?ns)) text" "readptr wt = min (length text) (sum_list (map unat ?ns))"
    "readptr wt + unat (sizeleft wt) = length text" by auto
  have "length text \<le> sum_list (map unat ?ns)" using sum_list_ge_length [of ?ns] assms(2) by simp
  with r have "concat cs = text" "sizeleft wt = 0" by (simp_all add: unat_eq_0)
  then show ?thesis using r(1) by (intro exI [of _ "length text"] exI [of _ cs] exI [of _ wt]) (simp add: read_callback_def)
qed

theorem read_callback_delivers_witness:
  "\<exists>k cs wt. k \<le> 3 \<and>
    read_calls [1, 2, 3] (map (\<lambda>_. 2) [0..<k]) \<lparr>readptr = 0, sizeleft = 3\<rparr> = Inr (cs, wt) \<and>
    concat cs = [1, 2, 3] \<and> (\<forall>dest n. read_callback [1, 2, 3] dest 1 n wt = Inr (0, dest, wt))"
  using read_callback_delivers [of "[1, 2, 3]" "\<lambda>_. 2"] by (simp add: numeral_3_eq_3)

text \<open>
  C9: what \<open>curl_swrite\<close> collects is each chunk up to its first zero byte; a chunk with no zero
  byte in it or in the memory after it makes it read past the end of that memory.
\<close>

theorem swrite_collects:
  assumes "\<forall>(chunk, beyond) \<in> set cs. length chunk < 2 ^ 32"
  shows "swrite_calls cs stream =
     (if list_all (\<lambda>(chunk, beyond). 0 \<in> set (chunk @ beyond)) cs
      then Inr (stream @ concat (map (\<lambda>(chunk, _). c_str chunk) cs)) else Inl OobRead)"
  by (rule swrite_calls_eq [OF assms])

theorem swrite_collects_witness:
  "swrite_calls [([1, 0, 2], []), ([3, 4], [0])] [9] = Inr [9, 1, 3, 4]"
  by (subst swrite_collects) simp_all

text \<open>
  C19: for data of less than \<open>2 ^ 32 - 256\<close> bytes the trace ends, reads only inside of the data,
  and prints after its heading lines of at most 128 characters which, one after the other, are
  the data without its line breaks, with a dot for every control character.
\<close>

theorem trace_dump_correct:
  assumes "length data < 2 ^ 32 - 256"
  shows "\<exists>heading hs ls. my_trace_dump text data (of_nat (length data)) =
      Some (Inr (heading # map2 (\<lambda>i l. fmt_x 4 i @ bytes_of '': '' @ l) hs ls)) \<and>
    length hs = length ls \<and> concat ls = map visible (strip_crlf data) \<and> (\<forall>l \<in> set ls. length l \<le> 128)"
proof -
  have len: "length data = unat (of_nat (length data) :: u32)" using assms by (intro unat_of_nat_u32 [symmetric]) simp
  with assms have "unat (of_nat (length data) :: u32) < 2 ^ 32 - 256" by simp
  note dump = dump_loop_eq [OF len this, of 0]
  obtain heading where h: "my_trace_dump text data (of_nat (length data)) = dump_loop data (of_nat (length data)) 0 [heading]"
    unfolding my_trace_dump_def by blast
  from dump [of "[heading]"] obtain hs where
    "length hs = length (lines_spec data)"
    "my_trace_dump text data (of_nat (length data)) =
      Some (Inr (heading # map2 (\<lambda>i l. fmt_x 4 i @ bytes_of '': '' @ map visible l) hs (lines_spec data)))"
    unfolding h by auto
  moreover have "map2 (\<lambda>i l. fmt_x 4 i @ bytes_of '': '' @ map visible l) hs (lines_spec data) =
      map2 (\<lambda>i l. fmt_x 4 i @ bytes_of '': '' @ l) hs (map (map visible) (lines_spec data))"
    by (simp add: zip_map2 case_prod_beta' comp_def)
  moreover have "concat (map (map visible) (lines_spec data)) = map visible (strip_crlf data)"
    by (simp only: map_concat [symmetric] concat_lines)
  ultimately show ?thesis using concat_lines(2) [of data]
    by (intro exI [of _ heading] exI [of _ hs] exI [of _ "map (map visible) (lines_spec data)"]) auto
qed

theorem trace_dump_correct_witness:
  "\<exists>heading hs ls. my_trace_dump (bytes_of ''<= Recv data'') (bytes_of ''ab'' @ [13, 10, 0, 99]) (of_nat (length (bytes_of ''ab'' @ [13, 10, 0, 99]))) =
      Some (Inr (heading # map2 (\<lambda>i l. fmt_x 4 i @ bytes_of '': '' @ l) hs ls)) \<and>
    length hs = length ls \<and> concat ls = bytes_of ''ab.c'' \<and> (\<forall>l \<in> set ls. length l \<le> 128)"
  using trace_dump_correct [of "bytes_of ''ab'' @ [13, 10, 0, 99]" "bytes_of ''<= Recv data''"]
  by (simp add: visible_def)

end
