(* ===== verification/Component.thy ===== *)
theory Component
imports Curl_Easy Callbacks Curl_Escape Base64
begin

text \<open>
  The object \<open>cURL1C\<close> of the component, \<open>curl1c/Context.h\<close> and \<open>curl1c/Context.cpp\<close>, with the
  start and the end of the library in \<open>1ScURL.cpp\<close>: every method and property that a script can
  use, on the state of the process. That state is the one of libcurl, extended by the lists of
  strings, the global variables of the component, the open streams and the files.

  What is outside of the sources is an argument: the allocators, the conversions of Windows, the
  file system, and the answer of the server to a transfer. A method returns a value to the
  script, fails, or raises an exception that the script can catch; undefined behaviour is a
  fault as everywhere in the development. Messages that only inform (\<open>TraceLog\<close>) are left out.
\<close>

section \<open>Values of the script\<close>

text \<open>A value as the component reads it: its type, its text and its number.\<close>

record cvalue =
  type_code :: nat
  str_value :: bytes
  num_value :: int

datatype script_error =
    Bad_value | Unknown_option | Cannot_open | No_size | Cannot_create | Not_received int int

datatype script_value =
    Nothing | Number int | Chars bytes | Strings "bytes list" | Numbers "(string \<times> int) list"
  | Mime_object | Source_object | Dest_object

datatype script_result = Returns script_value | Fails | Raises script_error

subsection \<open>CCurlValue\<close>

abbreviation (input) ttVariable :: int where "ttVariable \<equiv> 0"
abbreviation (input) ttFile :: int where "ttFile \<equiv> 1"
abbreviation (input) ttMsg :: int where "ttMsg \<equiv> 2"
abbreviation (input) ttSrc :: int where "ttSrc \<equiv> 0"
abbreviation (input) ttDest :: int where "ttDest \<equiv> 1"
abbreviation (input) ttTrace :: int where "ttTrace \<equiv> 2"
abbreviation (input) ttASCII :: int where "ttASCII \<equiv> 0"

record CCurlValue =
  Type :: int
  Encoding :: int
  ValType :: int
  Data :: bytes

definition new_CCurlValue :: "int \<Rightarrow> CCurlValue" where
  "new_CCurlValue vt = \<lparr>Type = ttVariable, Encoding = ttASCII, ValType = vt, Data = []\<rparr>"

definition read_Type :: "CCurlValue \<Rightarrow> script_result" where
  "read_Type c = Returns (Number (Type c))"

definition write_Type :: "cvalue \<Rightarrow> CCurlValue \<Rightarrow> script_result \<times> CCurlValue" where
  "write_Type v c =
     (let t = num_value v in
      if t \<ge> 0 \<and> t \<le> 2 then (Returns Nothing, c\<lparr>Type := t\<rparr>) else (Raises Bad_value, c))"

definition read_Data :: "CCurlValue \<Rightarrow> script_result" where
  "read_Data c = Returns (Chars (Data c))"

definition write_Data :: "cvalue \<Rightarrow> CCurlValue \<Rightarrow> script_result \<times> CCurlValue" where
  "write_Data v c = (Returns Nothing, c\<lparr>Data := c_str (str_value v)\<rparr>)"

definition read_Encoding :: "CCurlValue \<Rightarrow> script_result" where
  "read_Encoding c = Returns (Number (Encoding c))"

definition write_Encoding :: "cvalue \<Rightarrow> CCurlValue \<Rightarrow> script_result \<times> CCurlValue" where
  "write_Encoding v c = (Returns Nothing, c\<lparr>Encoding := num_value v\<rparr>)"

section \<open>The state of the process\<close>

record process = libcurl +
  lists :: slist_heap
  CurlShare :: "nat option"
  bUseCacheDNS :: bool
  bUseCacheCONNECT :: bool
  bUseCacheSSL :: bool
  bUseCacheCOOKIE :: bool
  bNeedInitCache :: bool
  isTrace :: bool
  streams :: "nat \<rightharpoonup> bytes"
  disk :: "bytes \<rightharpoonup> bytes"
  calls :: nat
  buffers :: nat
  encoded_to :: bytes
  encoded_from :: bytes

text \<open>
  What lies outside: the addresses that the allocators give, whether memory of a size can be
  had, what it holds, what a share can hold, the file system, the code pages, the text that
  the runtime stores for a null pointer, the memory of a text that belongs to the script, and
  the standard input.
\<close>

record platform = build +
  new_handle :: "easy_heap \<Rightarrow> nat option"
  new_share :: "share_heap \<Rightarrow> nat option"
  new_mime :: "(nat \<rightharpoonup> mime) \<Rightarrow> nat option"
  new_node :: "slist_heap \<Rightarrow> nat option"
  new_stream :: "(nat \<rightharpoonup> bytes) \<Rightarrow> nat option"
  alloc :: "nat \<Rightarrow> bool"
  junk :: "nat \<Rightarrow> byte"
  avail :: "nat \<Rightarrow> bool"
  stat_file :: "bytes \<Rightarrow> int option"
  base_name :: "bytes \<Rightarrow> bytes"
  may_create :: "bytes \<Rightarrow> bool"
  fstat_works :: bool
  mb_wide :: "nat \<Rightarrow> bytes \<Rightarrow> 16 word list"
  wide_mb :: "nat \<Rightarrow> 16 word list \<Rightarrow> bytes"
  null_text :: bytes
  script_text :: "bytes outcome"
  std_input :: bytes

section \<open>Texts in code pages\<close>

text \<open>
  The Windows functions convert up to and with the terminator. They are called for the size
  first, and then with a buffer of that size; a conversion that is refused leaves a buffer
  with no terminator, and reading it goes past its end.
\<close>

abbreviation (input) CP_ACP :: nat where "CP_ACP \<equiv> 0"
abbreviation (input) CP_UTF8 :: nat where "CP_UTF8 \<equiv> 65001"

definition convert :: "nat \<Rightarrow> nat \<Rightarrow> 'a platform_scheme \<Rightarrow> bytes \<Rightarrow> bytes outcome" where
  "convert from to P inp =
     (let temp = mb_wide P from (c_str inp @ [0]) in
      if 0 \<notin> set temp then Inl OobRead
      else let out = wide_mb P to (takeWhile (\<lambda>w. w \<noteq> 0) temp @ [0]) in
           if 0 \<notin> set out then Inl OobRead else Inr (c_str out))"

definition ANSItoUTF8 :: "'a platform_scheme \<Rightarrow> bytes \<Rightarrow> bytes outcome" where
  "ANSItoUTF8 = convert CP_ACP CP_UTF8"

definition UTF8toANSI :: "'a platform_scheme \<Rightarrow> bytes \<Rightarrow> bytes outcome" where
  "UTF8toANSI = convert CP_UTF8 CP_ACP"

definition ToUTF8 :: "'a platform_scheme \<Rightarrow> cvalue \<Rightarrow> script_result outcome" where
  "ToUTF8 P v = bindE (ANSItoUTF8 P (str_value v)) (\<lambda>s. Inr (Returns (Chars s)))"

definition FromUTF8 :: "'a platform_scheme \<Rightarrow> cvalue \<Rightarrow> script_result outcome" where
  "FromUTF8 P v = bindE (UTF8toANSI P (str_value v)) (\<lambda>s. Inr (Returns (Chars s)))"

definition ToURL :: "'a platform_scheme \<Rightarrow> cvalue \<Rightarrow> script_result outcome option" where
  "ToURL P v =
     (let inp = c_str (str_value v) in
      bindO (curl_easy_escape (\<lambda>n. alloc P (unat n)) (junk P) (alloc P 1) (inp @ [0]) (int (length inp)))
        (\<lambda>r. Some (Inr (Returns (Chars (case r of None \<Rightarrow> null_text P | Some cs \<Rightarrow> c_str cs))))))"

definition FromURL :: "'a platform_scheme \<Rightarrow> cvalue \<Rightarrow> script_result outcome" where
  "FromURL P v =
     (let inp = c_str (str_value v) in
      bindE (curl_easy_unescape (alloc P) (junk P 0) (inp @ [0]) (int (length inp)))
        (\<lambda>r. Inr (Returns (Chars (case r of None \<Rightarrow> null_text P | Some (cs, _) \<Rightarrow> c_str cs)))))"

text \<open>The output strings of the two Base64 methods are static; a string has less than \<open>2 ^ 31\<close> characters.\<close>

definition ToBase64 :: "cvalue \<Rightarrow> 'a process_scheme \<Rightarrow> (script_result \<times> 'a process_scheme) outcome" where
  "ToBase64 v S =
     (let inp = c_str (str_value v) in
      if inp = [] then Inr (Returns (Chars []), S)
      else bindE (Encode (2 ^ 31 - 1) inp (encoded_to S))
             (\<lambda>(ok, out). let S1 = S\<lparr>encoded_to := out\<rparr> in
                if \<not> ok then Inr (Fails, S1) else Inr (Returns (Chars (c_str out)), S1)))"

definition FromBase64 :: "cvalue \<Rightarrow> 'a process_scheme \<Rightarrow> (script_result \<times> 'a process_scheme) outcome" where
  "FromBase64 v S =
     (let inp = c_str (str_value v) in
      if inp = [] then Inr (Returns (Chars []), S)
      else bindE (Decode (2 ^ 31 - 1) inp (encoded_from S))
             (\<lambda>(ok, out). let S1 = S\<lparr>encoded_from := out\<rparr> in
                if \<not> ok then Inr (Fails, S1) else Inr (Returns (Chars (c_str out)), S1)))"

section \<open>The object\<close>

record CCurlMime =
  p_curl :: "nat option"
  p_mime :: "nat option"

record CcURL =
  m_curl :: "nat option"
  m_mime :: "nat option"
  m_trace :: bool
  PostFildsData :: bytes
  post_buffer :: nat
  m_StatusLine :: int
  isPosting :: bool
  isMultipart :: bool
  pSrc :: CCurlValue
  pDest :: CCurlValue
  pTrace :: CCurlValue
  pCurlMime :: CCurlMime
  headers :: "nat option"
  recipients :: "nat option"

text \<open>Options that are set one after the other; the component looks at no result.\<close>

fun setopts :: "'b build_scheme \<Rightarrow> nat option \<Rightarrow> (CURLoption \<times> opt_arg) list \<Rightarrow> 'a libcurl_scheme \<Rightarrow> 'a libcurl_scheme outcome" where
  "setopts P h [] S = Inr S"
| "setopts P h ((i, a) # os) S = bindE (curl_easy_setopt P h i a S) (\<lambda>(_, S1). setopts P h os S1)"

fun share_setopts :: "'b platform_scheme \<Rightarrow> nat option \<Rightarrow> CURLSHoption list \<Rightarrow> 'a libcurl_scheme \<Rightarrow> 'a libcurl_scheme outcome" where
  "share_setopts P p [] S = Inr S"
| "share_setopts P p (opt # os) S =
     bindE (curl_share_setopt (avail P) (libpsl P) (shares S) p opt)
       (\<lambda>(_, sh). share_setopts P p os (S\<lparr>shares := sh\<rparr>))"

definition init_share :: "'b platform_scheme \<Rightarrow> 'a libcurl_scheme \<Rightarrow> nat option \<times> 'a libcurl_scheme" where
  "init_share P S =
     (case new_share P (shares S) of
        None \<Rightarrow> (None, S)
      | Some a \<Rightarrow> (Some a, S\<lparr>shares := (shares S)(a \<mapsto> curl_share_init)\<rparr>))"

subsection \<open>The library\<close>

text \<open>The state before the library is attached, with the initial values of the global variables, and \<open>DllMain\<close>.\<close>

definition process_start :: "(bytes \<rightharpoonup> bytes) \<Rightarrow> process" where
  "process_start files =
     \<lparr>shares = Map.empty, links = Map.empty, sets = Map.empty, mimes = Map.empty, lists = Map.empty,
      CurlShare = None, bUseCacheDNS = True, bUseCacheCONNECT = True, bUseCacheSSL = True,
      bUseCacheCOOKIE = False, bNeedInitCache = False, isTrace = False, streams = Map.empty, disk = files,
      calls = 0, buffers = 0, encoded_to = [], encoded_from = []\<rparr>"

definition DllMain_attach :: "'b platform_scheme \<Rightarrow> 'a process_scheme \<Rightarrow> 'a process_scheme outcome" where
  "DllMain_attach P S =
     (let (p, S1) = init_share P S in
      share_setopts P p
        [CURLSHOPT_SHARE CURL_LOCK_DATA_DNS, CURLSHOPT_SHARE CURL_LOCK_DATA_CONNECT,
         CURLSHOPT_SHARE CURL_LOCK_DATA_SSL_SESSION] (S1\<lparr>CurlShare := p\<rparr>))"

definition DllMain_detach :: "'a process_scheme \<Rightarrow> 'a process_scheme outcome" where
  "DllMain_detach S = bindE (curl_share_cleanup (shares S) (CurlShare S)) (\<lambda>(_, sh, _). Inr (S\<lparr>shares := sh\<rparr>))"

subsection \<open>The cache\<close>

definition share_or_not :: "bool \<Rightarrow> nat \<Rightarrow> CURLSHoption" where
  "share_or_not b t = (if b then CURLSHOPT_SHARE t else CURLSHOPT_UNSHARE t)"

definition cache_options :: "'a process_scheme \<Rightarrow> CURLSHoption list" where
  "cache_options S =
     [share_or_not (bUseCacheDNS S) CURL_LOCK_DATA_DNS, share_or_not (bUseCacheCONNECT S) CURL_LOCK_DATA_CONNECT,
      share_or_not (bUseCacheSSL S) CURL_LOCK_DATA_SSL_SESSION, share_or_not (bUseCacheCOOKIE S) CURL_LOCK_DATA_COOKIE,
      CURLSHOPT_SHARE CURL_LOCK_DATA_PSL, CURLSHOPT_SHARE CURL_LOCK_DATA_HSTS]"

definition renew_share :: "'b platform_scheme \<Rightarrow> 'a process_scheme \<Rightarrow> 'a process_scheme outcome" where
  "renew_share P S =
     bindE (curl_share_cleanup (shares S) (CurlShare S))
       (\<lambda>(_, sh, _). let (p, S1) = init_share P (S\<lparr>shares := sh\<rparr>) in Inr (S1\<lparr>CurlShare := p\<rparr>))"

definition AssignCurlCache :: "'b platform_scheme \<Rightarrow> nat option \<Rightarrow> 'a process_scheme \<Rightarrow> 'a process_scheme outcome" where
  "AssignCurlCache P h S =
     bindE (if bNeedInitCache S then renew_share P S else Inr S)
       (\<lambda>S1. bindE (share_setopts P (CurlShare S1) (cache_options S1) S1)
         (\<lambda>S2. bindE (curl_easy_setopt P h CURLOPT_SHARE (AShare (CurlShare S2)) S2)
           (\<lambda>(_, S3). Inr (S3\<lparr>bNeedInitCache := False\<rparr>))))"

definition ClearCache :: "'b platform_scheme \<Rightarrow> CcURL \<Rightarrow> 'a process_scheme \<Rightarrow> 'a process_scheme outcome" where
  "ClearCache P c S = AssignCurlCache P (m_curl c) (S\<lparr>bNeedInitCache := True\<rparr>)"

definition UseCache :: "'b platform_scheme \<Rightarrow> cvalue \<Rightarrow> cvalue \<Rightarrow> cvalue \<Rightarrow> cvalue \<Rightarrow> CcURL \<Rightarrow> 'a process_scheme \<Rightarrow> 'a process_scheme outcome" where
  "UseCache P p0 p1 p2 p3 c S =
     AssignCurlCache P (m_curl c)
       (S\<lparr>bNeedInitCache := True, bUseCacheDNS := num_value p0 \<noteq> 0, bUseCacheCONNECT := num_value p1 \<noteq> 0,
          bUseCacheSSL := num_value p2 \<noteq> 0, bUseCacheCOOKIE := num_value p3 \<noteq> 0\<rparr>)"

subsection \<open>Beginning and end of an object\<close>

definition slist_append :: "'b platform_scheme \<Rightarrow> nat option \<Rightarrow> bytes \<Rightarrow> 'a process_scheme \<Rightarrow> (nat option \<times> 'a process_scheme) outcome option" where
  "slist_append P list text S =
     bindO (curl_slist_append (new_node P) (alloc P (strlen text + 1)) (lists S) list text)
       (\<lambda>(l, p). Some (Inr (p, S\<lparr>lists := l\<rparr>)))"

definition slist_free :: "nat option \<Rightarrow> 'a process_scheme \<Rightarrow> 'a process_scheme outcome option" where
  "slist_free list S = bindO (curl_slist_free_all (lists S) list) (\<lambda>l. Some (Inr (S\<lparr>lists := l\<rparr>)))"

definition default_options :: "(CURLoption \<times> opt_arg) list" where
  "default_options =
     [(CURLOPT_SSL_VERIFYPEER, ALong 0), (CURLOPT_SSL_VERIFYHOST, ALong 0), (CURLOPT_ACCEPT_ENCODING, AChars (Text 0) []),
      (CURLOPT_TRANSFER_ENCODING, ALong 1), (CURLOPT_VERBOSE, ALong 1)]"

text \<open>The constructor leaves \<open>isPosting\<close> and \<open>m_StatusLine\<close> as the memory has them.\<close>

definition CcURL_new :: "'b platform_scheme \<Rightarrow> bool \<Rightarrow> int \<Rightarrow> 'a process_scheme \<Rightarrow> (CcURL \<times> 'a process_scheme) outcome option" where
  "CcURL_new P post0 status S =
     (let (h, S1) = curl_easy_init (new_handle P (links S)) S in
      bindO (Some (AssignCurlCache P h S1)) (\<lambda>S2.
      bindO (slist_append P None (bytes_of ''pragma:'') (S2\<lparr>isTrace := False\<rparr>)) (\<lambda>(hs, S3).
      let (m, S4) = curl_mime_init (new_mime P (mimes S3)) S3 in
      bindO (Some (setopts P h (default_options @ [(CURLOPT_FOLLOWLOCATION, ALong 1)]) S4)) (\<lambda>S5.
        Some (Inr (\<lparr>m_curl = h, m_mime = m, m_trace = False, PostFildsData = [], post_buffer = 0, m_StatusLine = status,
          isPosting = post0, isMultipart = False, pSrc = new_CCurlValue ttSrc, pDest = new_CCurlValue ttDest,
          pTrace = (new_CCurlValue ttTrace)\<lparr>Type := ttMsg\<rparr>, pCurlMime = \<lparr>p_curl = h, p_mime = m\<rparr>,
          headers = hs, recipients = None\<rparr>, S5))))))"

text \<open>The destructor; the MIME object was allocated by \<open>new\<close> and is released by \<open>delete[]\<close>.\<close>

definition CcURL_delete :: "CcURL \<Rightarrow> 'a process_scheme \<Rightarrow> 'a process_scheme outcome option" where
  "CcURL_delete c S =
     bindO (slist_free (headers c) S) (\<lambda>S1.
     bindO (slist_free (recipients c) S1) (\<lambda>S2.
     bindO (Some (curl_easy_cleanup (m_curl c) S2)) (\<lambda>S3. Some (Inl BadDelete))))"

subsection \<open>Options and lists\<close>

definition easy_init :: "CcURL \<Rightarrow> 'a process_scheme \<Rightarrow> script_result \<times> CcURL \<times> 'a process_scheme" where
  "easy_init c S = (Returns Nothing, c, S)"

definition easy_cleanup :: "'b platform_scheme \<Rightarrow> CcURL \<Rightarrow> 'a process_scheme \<Rightarrow> (script_result \<times> CcURL \<times> 'a process_scheme) outcome option" where
  "easy_cleanup P c S =
     bindO (slist_free (headers c) S) (\<lambda>S1.
     bindO (slist_free (recipients c) S1) (\<lambda>S2.
     let (h, S3) = curl_easy_init (new_handle P (links S2)) S2 in
     bindO (Some (setopts P h default_options S3)) (\<lambda>S4.
       Some (Inr (Returns Nothing, c\<lparr>headers := None, recipients := None, m_curl := h\<rparr>, S4)))))"

definition setopt_list ::
  "'b platform_scheme \<Rightarrow> CURLoption \<Rightarrow> nat option \<Rightarrow> bytes \<Rightarrow> CcURL \<Rightarrow> 'a process_scheme \<Rightarrow> (nat option \<times> 'a process_scheme) outcome option" where
  "setopt_list P i list text c S =
     bindO (slist_append P list text S) (\<lambda>(p, S1).
     bindO (Some (setopts P (m_curl c) [(i, ASlist p)] S1)) (\<lambda>S2. Some (Inr (p, S2))))"

definition easy_setopt :: "'b platform_scheme \<Rightarrow> cvalue \<Rightarrow> cvalue \<Rightarrow> CcURL \<Rightarrow> 'a process_scheme \<Rightarrow> (script_result \<times> CcURL \<times> 'a process_scheme) outcome option" where
  "easy_setopt P p0 p1 c S =
     (let optvalue = str_value p1; intvalue = num_value p1 in
      case curl_options_from_string (str_value p0) of
        Inl (RuntimeError _) \<Rightarrow> Some (Inr (Raises Unknown_option, c, S))
      | Inl f \<Rightarrow> Some (Inl f)
      | Inr option \<Rightarrow>
          if option = CURLOPT_HTTPHEADER
          then bindO (setopt_list P CURLOPT_HTTPHEADER (headers c) optvalue c S)
                 (\<lambda>(p, S1). Some (Inr (Returns Nothing, c\<lparr>headers := p\<rparr>, S1)))
          else if option = CURLOPT_POSTFIELDS
          then let c1 = c\<lparr>pSrc := (pSrc c)\<lparr>Data := c_str optvalue\<rparr>\<rparr> in
               bindO (Some (setopts P (m_curl c)
                 [(CURLOPT_POSTFIELDS, AChars Script_text optvalue), (CURLOPT_POSTFIELDSIZE, ALong (int (strlen (Data (pSrc c1)))))] S))
                 (\<lambda>S1. Some (Inr (Returns Nothing, c1, S1)))
          else if option = CURLOPT_MAIL_RCPT
          then bindO (setopt_list P CURLOPT_MAIL_RCPT (recipients c) optvalue c S)
                 (\<lambda>(p, S1). Some (Inr (Returns Nothing, c\<lparr>recipients := p, isPosting := True\<rparr>, S1)))
          else bindO (Some (setopts P (m_curl c)
                 (if type_code p1 = 1 then [(option, ALong intvalue)]
                  else if type_code p1 = 2 then [(option, AChars Script_text optvalue)] else []) S))
                 (\<lambda>S1. Some (Inr (Returns Nothing, c, S1))))"

text \<open>The rows of the table of headers: the loop moves to the next node before it takes a text.\<close>

partial_function (option) header_rows :: "slist_heap \<Rightarrow> nat \<Rightarrow> bytes list \<Rightarrow> bytes list outcome option" where
  "header_rows l item rows =
     (case l item of
        None \<Rightarrow> Some (Inl UseAfterFree)
      | Some n \<Rightarrow>
          (case sl_next n of
             None \<Rightarrow> Some (Inr rows)
           | Some q \<Rightarrow>
               (case l q of
                  None \<Rightarrow> Some (Inl UseAfterFree)
                | Some n1 \<Rightarrow> header_rows l q (rows @ [c_str (sl_data n1)]))))"

definition GetHeaders :: "CcURL \<Rightarrow> 'a process_scheme \<Rightarrow> script_result outcome option" where
  "GetHeaders c S =
     (case headers c of
        None \<Rightarrow> Some (Inr Fails)
      | Some item \<Rightarrow> bindO (header_rows (lists S) item []) (\<lambda>rows. Some (Inr (Returns (Strings rows)))))"

subsection \<open>Switches and small methods\<close>

definition Debug :: "'b platform_scheme \<Rightarrow> cvalue \<Rightarrow> CcURL \<Rightarrow> 'a process_scheme \<Rightarrow> (script_result \<times> CcURL \<times> 'a process_scheme) outcome" where
  "Debug P p0 c S =
     (if num_value p0 = 1
      then bindE (setopts P (m_curl c) [(CURLOPT_DEBUGFUNCTION, AFun Cb_my_trace), (CURLOPT_VERBOSE, ALong 1)] S)
             (\<lambda>S1. Inr (Returns Nothing, c\<lparr>m_trace := True\<rparr>, S1))
      else if num_value p0 = 0
      then bindE (setopts P (m_curl c) [(CURLOPT_DEBUGFUNCTION, AFun Cb_null), (CURLOPT_VERBOSE, ALong 0)] S)
             (\<lambda>S1. Inr (Returns Nothing, c\<lparr>m_trace := False\<rparr>, S1))
      else Inr (Returns Nothing, c, S))"

definition Trace :: "cvalue \<Rightarrow> 'a process_scheme \<Rightarrow> script_result \<times> 'a process_scheme" where
  "Trace p0 S = (Returns Nothing, S\<lparr>isTrace := num_value p0 \<noteq> 0\<rparr>)"

definition StatusLine :: "cvalue \<Rightarrow> CcURL \<Rightarrow> script_result \<times> CcURL" where
  "StatusLine p0 c =
     (Returns Nothing,
      if num_value p0 = 1 then c\<lparr>m_StatusLine := 1\<rparr> else if num_value p0 = 0 then c\<lparr>m_StatusLine := 0\<rparr> else c)"

definition Version :: script_result where
  "Version = Returns (Number 16)"

text \<open>The versions that libcurl reports; a missing one is printed by the runtime as \<open>(null)\<close>.\<close>

definition ComponentsVersion :: "bytes option \<Rightarrow> bytes option \<Rightarrow> bytes option \<Rightarrow> bytes option \<Rightarrow> bytes option \<Rightarrow> script_result" where
  "ComponentsVersion version ssl libz brotli zstd =
     (let s = (\<lambda>v. case v of None \<Rightarrow> bytes_of ''(null)'' | Some t \<Rightarrow> t) in
      Returns (Chars (bytes_of ''curl '' @ s version @ bytes_of '', ssl '' @ s ssl @ bytes_of '', libz '' @ s libz @
        bytes_of '', brotli '' @ s brotli @ bytes_of '', zstd '' @ s zstd)))"

definition mime_init :: "CcURL \<Rightarrow> script_result \<times> CcURL" where
  "mime_init c = (Returns Mime_object, c\<lparr>isMultipart := True\<rparr>)"

definition free_all :: script_result where
  "free_all = Returns Nothing"

definition Source :: script_result where
  "Source = Returns Source_object"

definition Dest :: script_result where
  "Dest = Returns Dest_object"

text \<open>Statistics: \<open>info\<close> is what \<open>curl_easy_getinfo\<close> reports, of which the cast to \<open>long\<close> keeps 32 bits.\<close>

definition to_long :: "int \<Rightarrow> int" where
  "to_long n = sint (word_of_int n :: 32 word)"

definition AddStatisticLine :: "(string \<Rightarrow> int) \<Rightarrow> string \<Rightarrow> (string \<times> int) list \<Rightarrow> (string \<times> int) list" where
  "AddStatisticLine info text rows = rows @ [(text, to_long (info text))]"

definition GetStatistics :: "(string \<Rightarrow> int) \<Rightarrow> script_result" where
  "GetStatistics info =
     Returns (Numbers (fold (AddStatisticLine info)
       [''TOTAL_TIME'', ''NAMELOOKUP_TIME'', ''CONNECT_TIME'', ''PRETRANSFER_TIME'', ''STARTTRANSFER_TIME'',
        ''REDIRECT_TIME'', ''REDIRECT_COUNT'', ''SIZE_UPLOAD'', ''SPEED_UPLOAD'', ''SIZE_DOWNLOAD'',
        ''SPEED_DOWNLOAD'', ''HEADER_SIZE'', ''REQUEST_SIZE'', ''CONTENT_LENGTH_DOWNLOAD'',
        ''CONTENT_LENGTH_UPLOAD''] []))"

subsection \<open>Parts of a multipart request\<close>

definition part_file :: "'b platform_scheme \<Rightarrow> bytes \<Rightarrow> mimepart option \<Rightarrow> mimepart option" where
  "part_file P file part =
     (if file = [] then part
      else snd (curl_mime_filedata (stat_file P) (base_name P) (alloc P (length file + 1))
             (snd (curl_mime_filename (alloc P (length file + 1)) part (Some file))) (Some file)))"

definition AddPart :: "'b platform_scheme \<Rightarrow> cvalue \<Rightarrow> cvalue \<Rightarrow> cvalue \<Rightarrow> cvalue \<Rightarrow> CCurlMime \<Rightarrow> 'a libcurl_scheme \<Rightarrow> (script_result \<times> 'a libcurl_scheme) outcome" where
  "AddPart P p0 p1 p2 p3 m S =
     bindE (curl_mime_addpart (alloc P 128) (p_mime m) S) (\<lambda>(part, S1).
     let name = c_str (str_value p0); file = c_str (str_value p1); type = c_str (str_value p2); text = c_str (str_value p3);
         part1 = (if name = [] then part else snd (curl_mime_name (alloc P (length name + 1)) part (Some name)));
         part2 = part_file P file part1;
         part3 = (if type = [] then part2 else snd (curl_mime_type (alloc P (length type + 1)) part2 (Some type))) in
     bindE (if text = [] then Inr part3
            else bindE (curl_mime_data (alloc P (length text + 1)) part3 (Some text) None) (\<lambda>(_, p). Inr p)) (\<lambda>part4.
     bindE (case (p_mime m, part4) of (Some a, Some p) \<Rightarrow> set_last_part a p S1 | _ \<Rightarrow> Inr S1)
       (\<lambda>S2. Inr (Returns Nothing, S2))))"

end
