(* ===== verification/Component_Facts.thy ===== *)
theory Component_Facts
imports Component
begin

text \<open>
  Facts about the operations of the component that its properties share: sequences of options,
  steps that leave the lists and handles of all objects as they are, and the renewal of the
  cache.
\<close>

section \<open>Setting options\<close>

named_theorems opts \<open>effects of the options that the component sets\<close>

lemma setopt_effects [opts]:
  "setopt_arg all oth CURLOPT_VERBOSE (ALong n) s = Inr (CURLE_OK, s\<lparr>verbose := n \<noteq> 0\<rparr>)"
  "setopt_arg all oth CURLOPT_NOPROGRESS (ALong n) s = Inr (CURLE_OK, s\<lparr>hide_progress := n \<noteq> 0\<rparr>)"
  "setopt_arg all oth CURLOPT_SSL_VERIFYPEER (ALong n) s = Inr (CURLE_OK, s\<lparr>verifypeer := n \<noteq> 0\<rparr>)"
  "setopt_arg all oth CURLOPT_SSL_VERIFYHOST (ALong n) s = Inr (CURLE_OK, s\<lparr>verifyhost := n mod 4 \<noteq> 0\<rparr>)"
  "setopt_arg all oth CURLOPT_TRANSFER_ENCODING (ALong n) s = Inr (CURLE_OK, s\<lparr>http_transfer_encoding := n \<noteq> 0\<rparr>)"
  "setopt_arg all oth CURLOPT_FOLLOWLOCATION (ALong n) s = Inr (CURLE_OK, s\<lparr>http_follow_location := n \<noteq> 0\<rparr>)"
  "setopt_arg all oth CURLOPT_UPLOAD (ALong 1) s = Inr (CURLE_OK, s\<lparr>set_method := HTTPREQ_PUT, opt_no_body := False\<rparr>)"
  "setopt_arg all oth CURLOPT_POSTFIELDSIZE (ALong n) s = Inr (setopt_POSTFIELDSIZE n s)"
  "0 \<le> m \<Longrightarrow> setopt_arg all oth CURLOPT_INFILESIZE_LARGE (AOff m) s = Inr (CURLE_OK, s\<lparr>filesize := m\<rparr>)"
  by (simp_all add: setopt_arg_def modelled_options_def setopt_long_def setopt_off_def)

lemma setopt_pointer_effects [opts]:
  "setopt_arg all oth CURLOPT_WRITEDATA (APtr p) s = Inr (CURLE_OK, s\<lparr>set_out := p\<rparr>)"
  "setopt_arg all oth CURLOPT_READDATA (APtr p) s = Inr (CURLE_OK, s\<lparr>in_set := p\<rparr>)"
  "setopt_arg all oth CURLOPT_XFERINFODATA (APtr p) s = Inr (CURLE_OK, s\<lparr>progress_client := p\<rparr>)"
  "setopt_arg all oth CURLOPT_XFERINFOFUNCTION (AFun g) s = Inr (CURLE_OK, s\<lparr>fxferinfo := g\<rparr>)"
  "setopt_arg all oth CURLOPT_DEBUGFUNCTION (AFun g) s = Inr (CURLE_OK, s\<lparr>fdebug := g\<rparr>)"
  "g \<noteq> Cb_null \<Longrightarrow> setopt_arg all oth CURLOPT_WRITEFUNCTION (AFun g) s = Inr (CURLE_OK, s\<lparr>fwrite_func := g\<rparr>)"
  "g \<noteq> Cb_null \<Longrightarrow> setopt_arg all oth CURLOPT_READFUNCTION (AFun g) s = Inr (CURLE_OK, s\<lparr>fread_func_set := g, is_fread_set := True\<rparr>)"
  "setopt_arg all oth CURLOPT_POSTFIELDS (AChars p t) s = Inr (CURLE_OK, s\<lparr>postfields := p, copypostfields := None, set_method := HTTPREQ_POST\<rparr>)"
  "setopt_arg all oth CURLOPT_HTTPHEADER (ASlist q) s = Inr (CURLE_OK, s\<lparr>set_headers := q\<rparr>)"
  "setopt_arg all oth CURLOPT_MAIL_RCPT (ASlist q) s = Inr (CURLE_OK, s\<lparr>mail_rcpt := q\<rparr>)"
  "setopt_arg all oth CURLOPT_ACCEPT_ENCODING (AChars (Text k) []) s =
     Inr (fst (Curl_setstropt (Some all)), s\<lparr>encoding := snd (Curl_setstropt (Some all))\<rparr>)"
  by (simp_all add: setopt_arg_def modelled_options_def setopt_ptr_def setopt_function_def setopt_chars_def setopt_slist_def case_prod_beta' Let_def)

text \<open>The effect of options that concern the handle only, on the options of the handle.\<close>

fun plain_opts :: "'b build_scheme \<Rightarrow> (CURLoption \<times> opt_arg) list \<Rightarrow> UserDefined \<Rightarrow> UserDefined option" where
  "plain_opts P [] s = Some s"
| "plain_opts P ((i, a) # os) s =
     (case option_type i of
        None \<Rightarrow> plain_opts P os s
      | Some t \<Rightarrow>
          if arg_fits i t a \<and> \<not> is_share a \<and> \<not> is_mime a
          then (case setopt_arg (all_encodings P) (others P) i a s of
                  Inl _ \<Rightarrow> None
                | Inr (_, s1) \<Rightarrow> plain_opts P os s1)
          else None)"

lemma setopts_append: "setopts P h (xs @ ys) S = bindE (setopts P h xs S) (setopts P h ys)"
  by (induction xs arbitrary: S) (auto simp: bindE_assoc case_prod_beta')

lemma setopts_None: "setopts P None os S = Inr S"
  by (induction os) (auto simp: curl_easy_setopt_def)

lemma sets_twice [simp]:
  "(S\<lparr>sets := (sets S)(h \<mapsto> s1)\<rparr>)\<lparr>sets := (sets (S\<lparr>sets := (sets S)(h \<mapsto> s1)\<rparr>))(h \<mapsto> s2)\<rparr> = S\<lparr>sets := (sets S)(h \<mapsto> s2)\<rparr>"
  by (rule libcurl.equality) simp_all

lemma setopts_plain:
  assumes "lib_ok S" "sets S h = Some s" "plain_opts P os s = Some s'"
  shows "setopts P (Some h) os S = Inr (S\<lparr>sets := (sets S)(h \<mapsto> s')\<rparr>) \<and> lib_ok (S\<lparr>sets := (sets S)(h \<mapsto> s')\<rparr>)"
  using assms
proof (induction os arbitrary: S s)
  case Nil
  then show ?case by (simp add: fun_upd_idem)
next
  case (Cons o1 os)
  obtain i a where o1: "o1 = (i, a)" by (cases o1)
  show ?case
  proof (cases "option_type i")
    case None
    obtain e where "links S h = Some e" using lib_okD(6) [OF Cons.prems(1,2)] by blast
    then have "curl_easy_setopt P (Some h) i a S = Inr (CURLE_UNKNOWN_OPTION, S)"
      using None Cons.prems(2) by (simp add: curl_easy_setopt_def Curl_vsetopt_def)
    with Cons None o1 show ?thesis by simp
  next
    case (Some t)
    with Cons.prems(3) o1 obtain res s1 where 1: "arg_fits i t a" "\<not> is_share a" "\<not> is_mime a"
      "setopt_arg (all_encodings P) (others P) i a s = Inr (res, s1)" "plain_opts P os s1 = Some s'"
      by (auto split: if_splits sum.splits)
    note set1 = setopt_plain [OF Cons.prems(1,2) Some 1(1-4)]
    have "sets (S\<lparr>sets := (sets S)(h \<mapsto> s1)\<rparr>) h = Some s1" by simp
    from Cons.IH [OF set1(2) this 1(5)] set1(1) o1 show ?thesis
      by (simp only: setopts.simps bindE_simps prod.case sets_twice)
  qed
qed

section \<open>What the lists of an object depend on\<close>

text \<open>A step is quiet when it changes nothing that the lists of strings and the handles of the objects depend on.\<close>

definition quiet :: "'a process_scheme \<Rightarrow> 'a process_scheme \<Rightarrow> bool" where
  "quiet S S' \<longleftrightarrow> lib_ok S' \<and> dom (mimes S) \<subseteq> dom (mimes S') \<and> dom (shares S) \<subseteq> dom (shares S') \<and>
     (\<forall>k. map_option set_headers (sets S' k) = map_option set_headers (sets S k)) \<and>
     (\<forall>k. map_option mail_rcpt (sets S' k) = map_option mail_rcpt (sets S k)) \<and>
     lists S' = lists S \<and> CurlShare S' = CurlShare S"

lemma quiet_refl: "lib_ok S \<Longrightarrow> quiet S S"
  by (simp add: quiet_def)

lemma quiet_trans: "quiet S S1 \<Longrightarrow> quiet S1 S2 \<Longrightarrow> quiet S S2"
  unfolding quiet_def by (elim conjE, intro conjI) (blast | simp)+

lemma quiet_lib_ok: "quiet S S' \<Longrightarrow> lib_ok S'"
  by (simp add: quiet_def)

lemma process_more:
  fixes S S' :: "'a process_scheme"
  assumes "libcurl.more S' = libcurl.more S"
  shows "lists S' = lists S" "CurlShare S' = CurlShare S"
proof -
  show "lists S' = lists S" using assms by (cases S; cases S') simp
  show "CurlShare S' = CurlShare S" using assms by (cases S; cases S') simp
qed

lemma lists_setopt_arg:
  assumes "setopt_arg all oth i a s = Inr (res, s')"
  shows "i \<noteq> CURLOPT_HTTPHEADER \<Longrightarrow> set_headers s' = set_headers s" "i \<noteq> CURLOPT_MAIL_RCPT \<Longrightarrow> mail_rcpt s' = mail_rcpt s"
proof -
  have pf: "set_headers (snd (setopt_POSTFIELDSIZE n s)) = set_headers s" "mail_rcpt (snd (setopt_POSTFIELDSIZE n s)) = mail_rcpt s" for n
    by (simp_all add: setopt_POSTFIELDSIZE_def Let_def)
  have "set_headers (snd (setopt_long i n s)) = set_headers s" "mail_rcpt (snd (setopt_long i n s)) = mail_rcpt s"
    "set_headers (snd (setopt_off i n s)) = set_headers s" "mail_rcpt (snd (setopt_off i n s)) = mail_rcpt s" for n
    by (simp_all add: setopt_long_def setopt_off_def pf)
  then have num: "setopt_long i n s = (r, s'') \<Longrightarrow> set_headers s'' = set_headers s \<and> mail_rcpt s'' = mail_rcpt s"
    "setopt_off i n s = (r, s'') \<Longrightarrow> set_headers s'' = set_headers s \<and> mail_rcpt s'' = mail_rcpt s" for n r s''
    by (metis snd_conv)+
  have chars: "set_headers s'' = set_headers s \<and> mail_rcpt s'' = mail_rcpt s" if "setopt_chars all i p cs s = Inr (res, s'')" for p cs s''
    using that by (auto simp: setopt_chars_def setopt_COPYPOSTFIELDS_def bindE_Inr_iff Let_def split: if_splits prod.splits)
  show "i \<noteq> CURLOPT_HTTPHEADER \<Longrightarrow> set_headers s' = set_headers s"
    using assms num chars by (cases a) (auto simp: setopt_arg_def setopt_slist_def setopt_ptr_def setopt_function_def split: if_splits)
  show "i \<noteq> CURLOPT_MAIL_RCPT \<Longrightarrow> mail_rcpt s' = mail_rcpt s"
    using assms num chars by (cases a) (auto simp: setopt_arg_def setopt_slist_def setopt_ptr_def setopt_function_def split: if_splits)
qed

lemma dom_setopt_SHARE:
  assumes "shares_ok sh E" "E h = Some e" "setopt_SHARE lp sh e p = Inr (sh', e')"
  shows "dom sh' = dom sh"
proof -
  from disconnect_ok [OF assms(1,2)] obtain sh1 e1 where 1: "disconnect sh e = Inr (sh1, e1)" "dom sh1 = dom sh" by blast
  have "dom sh2 = dom sh1" if "connect lp sh1 e1 a = Inr (sh2, e2)" for a sh2 e2
    using that by (auto simp: connect_def count_users_def Let_def bindE_Inr_iff split: option.splits if_splits)
  with 1 assms(3) show ?thesis by (auto simp: setopt_SHARE_def split: option.splits if_splits)
qed

lemma quietI_sets:
  assumes "lib_ok S'" "sets S h = Some s" "sets S' = (sets S)(h \<mapsto> s')" "set_headers s' = set_headers s" "mail_rcpt s' = mail_rcpt s"
    "dom (mimes S') = dom (mimes S)" "dom (shares S') = dom (shares S)" "libcurl.more S' = libcurl.more S"
  shows "quiet S S'"
  unfolding quiet_def using assms process_more [OF assms(8)] by simp

lemma setopt_quiet:
  assumes "lib_ok S" "curl_easy_setopt P h i a S = Inr (res, S')" "i \<noteq> CURLOPT_HTTPHEADER" "i \<noteq> CURLOPT_MAIL_RCPT"
    "\<forall>m. a = AMime (Some m) \<longrightarrow> mimes S m \<noteq> None"
  shows "quiet S S'"
proof (cases h)
  case None
  with assms show ?thesis by (simp add: curl_easy_setopt_def quiet_refl)
next
  case (Some k)
  with assms(2) obtain s e where se: "sets S k = Some s" "links S k = Some e"
    by (auto simp: curl_easy_setopt_def Curl_vsetopt_def split: option.splits)
  show ?thesis
  proof (cases "option_type i")
    case None
    with assms Some se show ?thesis by (simp add: curl_easy_setopt_def Curl_vsetopt_def quiet_refl)
  next
    case t: (Some t)
    have fits: "arg_fits i t a" using assms(2) Some se t by (auto simp: curl_easy_setopt_def Curl_vsetopt_def split: if_splits)
    consider (share) p where "a = AShare p" | (mime) m where "a = AMime m" | (plain) "\<not> is_share a" "\<not> is_mime a" by (cases a) auto
    then show ?thesis
    proof cases
      case share
      then obtain sh e' where 1: "setopt_SHARE (libpsl P) (shares S) e p = Inr (sh, e')" "S' = S\<lparr>shares := sh, links := (links S)(k \<mapsto> e')\<rparr>"
        using assms(2) Some se t fits by (auto simp: curl_easy_setopt_def Curl_vsetopt_def bindE_Inr_iff)
      have "shares_ok sh ((links S)(k \<mapsto> e'))" by (rule use_share_ok [OF lib_okD(1) [OF assms(1)] se(2) 1(1)])
      then have ok: "lib_ok S'" using assms(1) se 1(2) by (auto simp: lib_ok_def bound_def posting_def)
      have "dom sh = dom (shares S)" by (rule dom_setopt_SHARE [OF lib_okD(1) [OF assms(1)] se(2) 1(1)])
      with 1(2) se(1) show ?thesis by (intro quietI_sets [OF ok se(1), of s]) auto
    next
      case mime
      then have i: "i = CURLOPT_MIMEPOST" using fits by (cases t) (auto split: if_splits)
      have "\<forall>b. m = Some b \<longrightarrow> mimes S b \<noteq> None" using assms(5) mime by auto
      from setopt_mime [OF assms(1) se(1) this, of P] assms(2) Some i mime obtain s' where
        "lib_ok S'" "sets S' = (sets S)(k \<mapsto> s')" "set_headers s' = set_headers s" "mail_rcpt s' = mail_rcpt s"
        "dom (mimes S') = dom (mimes S)" "shares S' = shares S" "libcurl.more S' = libcurl.more S" by auto
      then show ?thesis by (intro quietI_sets [OF _ se(1), of S' s']) auto
    next
      case plain
      then obtain s' where 1: "setopt_arg (all_encodings P) (others P) i a s = Inr (res, s')" "S' = S\<lparr>sets := (sets S)(k \<mapsto> s')\<rparr>"
        using assms(2) Some se t fits by (cases a) (auto simp: curl_easy_setopt_def Curl_vsetopt_def bindE_Inr_iff)
      have ok: "lib_ok S'" using setopt_plain(2) [OF assms(1) se(1) t fits plain 1(1)] 1(2) by simp
      show ?thesis using 1 lists_setopt_arg [OF 1(1)] assms(3,4) by (intro quietI_sets [OF ok se(1), of s']) auto
    qed
  qed
qed

lemma setopts_quiet:
  assumes "lib_ok S" "setopts P h os S = Inr S'"
    "\<forall>(i, a) \<in> set os. i \<noteq> CURLOPT_HTTPHEADER \<and> i \<noteq> CURLOPT_MAIL_RCPT \<and> (\<forall>m. a = AMime (Some m) \<longrightarrow> mimes S m \<noteq> None)"
  shows "quiet S S'"
  using assms
proof (induction os arbitrary: S)
  case Nil
  then show ?case by (simp add: quiet_refl)
next
  case (Cons o1 os)
  obtain i a where o1: "o1 = (i, a)" by (cases o1)
  with Cons.prems(2) obtain res S1 where 1: "curl_easy_setopt P h i a S = Inr (res, S1)" "setopts P h os S1 = Inr S'"
    by (auto simp: bindE_Inr_iff)
  have q: "quiet S S1" using Cons.prems(3) o1 by (intro setopt_quiet [OF Cons.prems(1) 1(1)]) auto
  then have live: "mimes S m \<noteq> None \<Longrightarrow> mimes S1 m \<noteq> None" for m by (auto simp: quiet_def)
  have "quiet S1 S'" using Cons.prems(3) live by (intro Cons.IH [OF quiet_lib_ok [OF q] 1(2)]) fastforce
  with q show ?case by (rule quiet_trans)
qed

section \<open>The cache\<close>

definition live_share :: "'a process_scheme \<Rightarrow> bool" where
  "live_share S \<longleftrightarrow> (\<forall>a. CurlShare S = Some a \<longrightarrow> shares S a \<noteq> None)"

lemma share_setopts_ok:
  assumes "lib_ok S" "\<forall>a. p = Some a \<longrightarrow> shares S a \<noteq> None"
  shows "\<exists>sh. share_setopts P p os S = Inr (S\<lparr>shares := sh\<rparr>) \<and> lib_ok (S\<lparr>shares := sh\<rparr>) \<and> dom sh = dom (shares S)"
  using assms
proof (induction os arbitrary: S)
  case Nil
  then show ?case by (intro exI [of _ "shares S"]) simp
next
  case (Cons opt os)
  obtain res sh where 1: "curl_share_setopt (avail P) (libpsl P) (shares S) p opt = Inr (res, sh)" "dom sh = dom (shares S)"
    using Cons.prems(2) by (cases p) (fastforce simp: curl_share_setopt_def split: prod.splits option.splits)+
  then have "shares_ok sh (links S)" using share_setopt_ok [OF lib_okD(1) [OF Cons.prems(1)]] by blast
  then have "lib_ok (S\<lparr>shares := sh\<rparr>)" using Cons.prems(1) by (simp add: lib_ok_def bound_def posting_def)
  from Cons.IH [OF this] Cons.prems(2) 1(2) obtain sh' where
    "share_setopts P p os (S\<lparr>shares := sh\<rparr>) = Inr (S\<lparr>shares := sh'\<rparr>)" "lib_ok (S\<lparr>shares := sh'\<rparr>)" "dom sh' = dom sh"
    by (auto simp: domIff set_eq_iff)
  with 1 show ?case by auto
qed

lemma init_share_ok:
  assumes "lib_ok S" "\<forall>sh a. new_share P sh = Some a \<longrightarrow> sh a = None"
  shows "\<exists>p sh. init_share P S = (p, S\<lparr>shares := sh\<rparr>) \<and> lib_ok (S\<lparr>shares := sh\<rparr>) \<and> (\<forall>a. p = Some a \<longrightarrow> sh a \<noteq> None) \<and>
    dom (shares S) \<subseteq> dom sh"
proof (cases "new_share P (shares S)")
  case None
  with assms(1) show ?thesis by (intro exI [of _ None] exI [of _ "shares S"]) (simp add: init_share_def)
next
  case (Some a)
  with assms(2) have "shares S a = None" by blast
  from share_init_ok [OF lib_okD(1) [OF assms(1)] this]
  have "lib_ok (S\<lparr>shares := (shares S)(a \<mapsto> curl_share_init)\<rparr>)" using assms(1) by (simp add: lib_ok_def bound_def posting_def)
  with Some show ?thesis
    by (intro exI [of _ "Some a"] exI [of _ "(shares S)(a \<mapsto> curl_share_init)"]) (auto simp: init_share_def)
qed

lemma renew_share_ok:
  fixes S :: "'a process_scheme"
  assumes "lib_ok S" "live_share S" "\<forall>sh a. new_share P sh = Some a \<longrightarrow> sh a = None"
  shows "\<exists>p sh. renew_share P S = Inr (S\<lparr>shares := sh, CurlShare := p\<rparr>) \<and> lib_ok (S\<lparr>shares := sh, CurlShare := p\<rparr>) \<and>
    (\<forall>a. p = Some a \<longrightarrow> sh a \<noteq> None)"
proof -
  obtain res sh log where c: "curl_share_cleanup (shares S) (CurlShare S) = Inr (res, sh, log)"
    using assms(2) by (cases "CurlShare S") (fastforce simp: curl_share_cleanup_def live_share_def Let_def split: option.splits)+
  then have "shares_ok sh (links S)" using share_cleanup_ok [OF lib_okD(1) [OF assms(1)]] by blast
  then have "lib_ok (S\<lparr>shares := sh\<rparr>)" using assms(1) by (simp add: lib_ok_def bound_def posting_def)
  from init_share_ok [OF this assms(3)] obtain p sh1 where
    1: "init_share P (S\<lparr>shares := sh\<rparr>) = (p, S\<lparr>shares := sh1\<rparr>)" "lib_ok (S\<lparr>shares := sh1\<rparr>)" "\<forall>a. p = Some a \<longrightarrow> sh1 a \<noteq> None" by auto
  have "lib_ok (S\<lparr>shares := sh1, CurlShare := p\<rparr>)" using 1(2) by (simp add: lib_ok_def bound_def posting_def)
  with 1 c show ?thesis by (auto simp: renew_share_def)
qed

lemma AssignCurlCache_ok:
  fixes S :: "'a process_scheme"
  assumes "lib_ok S" "live_share S" "\<forall>k. h = Some k \<longrightarrow> sets S k \<noteq> None" "\<forall>sh a. new_share P sh = Some a \<longrightarrow> sh a = None"
  shows "\<exists>S'. AssignCurlCache P h S = Inr S' \<and> lib_ok S' \<and> live_share S' \<and> sets S' = sets S \<and> mimes S' = mimes S \<and> lists S' = lists S"
proof -
  obtain p sh where 1: "(if bNeedInitCache S then renew_share P S else Inr S) = Inr (S\<lparr>shares := sh, CurlShare := p\<rparr>)"
    "lib_ok (S\<lparr>shares := sh, CurlShare := p\<rparr>)" "\<forall>a. p = Some a \<longrightarrow> sh a \<noteq> None"
  proof (cases "bNeedInitCache S")
    case True
    with renew_share_ok [OF assms(1,2,4)] that show ?thesis by auto
  next
    case False
    with assms(1,2) that [of "CurlShare S" "shares S"] show ?thesis by (simp add: live_share_def)
  qed
  let ?S1 = "S\<lparr>shares := sh, CurlShare := p\<rparr>"
  from share_setopts_ok [OF 1(2), of p P "cache_options ?S1"] 1(3) obtain sh2 where
    2: "share_setopts P p (cache_options ?S1) ?S1 = Inr (?S1\<lparr>shares := sh2\<rparr>)" "lib_ok (?S1\<lparr>shares := sh2\<rparr>)" "dom sh2 = dom sh" by auto
  let ?S2 = "?S1\<lparr>shares := sh2\<rparr>"
  have live: "\<forall>a. p = Some a \<longrightarrow> shares ?S2 a \<noteq> None" using 1(3) 2(3) by (auto simp: domIff set_eq_iff)
  show ?thesis
  proof (cases h)
    case None
    with 1 2 live show ?thesis by (auto simp: AssignCurlCache_def curl_easy_setopt_def live_share_def lib_ok_def bound_def posting_def)
  next
    case (Some k)
    then obtain s where s: "sets ?S2 k = Some s" using assms(3) by auto
    from lib_okD(6) [OF 2(2) s] obtain e where e: "links ?S2 k = Some e" by blast
    from setopt_share [OF 2(2) s e live, of P] obtain sh3 e' where
      3: "curl_easy_setopt P (Some k) CURLOPT_SHARE (AShare p) ?S2 = Inr (CURLE_OK, ?S2\<lparr>shares := sh3, links := (links ?S2)(k \<mapsto> e')\<rparr>)"
      "setopt_SHARE (libpsl P) (shares ?S2) e p = Inr (sh3, e')" "lib_ok (?S2\<lparr>shares := sh3, links := (links ?S2)(k \<mapsto> e')\<rparr>)" by blast
    have "dom sh3 = dom (shares ?S2)" by (rule dom_setopt_SHARE [OF lib_okD(1) [OF 2(2)] e 3(2)])
    with live have "\<forall>a. p = Some a \<longrightarrow> sh3 a \<noteq> None" by (auto simp: domIff set_eq_iff)
    with 1(1) 2(1) 3(1,3) Some show ?thesis
      by (auto simp: AssignCurlCache_def live_share_def lib_ok_def bound_def posting_def)
  qed
qed

end
