(* ===== verification/Perform.thy ===== *)
theory Perform
imports Component_Facts
begin

text \<open>
  The method \<open>easy_perform\<close> of \<open>curl1c/Context.cpp\<close>: it sets the options for what is sent and
  for where the answer goes, lets libcurl do the transfer, closes the files and hands the
  answer to the script.

  The transfer itself is the network's: the answer is an argument, a result code of libcurl, a
  response code and the chunks that the write callback is called with, each with the memory
  that follows it. What the model says about the transfer is what libcurl reads through the
  pointers and callbacks of the handle to make the request, and what the write callback does
  with the chunks. Pointers to local variables carry the number of the call of
  \<open>easy_perform\<close>, streams are closed once, and the buffer of a string has a number of its own,
  so that a pointer which outlived its object is a fault when libcurl follows it.
\<close>

section \<open>The request\<close>

text \<open>The text that the read callback of this call would deliver, and the numbers of the call and of the post buffer.\<close>

record frame =
  call_no :: nat
  wt_text :: "bytes option"

datatype body = No_body | Body bytes | Parts "mimepart list"

text \<open>The text at the pointer \<open>postfields\<close>, as much of it as the size says.\<close>

definition post_text :: "'b platform_scheme \<Rightarrow> CcURL \<Rightarrow> UserDefined \<Rightarrow> bytes outcome" where
  "post_text P c s =
     (case postfields s of
        Null \<Rightarrow> Inl NullDeref
      | Text k \<Rightarrow> if k = post_buffer c then Inr (PostFildsData c) else Inl UseAfterFree
      | Script_text \<Rightarrow> script_text P
      | Copied \<Rightarrow> (case copypostfields s of None \<Rightarrow> Inl UseAfterFree | Some t \<Rightarrow> Inr t)
      | _ \<Rightarrow> Inl BadArgument)"

definition post_body :: "'b platform_scheme \<Rightarrow> CcURL \<Rightarrow> UserDefined \<Rightarrow> bytes outcome" where
  "post_body P c s =
     (if postfieldsize s = 0 then Inr []
      else bindE (post_text P c s) (\<lambda>t.
             let n = infilesize (int (strlen t)) s in
             if n > int (length t) + 1 then Inl OobRead else Inr (take (nat n) (t @ [0]))))"

text \<open>What libcurl reads through the read callback, up to a size that was set; with the size 0 it does not read.\<close>

definition upload_text :: "'b platform_scheme \<Rightarrow> frame \<Rightarrow> UserDefined \<Rightarrow> 'a process_scheme \<Rightarrow> bytes outcome" where
  "upload_text P f s S =
     (case (fread_func_set s, in_set s) of
        (_, Null) \<Rightarrow> Inl NullDeref
      | (Cb_fread, File n) \<Rightarrow>
          (case streams S n of
             None \<Rightarrow> Inl UseAfterFree
           | Some path \<Rightarrow> Inr (case disk S path of None \<Rightarrow> [] | Some t \<Rightarrow> t))
      | (Cb_fread, Stdin) \<Rightarrow> Inr (std_input P)
      | (Cb_read_callback, Local k) \<Rightarrow>
          if k \<noteq> call_no f then Inl UseAfterFree
          else (case wt_text f of None \<Rightarrow> Inl OobRead | Some t \<Rightarrow> Inr t)
      | _ \<Rightarrow> Inl BadArgument)"

definition upload_body :: "'b platform_scheme \<Rightarrow> frame \<Rightarrow> UserDefined \<Rightarrow> 'a process_scheme \<Rightarrow> bytes outcome" where
  "upload_body P f s S =
     (let n = infilesize 0 s in
      if n = 0 then Inr []
      else bindE (upload_text P f s S) (\<lambda>t. Inr (if n < 0 then t else take (nat n) t)))"

definition request_body :: "'b platform_scheme \<Rightarrow> frame \<Rightarrow> CcURL \<Rightarrow> UserDefined \<Rightarrow> 'a process_scheme \<Rightarrow> body outcome" where
  "request_body P f c s S =
     (case set_method s of
        HTTPREQ_POST \<Rightarrow>
          if postfields s \<noteq> Null then bindE (post_body P c s) (\<lambda>t. Inr (Body t))
          else bindE (upload_body P f s S) (\<lambda>t. Inr (Body t))
      | HTTPREQ_PUT \<Rightarrow> bindE (upload_body P f s S) (\<lambda>t. Inr (Body t))
      | HTTPREQ_POST_MIME \<Rightarrow>
          (case mimepost s of
             None \<Rightarrow> Inr (Parts [])
           | Some a \<Rightarrow> (case mimes S a of None \<Rightarrow> Inl UseAfterFree | Some m \<Rightarrow> Inr (Parts (mime_parts m))))
      | _ \<Rightarrow> Inr No_body)"

section \<open>The answer\<close>

record answer =
  a_res :: int
  a_code :: int
  a_chunks :: "(bytes \<times> bytes) list"

definition append_file :: "bytes \<Rightarrow> bytes \<Rightarrow> 'a process_scheme \<Rightarrow> 'a process_scheme" where
  "append_file path t S = S\<lparr>disk := (disk S)(path \<mapsto> (case disk S path of None \<Rightarrow> t | Some u \<Rightarrow> u @ t))\<rparr>"

text \<open>The calls of the write callback: what the string \<open>data\<close> of this call holds then, and the state.\<close>

definition deliver :: "frame \<Rightarrow> UserDefined \<Rightarrow> (bytes \<times> bytes) list \<Rightarrow> 'a process_scheme \<Rightarrow> (bytes \<times> 'a process_scheme) outcome" where
  "deliver f s chunks S =
     (if chunks = [] then Inr ([], S)
      else case (fwrite_func s, set_out s) of
             (_, Null) \<Rightarrow> Inl NullDeref
           | (Cb_curl_swrite, Local k) \<Rightarrow>
               if k \<noteq> call_no f then Inl UseAfterFree
               else bindE (swrite_calls chunks []) (\<lambda>t. Inr (t, S))
           | (Cb_curl_fwrite, File n) \<Rightarrow>
               (case streams S n of
                  None \<Rightarrow> Inl UseAfterFree
                | Some path \<Rightarrow> Inr ([], append_file path (concat (map fst chunks)) S))
           | (Cb_fwrite, File n) \<Rightarrow>
               (case streams S n of
                  None \<Rightarrow> Inl UseAfterFree
                | Some path \<Rightarrow> Inr ([], append_file path (concat (map fst chunks)) S))
           | (Cb_fwrite, Stdout) \<Rightarrow> Inr ([], S)
           | _ \<Rightarrow> Inl BadArgument)"

abbreviation CURLE_BAD_FUNCTION_ARGUMENT_code :: int where "CURLE_BAD_FUNCTION_ARGUMENT_code \<equiv> 43"

text \<open>\<open>curl_easy_perform\<close>: the request that is sent, the result code, the text in \<open>data\<close> and the state.\<close>

definition transfer ::
  "'b platform_scheme \<Rightarrow> frame \<Rightarrow> answer \<Rightarrow> CcURL \<Rightarrow> 'a process_scheme \<Rightarrow> (body \<times> int \<times> bytes \<times> 'a process_scheme) outcome" where
  "transfer P f ans c S =
     (case m_curl c of
        None \<Rightarrow> Inr (No_body, CURLE_BAD_FUNCTION_ARGUMENT_code, [], S)
      | Some h \<Rightarrow>
          (case sets S h of
             None \<Rightarrow> Inl UseAfterFree
           | Some s \<Rightarrow>
               bindE (request_body P f c s S) (\<lambda>body.
               bindE (deliver f s (a_chunks ans) S) (\<lambda>(t, S1). Inr (body, a_res ans, t, S1)))))"

section \<open>Files\<close>

definition fopen_rb :: "'b platform_scheme \<Rightarrow> bytes \<Rightarrow> 'a process_scheme \<Rightarrow> nat option \<times> 'a process_scheme" where
  "fopen_rb P path S =
     (case (disk S path, new_stream P (streams S)) of
        (Some _, Some n) \<Rightarrow> (Some n, S\<lparr>streams := (streams S)(n \<mapsto> path)\<rparr>)
      | _ \<Rightarrow> (None, S))"

definition fopen_wb :: "'b platform_scheme \<Rightarrow> bytes \<Rightarrow> 'a process_scheme \<Rightarrow> nat option \<times> 'a process_scheme" where
  "fopen_wb P path S =
     (case new_stream P (streams S) of
        Some n \<Rightarrow> if may_create P path
                  then (Some n, S\<lparr>streams := (streams S)(n \<mapsto> path), disk := (disk S)(path \<mapsto> [])\<rparr>) else (None, S)
      | None \<Rightarrow> (None, S))"

definition fclose :: "nat \<Rightarrow> 'a process_scheme \<Rightarrow> 'a process_scheme outcome" where
  "fclose n S = (if streams S n = None then Inl UseAfterFree else Inr (S\<lparr>streams := (streams S)(n := None)\<rparr>))"

definition fclose_if :: "nat option \<Rightarrow> 'a process_scheme \<Rightarrow> 'a process_scheme outcome" where
  "fclose_if p S = (case p of None \<Rightarrow> Inr S | Some n \<Rightarrow> fclose n S)"

section \<open>The method\<close>

text \<open>What is sent. An exception leaves the method and is the first result.\<close>

definition perform_source ::
  "'b platform_scheme \<Rightarrow> nat \<Rightarrow> CcURL \<Rightarrow> 'a process_scheme \<Rightarrow> (script_error option \<times> nat option \<times> frame \<times> CcURL \<times> 'a process_scheme) outcome" where
  "perform_source P n c S =
     (let f = \<lparr>call_no = n, wt_text = None\<rparr> in
      if isMultipart c
      then bindE (setopts P (m_curl c)
             [(CURLOPT_POSTFIELDS, AChars (Text (post_buffer c)) (PostFildsData c)),
              (CURLOPT_POSTFIELDSIZE, ALong (int (length (PostFildsData c)))),
              (CURLOPT_MIMEPOST, AMime (m_mime c)),
              (CURLOPT_WRITEDATA, APtr (Local n)), (CURLOPT_WRITEFUNCTION, AFun Cb_curl_swrite)] S)
             (\<lambda>S1. Inr (None, None, f, c, S1))
      else if Type (pSrc c) = ttVariable
      then if Data (pSrc c) = [] then Inr (None, None, f, c, S)
           else bindE (ANSItoUTF8 P (Data (pSrc c))) (\<lambda>t.
             let c1 = c\<lparr>PostFildsData := t, post_buffer := buffers S + 1\<rparr>; S1 = S\<lparr>buffers := buffers S + 1\<rparr> in
             if \<not> isPosting c
             then bindE (setopts P (m_curl c)
                    [(CURLOPT_POSTFIELDS, AChars (Text (post_buffer c1)) t), (CURLOPT_POSTFIELDSIZE, ALong (int (length t)))] S1)
                    (\<lambda>S2. Inr (None, None, f, c1, S2))
             else bindE (setopts P (m_curl c)
                    [(CURLOPT_READFUNCTION, AFun Cb_read_callback), (CURLOPT_READDATA, APtr (Local n)), (CURLOPT_UPLOAD, ALong 1)] S1)
                    (\<lambda>S2. Inr (None, None, f\<lparr>wt_text := Some t\<rparr>, c1, S2)))
      else if Type (pSrc c) = ttFile
      then let (fd, S1) = fopen_rb P (Data (pSrc c)) S in
           (case fd of
              None \<Rightarrow> Inr (Some Cannot_open, None, f, c, S1)
            | Some d \<Rightarrow>
                if \<not> fstat_works P then Inr (Some No_size, Some d, f, c, S1)
                else bindE (setopts P (m_curl c)
                       [(CURLOPT_UPLOAD, ALong 1), (CURLOPT_READDATA, APtr (File d)),
                        (CURLOPT_INFILESIZE_LARGE,
                          AOff (case disk S1 (Data (pSrc c)) of None \<Rightarrow> 0 | Some t \<Rightarrow> int (length t)))] S1)
                       (\<lambda>S2. Inr (None, Some d, f, c, S2)))
      else Inr (None, None, f, c, S))"

text \<open>Where the answer goes.\<close>

definition perform_dest ::
  "'b platform_scheme \<Rightarrow> nat \<Rightarrow> CcURL \<Rightarrow> 'a process_scheme \<Rightarrow> (script_error option \<times> nat option \<times> 'a process_scheme) outcome" where
  "perform_dest P n c S =
     (if Type (pDest c) = ttVariable
      then bindE (setopts P (m_curl c) [(CURLOPT_WRITEDATA, APtr (Local n)), (CURLOPT_WRITEFUNCTION, AFun Cb_curl_swrite)] S)
             (\<lambda>S1. Inr (None, None, S1))
      else if Type (pDest c) = ttFile
      then let (fp, S1) = fopen_wb P (Data (pDest c)) S in
           (case fp of
              None \<Rightarrow> Inr (Some Cannot_create, None, S1)
            | Some p \<Rightarrow>
                bindE (setopts P (m_curl c) [(CURLOPT_WRITEDATA, APtr (File p)), (CURLOPT_WRITEFUNCTION, AFun Cb_curl_fwrite)] S1)
                  (\<lambda>S2. Inr (None, Some p, S2)))
      else Inr (None, None, S))"

definition status_options :: "nat \<Rightarrow> CcURL \<Rightarrow> (CURLoption \<times> opt_arg) list" where
  "status_options n c =
     (if m_StatusLine c = 1
      then [(CURLOPT_XFERINFODATA, APtr (Local n)), (CURLOPT_XFERINFOFUNCTION, AFun Cb_progress_function), (CURLOPT_NOPROGRESS, ALong 0)]
      else [(CURLOPT_NOPROGRESS, ALong 1)]) @
     [(CURLOPT_SSL_VERIFYPEER, ALong 0), (CURLOPT_SSL_VERIFYHOST, ALong 0), (CURLOPT_VERBOSE, ALong 1)]"

text \<open>After the transfer: both files are closed, and the file of the answer once more when it succeeded.\<close>

definition perform_finish ::
  "'b platform_scheme \<Rightarrow> nat option \<Rightarrow> nat option \<Rightarrow> int \<Rightarrow> int \<Rightarrow> bytes \<Rightarrow> CcURL \<Rightarrow> 'a process_scheme \<Rightarrow>
   (script_result \<times> CcURL \<times> 'a process_scheme) outcome" where
  "perform_finish P fp fd res retcode data c S =
     bindE (fclose_if fp S) (\<lambda>S1.
     bindE (fclose_if fd S1) (\<lambda>S2.
     if res \<noteq> 0 then Inr (Raises (Not_received res retcode), c, S2)
     else if Type (pDest c) = ttVariable
     then bindE (UTF8toANSI P data) (\<lambda>t.
            Inr (Returns (Number retcode), c\<lparr>pDest := (pDest c)\<lparr>Data := t\<rparr>\<rparr>, S2))
     else if Type (pDest c) = ttFile
     then bindE (case fp of None \<Rightarrow> Inl NullDeref | Some p \<Rightarrow> fclose p S2) (\<lambda>S3. Inr (Returns (Number retcode), c, S3))
     else Inr (Returns (Number retcode), c, S2)))"

text \<open>The whole method, with the request that was sent as an additional result.\<close>

definition easy_perform ::
  "'b platform_scheme \<Rightarrow> answer \<Rightarrow> CcURL \<Rightarrow> 'a process_scheme \<Rightarrow> (body option \<times> script_result \<times> CcURL \<times> 'a process_scheme) outcome" where
  "easy_perform P ans c S =
     (let n = calls S + 1; c0 = c\<lparr>pTrace := (new_CCurlValue ttTrace)\<lparr>Type := ttMsg\<rparr>\<rparr> in
      bindE (perform_source P n c0 (S\<lparr>calls := n\<rparr>)) (\<lambda>(e, fd, f, c1, S1).
      case e of
        Some err \<Rightarrow> Inr (None, Raises err, c1, S1)
      | None \<Rightarrow>
          bindE (perform_dest P n c1 S1) (\<lambda>(e2, fp, S2).
          case e2 of
            Some err \<Rightarrow> Inr (None, Raises err, c1, S2)
          | None \<Rightarrow>
              bindE (setopts P (m_curl c1) (status_options n c1) S2) (\<lambda>S3.
              bindE (transfer P f ans c1 S3) (\<lambda>(body, res, data, S4).
              bindE (perform_finish P fp fd res (a_code ans) data c1 S4) (\<lambda>(r, c2, S5).
                Inr (Some body, r, c2, S5)))))))"

section \<open>The method leaves lists and handles as they are\<close>

lemma lib_ok_process [simp]:
  "lib_ok (S\<lparr>streams := x\<rparr>) = lib_ok S"
  "lib_ok (S\<lparr>disk := y\<rparr>) = lib_ok S"
  "lib_ok (S\<lparr>calls := n\<rparr>) = lib_ok S"
  "lib_ok (S\<lparr>buffers := n\<rparr>) = lib_ok S"
  "lib_ok (S\<lparr>encoded_to := t\<rparr>) = lib_ok S"
  "lib_ok (S\<lparr>encoded_from := t\<rparr>) = lib_ok S"
  "lib_ok (S\<lparr>isTrace := b\<rparr>) = lib_ok S"
  by (simp_all add: lib_ok_def bound_def posting_def)

lemma quiet_process [simp]:
  "quiet S (S'\<lparr>streams := x\<rparr>) = quiet S S'"
  "quiet S (S'\<lparr>disk := y\<rparr>) = quiet S S'"
  "quiet S (S'\<lparr>calls := n\<rparr>) = quiet S S'"
  "quiet S (S'\<lparr>buffers := n\<rparr>) = quiet S S'"
  "quiet S (S'\<lparr>encoded_to := t\<rparr>) = quiet S S'"
  "quiet S (S'\<lparr>encoded_from := t\<rparr>) = quiet S S'"
  "quiet S (S'\<lparr>isTrace := b\<rparr>) = quiet S S'"
  by (simp_all add: quiet_def)

definition same_keys :: "CcURL \<Rightarrow> CcURL \<Rightarrow> bool" where
  "same_keys c c' \<longleftrightarrow> m_curl c' = m_curl c \<and> m_mime c' = m_mime c \<and> pCurlMime c' = pCurlMime c \<and>
     headers c' = headers c \<and> recipients c' = recipients c"

lemma setopts_quiet_from:
  assumes "quiet S S1" "setopts P h os S1 = Inr S2"
    "\<forall>(i, a) \<in> set os. i \<noteq> CURLOPT_HTTPHEADER \<and> i \<noteq> CURLOPT_MAIL_RCPT \<and> (\<forall>m. a = AMime (Some m) \<longrightarrow> mimes S m \<noteq> None)"
  shows "quiet S S2"
proof -
  have "mimes S m \<noteq> None \<Longrightarrow> mimes S1 m \<noteq> None" for m using assms(1) by (auto simp: quiet_def)
  then have "quiet S1 S2" using assms(3) by (intro setopts_quiet [OF quiet_lib_ok [OF assms(1)] assms(2)]) fastforce
  with assms(1) show ?thesis by (rule quiet_trans)
qed

lemma perform_source_quiet:
  assumes "lib_ok S" "\<forall>a. m_mime c = Some a \<longrightarrow> mimes S a \<noteq> None" "perform_source P n c S = Inr (e, fd, f, c', S')"
  shows "quiet S S' \<and> same_keys c c'"
proof -
  have q: "quiet S S" using assms(1) by (rule quiet_refl)
  consider (multi) "isMultipart c" | (none) "\<not> isMultipart c" "Type (pSrc c) = ttVariable" "Data (pSrc c) = []"
    | (var) "\<not> isMultipart c" "Type (pSrc c) = ttVariable" "Data (pSrc c) \<noteq> []"
    | (from_file) "\<not> isMultipart c" "Type (pSrc c) = ttFile"
    | (msg) "\<not> isMultipart c" "Type (pSrc c) \<noteq> ttVariable" "Type (pSrc c) \<noteq> ttFile" by blast
  then show ?thesis
  proof cases
    case multi
    with assms(3) have c: "c' = c" and s: "setopts P (m_curl c)
             [(CURLOPT_POSTFIELDS, AChars (Text (post_buffer c)) (PostFildsData c)),
              (CURLOPT_POSTFIELDSIZE, ALong (int (length (PostFildsData c)))),
              (CURLOPT_MIMEPOST, AMime (m_mime c)),
              (CURLOPT_WRITEDATA, APtr (Local n)), (CURLOPT_WRITEFUNCTION, AFun Cb_curl_swrite)] S = Inr S'"
      unfolding perform_source_def by (auto simp only: Let_def if_True bindE_Inr_iff)
    have "quiet S S'" using assms(2) by (intro setopts_quiet_from [OF q s]) auto
    with c show ?thesis by (simp add: same_keys_def)
  next
    case none
    with assms q show ?thesis by (auto simp: perform_source_def same_keys_def)
  next
    case var
    then have s: "perform_source P n c S = bindE (ANSItoUTF8 P (Data (pSrc c))) (\<lambda>t.
             let c1 = c\<lparr>PostFildsData := t, post_buffer := buffers S + 1\<rparr>; S1 = S\<lparr>buffers := buffers S + 1\<rparr> in
             if \<not> isPosting c
             then bindE (setopts P (m_curl c)
                    [(CURLOPT_POSTFIELDS, AChars (Text (post_buffer c1)) t), (CURLOPT_POSTFIELDSIZE, ALong (int (length t)))] S1)
                    (\<lambda>S2. Inr (None, None, \<lparr>call_no = n, wt_text = None\<rparr>, c1, S2))
             else bindE (setopts P (m_curl c)
                    [(CURLOPT_READFUNCTION, AFun Cb_read_callback), (CURLOPT_READDATA, APtr (Local n)), (CURLOPT_UPLOAD, ALong 1)] S1)
                    (\<lambda>S2. Inr (None, None, \<lparr>call_no = n, wt_text = None\<rparr>\<lparr>wt_text := Some t\<rparr>, c1, S2)))"
      unfolding perform_source_def by (simp only: Let_def if_True if_False simp_thms)
    have q1: "quiet S (S\<lparr>buffers := buffers S + 1\<rparr>)" using q by simp
    show ?thesis
    proof (cases "isPosting c")
      case True
      with assms(3) s obtain t where c: "c' = c\<lparr>PostFildsData := t, post_buffer := buffers S + 1\<rparr>" and
        r: "setopts P (m_curl c) [(CURLOPT_READFUNCTION, AFun Cb_read_callback), (CURLOPT_READDATA, APtr (Local n)), (CURLOPT_UPLOAD, ALong 1)]
          (S\<lparr>buffers := buffers S + 1\<rparr>) = Inr S'"
        by (auto simp only: Let_def simp_thms if_False bindE_Inr_iff)
      have "quiet S S'" by (intro setopts_quiet_from [OF q1 r]) auto
      with c show ?thesis by (simp add: same_keys_def)
    next
      case False
      with assms(3) s obtain t where c: "c' = c\<lparr>PostFildsData := t, post_buffer := buffers S + 1\<rparr>" and
        r: "setopts P (m_curl c) [(CURLOPT_POSTFIELDS, AChars (Text (post_buffer c')) t), (CURLOPT_POSTFIELDSIZE, ALong (int (length t)))]
          (S\<lparr>buffers := buffers S + 1\<rparr>) = Inr S'"
        by (auto simp only: Let_def simp_thms if_True bindE_Inr_iff)
      have "quiet S S'" by (intro setopts_quiet_from [OF q1 r]) auto
      with c show ?thesis by (simp add: same_keys_def)
    qed
  next
    case from_file
    obtain fd0 S1 where o: "fopen_rb P (Data (pSrc c)) S = (fd0, S1)" by (cases "fopen_rb P (Data (pSrc c)) S")
    then have q1: "quiet S S1" using q by (auto simp: fopen_rb_def split: option.splits)
    show ?thesis
    proof (cases fd0)
      case None
      with assms(3) from_file o q1 show ?thesis by (auto simp: perform_source_def same_keys_def)
    next
      case (Some d)
      show ?thesis
      proof (cases "fstat_works P")
        case True
        with assms(3) from_file o Some have c: "c' = c" and r: "setopts P (m_curl c)
                       [(CURLOPT_UPLOAD, ALong 1), (CURLOPT_READDATA, APtr (File d)),
                        (CURLOPT_INFILESIZE_LARGE,
                          AOff (case disk S1 (Data (pSrc c)) of None \<Rightarrow> 0 | Some t \<Rightarrow> int (length t)))] S1 = Inr S'"
          unfolding perform_source_def
          by (auto simp only: Let_def prod.case option.case if_True if_False simp_thms one_neq_zero bindE_Inr_iff)
        have "quiet S S'" by (intro setopts_quiet_from [OF q1 r]) auto
        with c show ?thesis by (simp add: same_keys_def)
      next
        case False
        with assms(3) from_file o Some q1 show ?thesis by (auto simp: perform_source_def same_keys_def)
      qed
    qed
  next
    case msg
    with assms q show ?thesis by (auto simp: perform_source_def same_keys_def Let_def)
  qed
qed

lemma perform_dest_quiet:
  assumes "quiet S S1" "perform_dest P n c S1 = Inr (e, fp, S2)"
  shows "quiet S S2"
proof -
  consider (var) "Type (pDest c) = ttVariable" | (to_file) "Type (pDest c) = ttFile"
    | (msg) "Type (pDest c) \<noteq> ttVariable" "Type (pDest c) \<noteq> ttFile" by blast
  then show ?thesis
  proof cases
    case var
    with assms(2) have "setopts P (m_curl c) [(CURLOPT_WRITEDATA, APtr (Local n)), (CURLOPT_WRITEFUNCTION, AFun Cb_curl_swrite)] S1 = Inr S2"
      unfolding perform_dest_def by (auto simp only: if_True simp_thms bindE_Inr_iff)
    from setopts_quiet_from [OF assms(1) this] show ?thesis by auto
  next
    case to_file
    obtain fp0 S3 where o: "fopen_wb P (Data (pDest c)) S1 = (fp0, S3)" by (cases "fopen_wb P (Data (pDest c)) S1")
    then have q: "quiet S S3" using assms(1) by (auto simp: fopen_wb_def split: option.splits if_splits)
    show ?thesis
    proof (cases fp0)
      case None
      with assms(2) to_file o q show ?thesis by (auto simp: perform_dest_def)
    next
      case (Some p)
      with assms(2) to_file o have "setopts P (m_curl c) [(CURLOPT_WRITEDATA, APtr (File p)), (CURLOPT_WRITEFUNCTION, AFun Cb_curl_fwrite)] S3 = Inr S2"
        unfolding perform_dest_def by (auto simp only: Let_def prod.case option.case if_True if_False simp_thms one_neq_zero bindE_Inr_iff)
      from setopts_quiet_from [OF q this] show ?thesis by auto
    qed
  next
    case msg
    with assms show ?thesis by (simp add: perform_dest_def)
  qed
qed

lemma append_file_quiet [simp]: "quiet S (append_file path t S') = quiet S S'"
  by (simp add: append_file_def)

lemma deliver_quiet:
  assumes "quiet S S1" "deliver f s chunks S1 = Inr (t, S2)"
  shows "quiet S S2"
  using assms unfolding deliver_def
  by (auto simp: bindE_Inr_iff split: if_splits callback.splits ptr.splits option.splits)

lemma transfer_quiet:
  assumes "quiet S S1" "transfer P f ans c S1 = Inr (body, res, data, S2)"
  shows "quiet S S2"
  using assms deliver_quiet [OF assms(1)] unfolding transfer_def
  by (auto simp: bindE_Inr_iff split: option.splits)

lemma fclose_quiet: "quiet S S1 \<Longrightarrow> fclose n S1 = Inr S2 \<Longrightarrow> quiet S S2"
  by (auto simp: fclose_def split: if_splits)

lemma perform_finish_quiet:
  assumes "quiet S S1" "perform_finish P fp fd res code data c S1 = Inr (r, c', S2)"
  shows "quiet S S2 \<and> same_keys c c'"
  using assms unfolding perform_finish_def
  by (auto simp: bindE_Inr_iff fclose_if_def fclose_def same_keys_def split: if_splits option.splits)

lemma easy_perform_quiet:
  assumes "lib_ok S" "\<forall>a. m_mime c = Some a \<longrightarrow> mimes S a \<noteq> None" "easy_perform P ans c S = Inr (b, r, c', S')"
  shows "quiet S S' \<and> same_keys c c'"
proof -
  define c0 where "c0 = c\<lparr>pTrace := (new_CCurlValue ttTrace)\<lparr>Type := ttMsg\<rparr>\<rparr>"
  let ?n = "calls S + 1" and ?S0 = "S\<lparr>calls := calls S + 1\<rparr>"
  from assms(3) obtain e fd f c1 S1 where src: "perform_source P ?n c0 ?S0 = Inr (e, fd, f, c1, S1)"
    by (auto simp: easy_perform_def c0_def Let_def bindE_Inr_iff)
  have "quiet ?S0 S1 \<and> same_keys c0 c1" using assms(1,2) by (intro perform_source_quiet [OF _ _ src]) (auto simp: c0_def)
  then have q1: "quiet S S1" "same_keys c c1" by (auto simp: c0_def same_keys_def quiet_def)
  show ?thesis
  proof (cases e)
    case (Some err)
    with assms(3) src q1 show ?thesis by (auto simp: easy_perform_def c0_def Let_def)
  next
    case None
    with assms(3) src obtain e2 fp S2 where dst: "perform_dest P ?n c1 S1 = Inr (e2, fp, S2)"
      by (auto simp: easy_perform_def c0_def Let_def bindE_Inr_iff)
    have q2: "quiet S S2" by (rule perform_dest_quiet [OF q1(1) dst])
    show ?thesis
    proof (cases e2)
      case (Some err)
      with assms(3) src dst None q1 q2 show ?thesis by (auto simp: easy_perform_def c0_def Let_def)
    next
      case e2: None
      with assms(3) src dst None obtain S3 body res data S4 where
        st: "setopts P (m_curl c1) (status_options ?n c1) S2 = Inr S3" "transfer P f ans c1 S3 = Inr (body, res, data, S4)"
        "perform_finish P fp fd res (a_code ans) data c1 S4 = Inr (r, c', S')"
        by (auto simp: easy_perform_def c0_def Let_def bindE_Inr_iff)
      have "quiet S S3" by (rule setopts_quiet_from [OF q2 st(1)]) (auto simp: status_options_def)
      then have "quiet S S4" using st(2) by (rule transfer_quiet)
      from perform_finish_quiet [OF this st(3)] q1(2) show ?thesis by (auto simp: same_keys_def)
    qed
  qed
qed

section \<open>Running the method\<close>

text \<open>What the transfer reads of the options of a handle: for the request, and for the answer.\<close>

definition req_core :: "UserDefined \<Rightarrow> (Curl_HttpReq \<times> ptr \<times> int \<times> bytes option) \<times> (callback \<times> ptr \<times> int) \<times> nat option" where
  "req_core s = ((set_method s, postfields s, postfieldsize s, copypostfields s), (fread_func_set s, in_set s, filesize s), mimepost s)"

definition core :: "UserDefined \<Rightarrow> ((Curl_HttpReq \<times> ptr \<times> int \<times> bytes option) \<times> (callback \<times> ptr \<times> int) \<times> nat option) \<times> callback \<times> ptr" where
  "core s = (req_core s, fwrite_func s, set_out s)"

lemma req_coreD:
  assumes "req_core s' = req_core s"
  shows "set_method s' = set_method s" "postfields s' = postfields s" "postfieldsize s' = postfieldsize s"
    "copypostfields s' = copypostfields s" "fread_func_set s' = fread_func_set s" "in_set s' = in_set s"
    "filesize s' = filesize s" "mimepost s' = mimepost s"
  using assms by (simp_all add: req_core_def)

lemma request_body_core:
  assumes "req_core s' = req_core s"
  shows "request_body P f c s' S = request_body P f c s S"
  unfolding request_body_def post_body_def post_text_def upload_body_def upload_text_def infilesize_def
  by (simp only: req_coreD [OF assms])

lemma deliver_core:
  assumes "core s' = core s"
  shows "deliver f s' chunks S = deliver f s chunks S"
proof -
  have "fwrite_func s' = fwrite_func s" "set_out s' = set_out s" using assms by (simp_all add: core_def)
  then show ?thesis unfolding deliver_def by (simp only:)
qed

lemma upload_text_sets [simp]: "upload_text P f s (S\<lparr>sets := x\<rparr>) = upload_text P f s S"
  by (cases "fread_func_set s"; cases "in_set s") (simp_all add: upload_text_def split: option.split)

lemma request_body_sets [simp]: "request_body P f c s (S\<lparr>sets := x\<rparr>) = request_body P f c s S"
  by (cases "set_method s") (simp_all add: request_body_def upload_body_def Let_def split: option.split)

lemma status_plain: "\<exists>s'. plain_opts P (status_options n c) s = Some s' \<and> core s' = core s"
proof (cases "m_StatusLine c = 1")
  case True
  have "plain_opts P (status_options n c) s =
    Some (s\<lparr>progress_client := Local n, fxferinfo := Cb_progress_function, hide_progress := False, verifypeer := False, verifyhost := False, verbose := True\<rparr>)"
    using True by (simp add: status_options_def opts)
  then show ?thesis by (intro exI conjI) (assumption, simp add: core_def req_core_def)
next
  case False
  have "plain_opts P (status_options n c) s = Some (s\<lparr>hide_progress := True, verifypeer := False, verifyhost := False, verbose := True\<rparr>)"
    using False by (simp add: status_options_def opts)
  then show ?thesis by (intro exI conjI) (assumption, simp add: core_def req_core_def)
qed

lemma easy_perform_run:
  fixes S :: "'a process_scheme"
  assumes "perform_source P (calls S + 1) (c\<lparr>pTrace := (new_CCurlValue ttTrace)\<lparr>Type := ttMsg\<rparr>\<rparr>) (S\<lparr>calls := calls S + 1\<rparr>) =
      Inr (None, fd, f, c1, S1)"
    "perform_dest P (calls S + 1) c1 S1 = Inr (None, fp, S2)" "m_curl c1 = Some h" "lib_ok S2" "sets S2 h = Some s2"
  obtains s3 where "core s3 = core s2" "lib_ok (S2\<lparr>sets := (sets S2)(h \<mapsto> s3)\<rparr>)"
    "easy_perform P ans c S =
       bindE (request_body P f c1 s2 S2) (\<lambda>body.
       bindE (deliver f s2 (a_chunks ans) (S2\<lparr>sets := (sets S2)(h \<mapsto> s3)\<rparr>)) (\<lambda>(data, S4).
       bindE (perform_finish P fp fd (a_res ans) (a_code ans) data c1 S4) (\<lambda>(r, c2, S5). Inr (Some body, r, c2, S5))))"
proof -
  obtain s3 where s3: "plain_opts P (status_options (calls S + 1) c1) s2 = Some s3" "core s3 = core s2" using status_plain by blast
  let ?S3 = "S2\<lparr>sets := (sets S2)(h \<mapsto> s3)\<rparr>"
  have set3: "setopts P (m_curl c1) (status_options (calls S + 1) c1) S2 = Inr ?S3" "lib_ok ?S3"
    using setopts_plain [OF assms(4,5) s3(1)] assms(3) by auto
  have body: "request_body P f c1 s3 ?S3 = request_body P f c1 s2 S2"
    using request_body_core [of s3 s2 P f c1 S2] s3(2) by (simp add: core_def)
  have "transfer P f ans c1 ?S3 =
    bindE (request_body P f c1 s2 S2) (\<lambda>body.
      bindE (deliver f s2 (a_chunks ans) ?S3) (\<lambda>(t, S1). Inr (body, a_res ans, t, S1)))"
    using assms(3) body deliver_core [OF s3(2), of f "a_chunks ans" ?S3] by (simp add: transfer_def)
  then have "easy_perform P ans c S =
       bindE (request_body P f c1 s2 S2) (\<lambda>body.
       bindE (deliver f s2 (a_chunks ans) ?S3) (\<lambda>(data, S4).
       bindE (perform_finish P fp fd (a_res ans) (a_code ans) data c1 S4) (\<lambda>(r, c2, S5). Inr (Some body, r, c2, S5))))"
    using assms(1,2) set3(1) by (simp add: easy_perform_def Let_def bindE_assoc case_prod_beta')
  with s3(2) set3(2) that show ?thesis by blast
qed

lemma dest_variable:
  assumes "lib_ok S" "sets S h = Some s" "m_curl c = Some h" "Type (pDest c) = ttVariable"
  shows "perform_dest P n c S = Inr (None, None, S\<lparr>sets := (sets S)(h \<mapsto> s\<lparr>set_out := Local n, fwrite_func := Cb_curl_swrite\<rparr>)\<rparr>)"
    "lib_ok (S\<lparr>sets := (sets S)(h \<mapsto> s\<lparr>set_out := Local n, fwrite_func := Cb_curl_swrite\<rparr>)\<rparr>)"
proof -
  have "plain_opts P [(CURLOPT_WRITEDATA, APtr (Local n)), (CURLOPT_WRITEFUNCTION, AFun Cb_curl_swrite)] s =
      Some (s\<lparr>set_out := Local n, fwrite_func := Cb_curl_swrite\<rparr>)"
    by (simp add: opts)
  note r = setopts_plain [OF assms(1,2) this]
  show "perform_dest P n c S = Inr (None, None, S\<lparr>sets := (sets S)(h \<mapsto> s\<lparr>set_out := Local n, fwrite_func := Cb_curl_swrite\<rparr>)\<rparr>)"
    using r assms(3,4) unfolding perform_dest_def by (simp only: if_True simp_thms bindE_simps)
  show "lib_ok (S\<lparr>sets := (sets S)(h \<mapsto> s\<lparr>set_out := Local n, fwrite_func := Cb_curl_swrite\<rparr>)\<rparr>)" using r by blast
qed

lemma source_nothing:
  assumes "\<not> isMultipart c" "Type (pSrc c) = ttVariable" "Data (pSrc c) = []"
  shows "perform_source P n c S = Inr (None, None, \<lparr>call_no = n, wt_text = None\<rparr>, c, S)"
  using assms by (simp add: perform_source_def)

lemma source_post:
  assumes "lib_ok S" "sets S h = Some s" "m_curl c = Some h" "\<not> isMultipart c" "\<not> isPosting c" "Type (pSrc c) = ttVariable"
    "Data (pSrc c) \<noteq> []" "ANSItoUTF8 P (Data (pSrc c)) = Inr t"
  defines "s1 \<equiv> s\<lparr>postfields := Text (buffers S + 1), copypostfields := None, set_method := HTTPREQ_POST, postfieldsize := int (length t)\<rparr>"
    and "S1 \<equiv> S\<lparr>buffers := buffers S + 1\<rparr>"
  shows "perform_source P n c S = Inr (None, None, \<lparr>call_no = n, wt_text = None\<rparr>,
      c\<lparr>PostFildsData := t, post_buffer := buffers S + 1\<rparr>, S1\<lparr>sets := (sets S1)(h \<mapsto> s1)\<rparr>)"
    "lib_ok (S1\<lparr>sets := (sets S1)(h \<mapsto> s1)\<rparr>)"
proof -
  have "plain_opts P [(CURLOPT_POSTFIELDS, AChars (Text (buffers S + 1)) t), (CURLOPT_POSTFIELDSIZE, ALong (int (length t)))] s = Some s1"
    by (simp add: opts setopt_POSTFIELDSIZE_def s1_def)
  moreover have "lib_ok S1" "sets S1 h = Some s" using assms(1,2) by (simp_all add: S1_def)
  ultimately have r: "setopts P (Some h) [(CURLOPT_POSTFIELDS, AChars (Text (buffers S + 1)) t), (CURLOPT_POSTFIELDSIZE, ALong (int (length t)))] S1 =
      Inr (S1\<lparr>sets := (sets S1)(h \<mapsto> s1)\<rparr>)" "lib_ok (S1\<lparr>sets := (sets S1)(h \<mapsto> s1)\<rparr>)"
    using setopts_plain by blast+
  have b: "post_buffer (c\<lparr>PostFildsData := t, post_buffer := buffers S + 1\<rparr>) = buffers S + 1" by simp
  show "perform_source P n c S = Inr (None, None, \<lparr>call_no = n, wt_text = None\<rparr>,
      c\<lparr>PostFildsData := t, post_buffer := buffers S + 1\<rparr>, S1\<lparr>sets := (sets S1)(h \<mapsto> s1)\<rparr>)"
    using assms(3-8) r(1) unfolding perform_source_def S1_def
    by (simp only: Let_def if_True if_False simp_thms bindE_simps b)
  show "lib_ok (S1\<lparr>sets := (sets S1)(h \<mapsto> s1)\<rparr>)" by (rule r(2))
qed

lemma source_upload:
  fixes n :: nat
  assumes "lib_ok S" "sets S h = Some s" "m_curl c = Some h" "\<not> isMultipart c" "isPosting c" "Type (pSrc c) = ttVariable"
    "Data (pSrc c) \<noteq> []" "ANSItoUTF8 P (Data (pSrc c)) = Inr t"
  defines "s1 \<equiv> s\<lparr>fread_func_set := Cb_read_callback, is_fread_set := True, in_set := Local n, set_method := HTTPREQ_PUT, opt_no_body := False\<rparr>"
    and "S1 \<equiv> S\<lparr>buffers := buffers S + 1\<rparr>"
  shows "perform_source P n c S = Inr (None, None, \<lparr>call_no = n, wt_text = Some t\<rparr>,
      c\<lparr>PostFildsData := t, post_buffer := buffers S + 1\<rparr>, S1\<lparr>sets := (sets S1)(h \<mapsto> s1)\<rparr>)"
    "lib_ok (S1\<lparr>sets := (sets S1)(h \<mapsto> s1)\<rparr>)"
proof -
  let ?os = "[(CURLOPT_READFUNCTION, AFun Cb_read_callback), (CURLOPT_READDATA, APtr (Local n)), (CURLOPT_UPLOAD, ALong 1)]"
  have "plain_opts P ?os s = Some s1" by (simp add: opts s1_def)
  moreover have "lib_ok S1" "sets S1 h = Some s" using assms(1,2) by (simp_all add: S1_def)
  ultimately have r: "setopts P (Some h) ?os S1 = Inr (S1\<lparr>sets := (sets S1)(h \<mapsto> s1)\<rparr>)" "lib_ok (S1\<lparr>sets := (sets S1)(h \<mapsto> s1)\<rparr>)"
    using setopts_plain by blast+
  have w: "\<lparr>call_no = n, wt_text = None\<rparr>\<lparr>wt_text := Some t\<rparr> = \<lparr>call_no = n, wt_text = Some t\<rparr>" by simp
  show "perform_source P n c S = Inr (None, None, \<lparr>call_no = n, wt_text = Some t\<rparr>,
      c\<lparr>PostFildsData := t, post_buffer := buffers S + 1\<rparr>, S1\<lparr>sets := (sets S1)(h \<mapsto> s1)\<rparr>)"
    using assms(3-8) r(1) unfolding perform_source_def S1_def
    by (simp only: Let_def if_True if_False simp_thms bindE_simps w)
  show "lib_ok (S1\<lparr>sets := (sets S1)(h \<mapsto> s1)\<rparr>)" by (rule r(2))
qed

lemma source_file:
  assumes "lib_ok S" "sets S h = Some s" "m_curl c = Some h" "\<not> isMultipart c" "Type (pSrc c) = ttFile"
    "disk S (Data (pSrc c)) = Some t" "new_stream P (streams S) = Some d" "fstat_works P"
  defines "s1 \<equiv> s\<lparr>set_method := HTTPREQ_PUT, opt_no_body := False, in_set := File d, filesize := int (length t)\<rparr>"
    and "S1 \<equiv> S\<lparr>streams := (streams S)(d \<mapsto> Data (pSrc c))\<rparr>"
  shows "perform_source P n c S = Inr (None, Some d, \<lparr>call_no = n, wt_text = None\<rparr>, c, S1\<lparr>sets := (sets S1)(h \<mapsto> s1)\<rparr>)"
    "lib_ok (S1\<lparr>sets := (sets S1)(h \<mapsto> s1)\<rparr>)"
proof -
  let ?os = "[(CURLOPT_UPLOAD, ALong 1), (CURLOPT_READDATA, APtr (File d)), (CURLOPT_INFILESIZE_LARGE, AOff (int (length t)))]"
  have "plain_opts P ?os s = Some s1" by (simp add: opts s1_def)
  moreover have "lib_ok S1" "sets S1 h = Some s" using assms(1,2) by (simp_all add: S1_def)
  ultimately have r: "setopts P (Some h) ?os S1 = Inr (S1\<lparr>sets := (sets S1)(h \<mapsto> s1)\<rparr>)" "lib_ok (S1\<lparr>sets := (sets S1)(h \<mapsto> s1)\<rparr>)"
    using setopts_plain by blast+
  have o: "fopen_rb P (Data (pSrc c)) S = (Some d, S1)" using assms(6,7) by (simp add: fopen_rb_def S1_def)
  have z: "disk S1 (Data (pSrc c)) = Some t" using assms(6) by (simp add: S1_def)
  show "perform_source P n c S = Inr (None, Some d, \<lparr>call_no = n, wt_text = None\<rparr>, c, S1\<lparr>sets := (sets S1)(h \<mapsto> s1)\<rparr>)"
    using assms(3-5,8) r(1) unfolding perform_source_def
    by (simp only: Let_def if_True if_False simp_thms bindE_simps o z prod.case option.case one_neq_zero)
  show "lib_ok (S1\<lparr>sets := (sets S1)(h \<mapsto> s1)\<rparr>)" by (rule r(2))
qed

text \<open>The answer in a variable: what the script gets, or the exception.\<close>

lemma finish_variable:
  assumes "Type (pDest c) = ttVariable" "UTF8toANSI P data = Inr u"
  shows "perform_finish P None fd res code data c S = bindE (fclose_if fd S) (\<lambda>S1.
    Inr (if res \<noteq> 0 then (Raises (Not_received res code), c, S1)
         else (Returns (Number code), c\<lparr>pDest := (pDest c)\<lparr>Data := u\<rparr>\<rparr>, S1)))"
proof -
  have "fclose_if None S = Inr S" by (simp add: fclose_if_def)
  with assms show ?thesis unfolding perform_finish_def
    by (cases "fclose_if fd S") (simp_all add: fclose_if_def)
qed

definition chunks_ok :: "(bytes \<times> bytes) list \<Rightarrow> bool" where
  "chunks_ok cs \<longleftrightarrow> list_all (\<lambda>(chunk, beyond). length chunk < 2 ^ 32 \<and> 0 \<in> set (chunk @ beyond)) cs"

definition chunk_text :: "(bytes \<times> bytes) list \<Rightarrow> bytes" where
  "chunk_text cs = concat (map (\<lambda>(chunk, _). c_str chunk) cs)"

lemma deliver_variable:
  assumes "fwrite_func s = Cb_curl_swrite" "set_out s = Local (call_no f)" "chunks_ok cs"
  shows "deliver f s cs S = Inr (chunk_text cs, S)"
proof -
  have "\<forall>(chunk, beyond) \<in> set cs. length chunk < 2 ^ 32" "list_all (\<lambda>(chunk, beyond). 0 \<in> set (chunk @ beyond)) cs"
    using assms(3) by (auto simp: chunks_ok_def list_all_iff)
  then have "swrite_calls cs [] = Inr (chunk_text cs)" using swrite_calls_eq [of cs "[]"] by (simp add: chunk_text_def)
  with assms(1,2) show ?thesis by (cases "cs = []") (simp_all add: deliver_def chunk_text_def)
qed

lemma post_body_text:
  assumes "set_method s = HTTPREQ_POST" "postfields s = Text (post_buffer c)" "postfieldsize s = int (length (PostFildsData c))"
  shows "request_body P f c s S = Inr (Body (PostFildsData c))"
  using assms by (simp add: request_body_def post_body_def post_text_def infilesize_def)

text \<open>From here on the method runs with a variable for the answer.\<close>

lemma run_variable:
  fixes S :: "'a process_scheme"
  assumes "perform_source P (calls S + 1) (c\<lparr>pTrace := (new_CCurlValue ttTrace)\<lparr>Type := ttMsg\<rparr>\<rparr>) (S\<lparr>calls := calls S + 1\<rparr>) =
      Inr (None, fd, f, c1, S1)"
    "m_curl c1 = Some h" "lib_ok S1" "sets S1 h = Some s1" "Type (pDest c1) = ttVariable" "call_no f = calls S + 1"
    "chunks_ok (a_chunks ans)" "UTF8toANSI P (chunk_text (a_chunks ans)) = Inr u"
  obtains s3 where "core s3 = core (s1\<lparr>set_out := Local (calls S + 1), fwrite_func := Cb_curl_swrite\<rparr>)"
    "lib_ok (S1\<lparr>sets := (sets S1)(h \<mapsto> s3)\<rparr>)"
    "easy_perform P ans c S =
       bindE (request_body P f c1 s1 S1) (\<lambda>body.
       bindE (fclose_if fd (S1\<lparr>sets := (sets S1)(h \<mapsto> s3)\<rparr>)) (\<lambda>S5.
         Inr (Some body,
           if a_res ans \<noteq> 0 then (Raises (Not_received (a_res ans) (a_code ans)), c1, S5)
           else (Returns (Number (a_code ans)), c1\<lparr>pDest := (pDest c1)\<lparr>Data := u\<rparr>\<rparr>, S5))))"
proof -
  let ?s2 = "s1\<lparr>set_out := Local (calls S + 1), fwrite_func := Cb_curl_swrite\<rparr>"
  let ?S2 = "S1\<lparr>sets := (sets S1)(h \<mapsto> ?s2)\<rparr>"
  note dest = dest_variable(1) [OF assms(3,4,2,5), of P "calls S + 1"] dest_variable(2) [OF assms(3,4,2,5), of "calls S + 1"]
  have "sets ?S2 h = Some ?s2" by simp
  from easy_perform_run [OF assms(1) dest(1) assms(2) dest(2) this, of ans] obtain s3 where
    3: "core s3 = core ?s2" "lib_ok (?S2\<lparr>sets := (sets ?S2)(h \<mapsto> s3)\<rparr>)"
      "easy_perform P ans c S =
       bindE (request_body P f c1 ?s2 ?S2) (\<lambda>body.
       bindE (deliver f ?s2 (a_chunks ans) (?S2\<lparr>sets := (sets ?S2)(h \<mapsto> s3)\<rparr>)) (\<lambda>(data, S4).
       bindE (perform_finish P None fd (a_res ans) (a_code ans) data c1 S4) (\<lambda>(r, c2, S5). Inr (Some body, r, c2, S5))))" by blast
  note tw = sets_twice [of S1 h ?s2 s3]
  have body: "request_body P f c1 ?s2 ?S2 = request_body P f c1 s1 S1"
    unfolding request_body_sets by (rule request_body_core) (simp add: req_core_def)
  have del: "deliver f ?s2 (a_chunks ans) S4 = Inr (chunk_text (a_chunks ans), S4)" for S4 :: "'a process_scheme"
    using assms(6,7) by (intro deliver_variable) simp_all
  have "easy_perform P ans c S =
       bindE (request_body P f c1 s1 S1) (\<lambda>body.
       bindE (fclose_if fd (S1\<lparr>sets := (sets S1)(h \<mapsto> s3)\<rparr>)) (\<lambda>S5.
         Inr (Some body,
           if a_res ans \<noteq> 0 then (Raises (Not_received (a_res ans) (a_code ans)), c1, S5)
           else (Returns (Number (a_code ans)), c1\<lparr>pDest := (pDest c1)\<lparr>Data := u\<rparr>\<rparr>, S5))))"
    unfolding 3(3) tw body del bindE_simps prod.case finish_variable [OF assms(5,8)]
    by (cases "a_res ans = 0") (simp_all add: bindE_assoc)
  with 3(1,2) that show ?thesis unfolding tw by blast
qed

text \<open>A file for the answer is closed before the result is looked at, so the second close finds it closed.\<close>

lemma perform_source_pDest:
  assumes "perform_source P n c S = Inr (e, fd, f, c', S')"
  shows "pDest c' = pDest c"
  using assms unfolding perform_source_def
  by (auto simp: Let_def bindE_Inr_iff simp del: setopts.simps split: if_splits option.splits prod.splits)

lemma finish_file:
  fixes S :: "'a process_scheme"
  assumes "Type (pDest c) = ttFile"
  shows "perform_finish P (Some p) fd 0 code data c S \<noteq> Inr r"
    and "streams S p \<noteq> None \<Longrightarrow> perform_finish P (Some p) None 0 code data c S = Inl UseAfterFree"
proof -
  have "streams S1 p = None" if "fclose p S = Inr S1" for S1 :: "'a process_scheme" using that by (auto simp: fclose_def split: if_splits)
  moreover have "streams S2 p = None" if "fclose_if fd S1 = Inr S2" "streams S1 p = None" for S1 S2 :: "'a process_scheme"
    using that by (auto simp: fclose_if_def fclose_def split: option.splits if_splits)
  ultimately have twice: "fclose p S2 = Inl UseAfterFree" if "fclose p S = Inr S1" "fclose_if fd S1 = Inr S2" for S1 S2
    using that by (simp add: fclose_def [of p S2])
  show "perform_finish P (Some p) fd 0 code data c S \<noteq> Inr r"
  proof
    assume "perform_finish P (Some p) fd 0 code data c S = Inr r"
    then obtain S1 S2 where 1: "fclose p S = Inr S1" "fclose_if fd S1 = Inr S2"
      and "bindE (fclose p S2) (\<lambda>S3. Inr (Returns (Number code), c, S3)) = Inr r"
      using assms by (auto simp: perform_finish_def bindE_Inr_iff fclose_if_def [of "Some p"])
    with twice [OF 1] show False by simp
  qed
  show "perform_finish P (Some p) None 0 code data c S = Inl UseAfterFree" if "streams S p \<noteq> None"
    using assms that by (auto simp: perform_finish_def fclose_if_def fclose_def)
qed

lemma dest_file:
  assumes "lib_ok S" "sets S h = Some s" "m_curl c = Some h" "Type (pDest c) = ttFile"
    "new_stream P (streams S) = Some p" "may_create P (Data (pDest c))"
  defines "s1 \<equiv> s\<lparr>set_out := File p, fwrite_func := Cb_curl_fwrite\<rparr>"
    and "S1 \<equiv> S\<lparr>streams := (streams S)(p \<mapsto> Data (pDest c)), disk := (disk S)(Data (pDest c) \<mapsto> [])\<rparr>"
  shows "perform_dest P n c S = Inr (None, Some p, S1\<lparr>sets := (sets S1)(h \<mapsto> s1)\<rparr>)" "lib_ok (S1\<lparr>sets := (sets S1)(h \<mapsto> s1)\<rparr>)"
proof -
  let ?os = "[(CURLOPT_WRITEDATA, APtr (File p)), (CURLOPT_WRITEFUNCTION, AFun Cb_curl_fwrite)]"
  have "plain_opts P ?os s = Some s1" by (simp add: opts s1_def)
  moreover have "lib_ok S1" "sets S1 h = Some s" using assms(1,2) by (simp_all add: S1_def)
  ultimately have r: "setopts P (Some h) ?os S1 = Inr (S1\<lparr>sets := (sets S1)(h \<mapsto> s1)\<rparr>)" "lib_ok (S1\<lparr>sets := (sets S1)(h \<mapsto> s1)\<rparr>)"
    using setopts_plain by blast+
  have o: "fopen_wb P (Data (pDest c)) S = (Some p, S1)" using assms(5,6) by (simp add: fopen_wb_def S1_def)
  show "perform_dest P n c S = Inr (None, Some p, S1\<lparr>sets := (sets S1)(h \<mapsto> s1)\<rparr>)"
    using assms(3,4) r(1) unfolding perform_dest_def
    by (simp only: Let_def if_True if_False simp_thms bindE_simps o prod.case option.case one_neq_zero)
  show "lib_ok (S1\<lparr>sets := (sets S1)(h \<mapsto> s1)\<rparr>)" by (rule r(2))
qed

section \<open>A platform and a process for the witnesses\<close>

definition next_free :: "(nat \<rightharpoonup> 'a) \<Rightarrow> nat option" where
  "next_free m = (if finite (dom m) \<and> card (dom m) < 2 ^ 32 - 1 then Some (Suc (Max (insert 0 (dom m)))) else None)"

definition sample_platform :: platform where
  "sample_platform =
     \<lparr>all_encodings = bytes_of ''deflate'', libpsl = False, others = \<lambda>_ _. CURLE_OK,
      new_handle = next_free, new_share = next_free, new_mime = next_free, new_node = next_free, new_stream = next_free,
      alloc = \<lambda>_. True, junk = \<lambda>_. 0, avail = \<lambda>_. True, stat_file = \<lambda>_. Some 5, base_name = Curl_basename,
      may_create = \<lambda>_. True, fstat_works = True, mb_wide = \<lambda>_. map ucast, wide_mb = \<lambda>_. map ucast,
      null_text = [], script_text = Inl UseAfterFree, std_input = []\<rparr>"

definition sample_process :: process where
  "sample_process =
     snd (curl_easy_init (Some 5) (process_start [bytes_of ''in.txt'' \<mapsto> bytes_of ''Hello'']))"

definition sample_object :: CcURL where
  "sample_object =
     \<lparr>m_curl = Some 5, m_mime = None, m_trace = False, PostFildsData = [], post_buffer = 0, m_StatusLine = 0,
      isPosting = False, isMultipart = False, pSrc = new_CCurlValue ttSrc, pDest = new_CCurlValue ttDest,
      pTrace = new_CCurlValue ttTrace, pCurlMime = \<lparr>p_curl = Some 5, p_mime = None\<rparr>, headers = None, recipients = None\<rparr>"

lemma next_free: "next_free m = Some a \<Longrightarrow> m a = None \<and> card (dom m) < 2 ^ 32 - 1"
proof -
  assume a: "next_free m = Some a"
  then have fin: "finite (dom m)" and a: "a = Suc (Max (insert 0 (dom m)))" "card (dom m) < 2 ^ 32 - 1"
    by (auto simp: next_free_def split: if_splits)
  have "a \<notin> dom m"
  proof
    assume "a \<in> dom m"
    then have "a \<le> Max (insert 0 (dom m))" using fin by (intro Max_ge) simp_all
    with a(1) show False by simp
  qed
  with a(2) show ?thesis by (auto simp: domIff)
qed

lemma lib_ok_start: "lib_ok (process_start files)"
  by (simp add: lib_ok_def process_start_def shares_ok_def bound_def posting_def)

lemma sample_process_ok: "lib_ok sample_process" "sets sample_process 5 = Some Curl_init_userdefined"
proof -
  let ?S = "process_start [bytes_of ''in.txt'' \<mapsto> bytes_of ''Hello'']"
  have "links ?S 5 = None" "card (dom (links ?S)) < 2 ^ 32 - 1" by (simp_all add: process_start_def)
  note ok = easy_init_ok [OF lib_ok_start this]
  show "lib_ok sample_process" using ok by (simp add: sample_process_def)
  show "sets sample_process 5 = Some Curl_init_userdefined" by (simp add: sample_process_def curl_easy_init_def)
qed

lemma sample_platform_simps:
  "new_stream sample_platform Map.empty = Some (Suc 0)" "fstat_works sample_platform" "may_create sample_platform f"
  by (simp_all add: sample_platform_def next_free_def)

lemma init_userdefined_simps: "fread_func_set Curl_init_userdefined = Cb_fread" "set_method Curl_init_userdefined = HTTPREQ_GET"
  "filesize Curl_init_userdefined = -1"
  by (simp_all add: Curl_init_userdefined_def)

lemma sample_simps:
  "m_curl sample_object = Some 5" "\<not> isMultipart sample_object" "\<not> isPosting sample_object"
  "Type (pSrc sample_object) = ttVariable" "Data (pSrc sample_object) = []" "Type (pDest sample_object) = ttVariable"
  "streams sample_process = Map.empty" "disk sample_process = [bytes_of ''in.txt'' \<mapsto> bytes_of ''Hello'']"
  by (simp_all add: sample_object_def sample_process_def process_start_def curl_easy_init_def new_CCurlValue_def)

text \<open>The sample platform converts every text into itself.\<close>

lemma sample_convert:
  assumes "0 \<notin> set t"
  shows "convert from to sample_platform t = Inr t"
proof -
  have inv: "ucast (ucast a :: 16 word) = a" for a :: byte
  proof -
    have "take_bit 16 (unat a) = unat a" by (rule take_bit_nat_eq_self) (rule less_trans [OF unat_byte], simp)
    then show ?thesis by (simp add: word_unat_eq_iff unsigned_ucast_eq unsigned_take_bit_eq)
  qed
  then have "(ucast a :: 16 word) \<noteq> 0" if "a \<noteq> 0" for a :: byte using that by (metis ucast_0)
  then have "takeWhile (\<lambda>w. w \<noteq> 0) (map ucast t @ [0 :: 16 word]) = map ucast t"
    using assms by (induction t) auto
  moreover have "map ucast (map ucast t :: 16 word list) = t"
    by (induction t) (simp_all add: inv)
  ultimately show ?thesis using assms by (simp add: convert_def sample_platform_def c_str_append Let_def)
qed

section \<open>Properties\<close>

text \<open>
  C0: whatever options were set and whatever was transferred before, a method call with a text
  as the source and a variable for the answer sends exactly the text in UTF-8, gives the script
  the response code and stores the collected answer, converted from UTF-8; it leaves no stream
  open.
\<close>

theorem perform_posts:
  fixes S :: "'a process_scheme"
  assumes "lib_ok S" "m_curl c = Some h" "sets S h = Some s" "\<not> isMultipart c" "\<not> isPosting c"
    "Type (pSrc c) = ttVariable" "Data (pSrc c) \<noteq> []" "Type (pDest c) = ttVariable"
    "ANSItoUTF8 P (Data (pSrc c)) = Inr t" "UTF8toANSI P (chunk_text (a_chunks ans)) = Inr u"
    "chunks_ok (a_chunks ans)" "a_res ans = 0"
  shows "\<exists>c' S'. easy_perform P ans c S = Inr (Some (Body t), Returns (Number (a_code ans)), c', S') \<and>
    read_Data (pDest c') = Returns (Chars u) \<and> streams S' = streams S"
proof -
  let ?c0 = "c\<lparr>pTrace := (new_CCurlValue ttTrace)\<lparr>Type := ttMsg\<rparr>\<rparr>" and ?S0 = "S\<lparr>calls := calls S + 1\<rparr>"
  have "lib_ok ?S0" "sets ?S0 h = Some s" "m_curl ?c0 = Some h" "\<not> isMultipart ?c0" "\<not> isPosting ?c0"
    "Type (pSrc ?c0) = ttVariable" "Data (pSrc ?c0) \<noteq> []" "ANSItoUTF8 P (Data (pSrc ?c0)) = Inr t"
    using assms by simp_all
  note src = source_post(1) [OF this, of "calls S + 1"] source_post(2) [OF this]
  define c1 where "c1 = ?c0\<lparr>PostFildsData := t, post_buffer := buffers ?S0 + 1\<rparr>"
  define s1 where "s1 = s\<lparr>postfields := Text (buffers ?S0 + 1), copypostfields := None, set_method := HTTPREQ_POST, postfieldsize := int (length t)\<rparr>"
  define S1 where "S1 = (?S0\<lparr>buffers := buffers ?S0 + 1\<rparr>)\<lparr>sets := (sets (?S0\<lparr>buffers := buffers ?S0 + 1\<rparr>))(h \<mapsto> s1)\<rparr>"
  note src' = src [folded s1_def, folded c1_def S1_def]
  have c1: "m_curl c1 = Some h" "Type (pDest c1) = ttVariable" "sets S1 h = Some s1" "streams S1 = streams S"
    using assms(2,8) by (simp_all add: c1_def S1_def)
  from run_variable [OF src'(1) c1(1) src'(2) c1(3,2) _ assms(11,10)] obtain s3 where
    r: "easy_perform P ans c S =
       bindE (request_body P \<lparr>call_no = calls S + 1, wt_text = None\<rparr> c1 s1 S1) (\<lambda>body.
       bindE (fclose_if None (S1\<lparr>sets := (sets S1)(h \<mapsto> s3)\<rparr>)) (\<lambda>S5.
         Inr (Some body,
           if a_res ans \<noteq> 0 then (Raises (Not_received (a_res ans) (a_code ans)), c1, S5)
           else (Returns (Number (a_code ans)), c1\<lparr>pDest := (pDest c1)\<lparr>Data := u\<rparr>\<rparr>, S5))))"
    by auto
  have "request_body P \<lparr>call_no = calls S + 1, wt_text = None\<rparr> c1 s1 S1 = Inr (Body t)"
    using post_body_text [of s1 c1] by (simp add: s1_def c1_def)
  with r assms(12) c1(4) show ?thesis by (simp add: fclose_if_def read_Data_def)
qed

theorem perform_posts_witness:
  "\<exists>c' S'. easy_perform sample_platform \<lparr>a_res = 0, a_code = 200, a_chunks = [(bytes_of ''ok'', [0]), (bytes_of ''.'', [1, 0])]\<rparr>
      (sample_object\<lparr>pSrc := (new_CCurlValue ttSrc)\<lparr>Data := bytes_of ''a=1''\<rparr>\<rparr>) sample_process =
      Inr (Some (Body (bytes_of ''a=1'')), Returns (Number 200), c', S') \<and>
    read_Data (pDest c') = Returns (Chars (bytes_of ''ok.'')) \<and> streams S' = streams sample_process"
  using perform_posts [OF sample_process_ok(1), of "sample_object\<lparr>pSrc := (new_CCurlValue ttSrc)\<lparr>Data := bytes_of ''a=1''\<rparr>\<rparr>" 5
      Curl_init_userdefined sample_platform "bytes_of ''a=1''"
      "\<lparr>a_res = 0, a_code = 200, a_chunks = [(bytes_of ''ok'', [0]), (bytes_of ''.'', [1, 0])]\<rparr>" "bytes_of ''ok.''"]
  by (simp add: sample_simps sample_process_ok(2) ANSItoUTF8_def UTF8toANSI_def sample_convert chunks_ok_def chunk_text_def new_CCurlValue_def)

text \<open>
  C0: a file as the source is sent as it is, and its stream is closed once, as long as the
  handle still reads with the function of the C library. After a text was uploaded with this
  handle, the read callback of the component would take the stream of a file that is not empty
  for its own structure.
\<close>

theorem perform_uploads_file:
  fixes S :: "'a process_scheme"
  assumes "lib_ok S" "m_curl c = Some h" "sets S h = Some s" "\<not> isMultipart c" "Type (pSrc c) = ttFile"
    "disk S (Data (pSrc c)) = Some t" "new_stream P (streams S) = Some d" "streams S d = None" "fstat_works P"
    "Type (pDest c) = ttVariable" "UTF8toANSI P (chunk_text (a_chunks ans)) = Inr u" "chunks_ok (a_chunks ans)" "a_res ans = 0"
  shows "(fread_func_set s = Cb_fread \<longrightarrow>
      (\<exists>c' S'. easy_perform P ans c S = Inr (Some (Body t), Returns (Number (a_code ans)), c', S') \<and>
         read_Data (pDest c') = Returns (Chars u) \<and> streams S' = streams S)) \<and>
    (fread_func_set s = Cb_read_callback \<longrightarrow> t \<noteq> [] \<longrightarrow> easy_perform P ans c S = Inl BadArgument)"
proof -
  let ?c0 = "c\<lparr>pTrace := (new_CCurlValue ttTrace)\<lparr>Type := ttMsg\<rparr>\<rparr>" and ?S0 = "S\<lparr>calls := calls S + 1\<rparr>"
  have "lib_ok ?S0" "sets ?S0 h = Some s" "m_curl ?c0 = Some h" "\<not> isMultipart ?c0" "Type (pSrc ?c0) = ttFile"
    "disk ?S0 (Data (pSrc ?c0)) = Some t" "new_stream P (streams ?S0) = Some d" "fstat_works P"
    using assms by simp_all
  note src = source_file(1) [OF this, of "calls S + 1"] source_file(2) [OF this]
  define s1 where "s1 = s\<lparr>set_method := HTTPREQ_PUT, opt_no_body := False, in_set := File d, filesize := int (length t)\<rparr>"
  define S1 where "S1 = (?S0\<lparr>streams := (streams ?S0)(d \<mapsto> Data (pSrc ?c0))\<rparr>)\<lparr>sets :=
    (sets (?S0\<lparr>streams := (streams ?S0)(d \<mapsto> Data (pSrc ?c0))\<rparr>))(h \<mapsto> s1)\<rparr>"
  note src' = src [folded s1_def, folded S1_def]
  have c1: "m_curl ?c0 = Some h" "Type (pDest ?c0) = ttVariable" "sets S1 h = Some s1"
    "streams S1 = (streams S)(d \<mapsto> Data (pSrc c))" "disk S1 = disk S"
    using assms(2,10) by (simp_all add: S1_def)
  from run_variable [OF src'(1) c1(1) src'(2) c1(3,2) _ assms(12,11)] obtain s3 where
    r: "easy_perform P ans c S =
       bindE (request_body P \<lparr>call_no = calls S + 1, wt_text = None\<rparr> ?c0 s1 S1) (\<lambda>body.
       bindE (fclose_if (Some d) (S1\<lparr>sets := (sets S1)(h \<mapsto> s3)\<rparr>)) (\<lambda>S5.
         Inr (Some body,
           if a_res ans \<noteq> 0 then (Raises (Not_received (a_res ans) (a_code ans)), ?c0, S5)
           else (Returns (Number (a_code ans)), ?c0\<lparr>pDest := (pDest ?c0)\<lparr>Data := u\<rparr>\<rparr>, S5))))"
    by auto
  have "request_body P \<lparr>call_no = calls S + 1, wt_text = None\<rparr> ?c0 s1 S1 =
      (if fread_func_set s = Cb_fread \<or> t = [] then Inr (Body t) else Inl BadArgument)" if "fread_func_set s \<in> {Cb_fread, Cb_read_callback}"
    using that c1(4,5) assms(6) by (auto simp: request_body_def upload_body_def upload_text_def infilesize_def s1_def Let_def)
  with r assms(8,13) c1(4) show ?thesis by (auto simp: fclose_if_def fclose_def read_Data_def)
qed

theorem perform_uploads_file_witness:
  "\<exists>c' S'. easy_perform sample_platform \<lparr>a_res = 0, a_code = 201, a_chunks = []\<rparr>
      (sample_object\<lparr>pSrc := (new_CCurlValue ttSrc)\<lparr>Type := ttFile, Data := bytes_of ''in.txt''\<rparr>\<rparr>) sample_process =
      Inr (Some (Body (bytes_of ''Hello'')), Returns (Number 201), c', S') \<and>
    read_Data (pDest c') = Returns (Chars []) \<and> streams S' = streams sample_process"
  using perform_uploads_file [OF sample_process_ok(1), of "sample_object\<lparr>pSrc := (new_CCurlValue ttSrc)\<lparr>Type := ttFile, Data := bytes_of ''in.txt''\<rparr>\<rparr>" 5
      Curl_init_userdefined "bytes_of ''Hello''" sample_platform "Suc 0" "\<lparr>a_res = 0, a_code = 201, a_chunks = []\<rparr>" "[]"]
  by (simp add: sample_simps sample_process_ok(2) UTF8toANSI_def sample_convert chunks_ok_def chunk_text_def new_CCurlValue_def
    sample_platform_simps init_userdefined_simps)

text \<open>
  C0: an upload of a text through the read callback sends that text, cut at the size that an
  earlier upload of a file has set. It leaves the callback and a pointer to a local variable in
  the handle: when the script empties the source, the next transfer with the handle follows
  that pointer, unless that size is 0.
\<close>

theorem upload_outlives:
  fixes S :: "'a process_scheme"
  assumes "lib_ok S" "m_curl c = Some h" "sets S h = Some s" "\<not> isMultipart c" "isPosting c"
    "Type (pSrc c) = ttVariable" "Data (pSrc c) \<noteq> []" "Type (pDest c) = ttVariable"
    "ANSItoUTF8 P (Data (pSrc c)) = Inr t" "UTF8toANSI P (chunk_text (a_chunks ans)) = Inr u" "chunks_ok (a_chunks ans)"
    "UTF8toANSI P (chunk_text (a_chunks ans2)) = Inr u2" "chunks_ok (a_chunks ans2)" "c_str (str_value v) = []" "filesize s \<noteq> 0"
  shows "\<exists>r c1 S1. easy_perform P ans c S = Inr (Some (Body (if filesize s < 0 then t else take (nat (filesize s)) t)), r, c1, S1) \<and>
    easy_perform P ans2 (c1\<lparr>pSrc := snd (write_Data v (pSrc c1))\<rparr>) S1 = Inl UseAfterFree"
proof -
  let ?c0 = "c\<lparr>pTrace := (new_CCurlValue ttTrace)\<lparr>Type := ttMsg\<rparr>\<rparr>" and ?S0 = "S\<lparr>calls := calls S + 1\<rparr>"
  let ?n = "calls S + 1" and ?m = "calls S + 2"
  have "lib_ok ?S0" "sets ?S0 h = Some s" "m_curl ?c0 = Some h" "\<not> isMultipart ?c0" "isPosting ?c0"
    "Type (pSrc ?c0) = ttVariable" "Data (pSrc ?c0) \<noteq> []" "ANSItoUTF8 P (Data (pSrc ?c0)) = Inr t"
    using assms by simp_all
  note src = source_upload(1) [OF this, of ?n] source_upload(2) [OF this, of ?n]
  define c1 where "c1 = ?c0\<lparr>PostFildsData := t, post_buffer := buffers ?S0 + 1\<rparr>"
  define s1 where "s1 = s\<lparr>fread_func_set := Cb_read_callback, is_fread_set := True, in_set := Local ?n, set_method := HTTPREQ_PUT, opt_no_body := False\<rparr>"
  define S1 where "S1 = (?S0\<lparr>buffers := buffers ?S0 + 1\<rparr>)\<lparr>sets := (sets (?S0\<lparr>buffers := buffers ?S0 + 1\<rparr>))(h \<mapsto> s1)\<rparr>"
  note src' = src [folded s1_def, folded c1_def S1_def]
  have c1: "m_curl c1 = Some h" "Type (pDest c1) = ttVariable" "sets S1 h = Some s1" "calls S1 = ?n"
    using assms(2,8) by (simp_all add: c1_def S1_def)
  from run_variable [OF src'(1) c1(1) src'(2) c1(3,2) _ assms(11,10)] obtain s3 where
    3: "core s3 = core (s1\<lparr>set_out := Local ?n, fwrite_func := Cb_curl_swrite\<rparr>)" "lib_ok (S1\<lparr>sets := (sets S1)(h \<mapsto> s3)\<rparr>)"
    and r: "easy_perform P ans c S =
       bindE (request_body P \<lparr>call_no = ?n, wt_text = Some t\<rparr> c1 s1 S1) (\<lambda>body.
       bindE (fclose_if None (S1\<lparr>sets := (sets S1)(h \<mapsto> s3)\<rparr>)) (\<lambda>S5.
         Inr (Some body,
           if a_res ans \<noteq> 0 then (Raises (Not_received (a_res ans) (a_code ans)), c1, S5)
           else (Returns (Number (a_code ans)), c1\<lparr>pDest := (pDest c1)\<lparr>Data := u\<rparr>\<rparr>, S5))))"
    by auto
  define S2 where "S2 = S1\<lparr>sets := (sets S1)(h \<mapsto> s3)\<rparr>"
  have "request_body P \<lparr>call_no = ?n, wt_text = Some t\<rparr> c1 s1 S1 = Inr (Body (if filesize s < 0 then t else take (nat (filesize s)) t))"
    using assms(15) by (simp add: request_body_def upload_body_def upload_text_def infilesize_def s1_def Let_def)
  with r have run: "easy_perform P ans c S = Inr (Some (Body (if filesize s < 0 then t else take (nat (filesize s)) t)),
      if a_res ans \<noteq> 0 then (Raises (Not_received (a_res ans) (a_code ans)), c1, S2)
      else (Returns (Number (a_code ans)), c1\<lparr>pDest := (pDest c1)\<lparr>Data := u\<rparr>\<rparr>, S2))"
    by (simp add: fclose_if_def S2_def)
  have keep: "\<not> isMultipart c1" "Type (pSrc c1) = ttVariable" using assms(4,6) by (simp_all add: c1_def)
  define res where "res = (if a_res ans \<noteq> 0 then Raises (Not_received (a_res ans) (a_code ans)) else Returns (Number (a_code ans)))"
  define c2 where "c2 = (if a_res ans \<noteq> 0 then c1 else c1\<lparr>pDest := (pDest c1)\<lparr>Data := u\<rparr>\<rparr>)"
  have first: "easy_perform P ans c S = Inr (Some (Body (if filesize s < 0 then t else take (nat (filesize s)) t)), res, c2, S2)"
    unfolding run res_def c2_def by simp
  have c2: "m_curl c2 = Some h" "Type (pDest c2) = ttVariable" "\<not> isMultipart c2" "Type (pSrc c2) = ttVariable"
    using keep c1(1,2) by (simp_all add: c2_def)
  have s3: "req_core s3 = req_core s1" using 3(1) by (simp add: core_def req_core_def)
  have "easy_perform P ans2 (c2\<lparr>pSrc := snd (write_Data v (pSrc c2))\<rparr>) S2 = Inl UseAfterFree"
  proof -
    define c3 where "c3 = c2\<lparr>pSrc := snd (write_Data v (pSrc c2))\<rparr>"
    define c4 where "c4 = c3\<lparr>pTrace := (new_CCurlValue ttTrace)\<lparr>Type := ttMsg\<rparr>\<rparr>"
    define S3 where "S3 = S2\<lparr>calls := calls S2 + 1\<rparr>"
    have "perform_source P (calls S2 + 1) c4 S3 = Inr (None, None, \<lparr>call_no = calls S2 + 1, wt_text = None\<rparr>, c4, S3)"
      using c2 assms(14) by (intro source_nothing) (simp_all add: c4_def c3_def write_Data_def)
    moreover have "m_curl c4 = Some h" "lib_ok S3" "sets S3 h = Some s3" "Type (pDest c4) = ttVariable"
      using c2 3(2) by (simp_all add: c4_def c3_def S3_def S2_def write_Data_def)
    ultimately obtain s5 where
      "easy_perform P ans2 c3 S2 =
       bindE (request_body P \<lparr>call_no = calls S2 + 1, wt_text = None\<rparr> c4 s3 S3) (\<lambda>body.
       bindE (fclose_if None (S3\<lparr>sets := (sets S3)(h \<mapsto> s5)\<rparr>)) (\<lambda>S5.
         Inr (Some body,
           if a_res ans2 \<noteq> 0 then (Raises (Not_received (a_res ans2) (a_code ans2)), c4, S5)
           else (Returns (Number (a_code ans2)), c4\<lparr>pDest := (pDest c4)\<lparr>Data := u2\<rparr>\<rparr>, S5))))"
      using run_variable [OF _ _ _ _ _ _ assms(13,12), of S2 c3 None "\<lparr>call_no = calls S2 + 1, wt_text = None\<rparr>" c4 S3 h s3]
      unfolding c4_def S3_def by auto
    moreover have "request_body P \<lparr>call_no = calls S2 + 1, wt_text = None\<rparr> c4 s3 S3 = Inl UseAfterFree"
      unfolding request_body_core [OF s3] using c1(4)
      by (simp add: request_body_def upload_body_def upload_text_def infilesize_def assms(15) s1_def S2_def Let_def)
    ultimately show ?thesis unfolding c3_def by simp
  qed
  with first show ?thesis by blast
qed

theorem upload_outlives_witness:
  "\<exists>r c1 S1. easy_perform sample_platform \<lparr>a_res = 0, a_code = 250, a_chunks = []\<rparr>
      (sample_object\<lparr>isPosting := True, pSrc := (new_CCurlValue ttSrc)\<lparr>Data := bytes_of ''Hi''\<rparr>\<rparr>) sample_process =
      Inr (Some (Body (bytes_of ''Hi'')), r, c1, S1) \<and>
    easy_perform sample_platform \<lparr>a_res = 0, a_code = 250, a_chunks = []\<rparr>
      (c1\<lparr>pSrc := snd (write_Data \<lparr>type_code = 2, str_value = [], num_value = 0\<rparr> (pSrc c1))\<rparr>) S1 = Inl UseAfterFree"
  using upload_outlives [OF sample_process_ok(1), of "sample_object\<lparr>isPosting := True, pSrc := (new_CCurlValue ttSrc)\<lparr>Data := bytes_of ''Hi''\<rparr>\<rparr>" 5
      Curl_init_userdefined sample_platform "bytes_of ''Hi''" "\<lparr>a_res = 0, a_code = 250, a_chunks = []\<rparr>" "[]"
      "\<lparr>a_res = 0, a_code = 250, a_chunks = []\<rparr>" "[]" "\<lparr>type_code = 2, str_value = [], num_value = 0\<rparr>"]
  by (simp add: sample_simps sample_process_ok(2) ANSItoUTF8_def UTF8toANSI_def sample_convert chunks_ok_def chunk_text_def new_CCurlValue_def init_userdefined_simps)

text \<open>
  C0: a method call with a file for the answer never returns a response code to the script.
  When the server answers a plain request and the file could be created, the stream is closed
  twice.
\<close>

theorem perform_into_file:
  fixes S :: "'a process_scheme"
  assumes "Type (pDest c) = ttFile"
  shows "easy_perform P ans c S \<noteq> Inr (b, Returns v, c', S') \<and>
    (lib_ok S \<longrightarrow> m_curl c = Some h \<longrightarrow> sets S h = Some s \<longrightarrow> \<not> isMultipart c \<longrightarrow> set_method s = HTTPREQ_GET \<longrightarrow>
     Type (pSrc c) = ttVariable \<longrightarrow> Data (pSrc c) = [] \<longrightarrow> new_stream P (streams S) = Some p \<longrightarrow>
     may_create P (Data (pDest c)) \<longrightarrow> a_res ans = 0 \<longrightarrow> easy_perform P ans c S = Inl UseAfterFree)"
proof (intro conjI impI)
  let ?c0 = "c\<lparr>pTrace := (new_CCurlValue ttTrace)\<lparr>Type := ttMsg\<rparr>\<rparr>" and ?S0 = "S\<lparr>calls := calls S + 1\<rparr>"
  show "easy_perform P ans c S \<noteq> Inr (b, Returns v, c', S')"
  proof
    assume "easy_perform P ans c S = Inr (b, Returns v, c', S')"
    then obtain fd f c1 S1 fp S2 res data S4 where
      1: "perform_source P (calls S + 1) ?c0 ?S0 = Inr (None, fd, f, c1, S1)" "perform_dest P (calls S + 1) c1 S1 = Inr (None, fp, S2)"
        "perform_finish P fp fd res (a_code ans) data c1 S4 = Inr (Returns v, c', S')"
      by (auto simp: easy_perform_def Let_def bindE_Inr_iff split: option.splits)
    have to_file: "Type (pDest c1) = ttFile" using perform_source_pDest [OF 1(1)] assms by simp
    with 1(2) obtain p where "fp = Some p"
      unfolding perform_dest_def by (auto simp: Let_def bindE_Inr_iff simp del: setopts.simps split: option.splits prod.splits)
    moreover have "res = 0" using 1(3) by (auto simp: perform_finish_def bindE_Inr_iff split: if_splits)
    ultimately show False using finish_file(1) [OF to_file] 1(3) by blast
  qed
  assume a: "lib_ok S" "m_curl c = Some h" "sets S h = Some s" "\<not> isMultipart c" "set_method s = HTTPREQ_GET" "Type (pSrc c) = ttVariable"
    "Data (pSrc c) = []" "new_stream P (streams S) = Some p" "may_create P (Data (pDest c))" "a_res ans = 0"
  have src: "perform_source P (calls S + 1) ?c0 ?S0 = Inr (None, None, \<lparr>call_no = calls S + 1, wt_text = None\<rparr>, ?c0, ?S0)"
    using a by (intro source_nothing) simp_all
  have pre: "lib_ok ?S0" "sets ?S0 h = Some s" "m_curl ?c0 = Some h" "Type (pDest ?c0) = ttFile" "new_stream P (streams ?S0) = Some p"
    "may_create P (Data (pDest ?c0))" using a assms by simp_all
  note dest = dest_file(1) [OF pre, of "calls S + 1"] dest_file(2) [OF pre]
  define s1 where "s1 = s\<lparr>set_out := File p, fwrite_func := Cb_curl_fwrite\<rparr>"
  define S1 where "S1 = ?S0\<lparr>streams := (streams ?S0)(p \<mapsto> Data (pDest ?c0)), disk := (disk ?S0)(Data (pDest ?c0) \<mapsto> [])\<rparr>"
  note dest' = dest [folded s1_def S1_def]
  have s1: "sets (S1\<lparr>sets := (sets S1)(h \<mapsto> s1)\<rparr>) h = Some s1" by simp
  from easy_perform_run [OF src dest'(1) pre(3) dest'(2) s1, of ans] obtain s3 where
    r: "easy_perform P ans c S =
       bindE (request_body P \<lparr>call_no = calls S + 1, wt_text = None\<rparr> ?c0 s1 (S1\<lparr>sets := (sets S1)(h \<mapsto> s1)\<rparr>)) (\<lambda>body.
       bindE (deliver \<lparr>call_no = calls S + 1, wt_text = None\<rparr> s1 (a_chunks ans) (S1\<lparr>sets := (sets S1)(h \<mapsto> s3)\<rparr>)) (\<lambda>(data, S4).
       bindE (perform_finish P (Some p) None (a_res ans) (a_code ans) data ?c0 S4) (\<lambda>(r, c2, S5). Inr (Some body, r, c2, S5))))"
    unfolding sets_twice by blast
  have "request_body P \<lparr>call_no = calls S + 1, wt_text = None\<rparr> ?c0 s1 (S1\<lparr>sets := (sets S1)(h \<mapsto> s1)\<rparr>) = Inr No_body"
    using a(5) by (simp add: request_body_def s1_def)
  moreover obtain data S4 where d: "deliver \<lparr>call_no = calls S + 1, wt_text = None\<rparr> s1 (a_chunks ans) (S1\<lparr>sets := (sets S1)(h \<mapsto> s3)\<rparr>) = Inr (data, S4)"
    "streams S4 p \<noteq> None"
    by (cases "a_chunks ans = []") (auto simp: deliver_def s1_def S1_def append_file_def)
  ultimately show "easy_perform P ans c S = Inl UseAfterFree"
    using r a(10) finish_file(2) [OF pre(4) d(2), of P "a_code ans" data] by simp
qed

theorem perform_into_file_witness:
  "easy_perform sample_platform \<lparr>a_res = 0, a_code = 200, a_chunks = [(bytes_of ''ok'', [0])]\<rparr>
      (sample_object\<lparr>pDest := (new_CCurlValue ttDest)\<lparr>Type := ttFile, Data := bytes_of ''out.txt''\<rparr>\<rparr>) sample_process =
      Inl UseAfterFree"
  using perform_into_file [of "sample_object\<lparr>pDest := (new_CCurlValue ttDest)\<lparr>Type := ttFile, Data := bytes_of ''out.txt''\<rparr>\<rparr>"
      sample_platform "\<lparr>a_res = 0, a_code = 200, a_chunks = [(bytes_of ''ok'', [0])]\<rparr>" sample_process None Nothing sample_object sample_process 5
      Curl_init_userdefined "Suc 0"]
  by (simp add: sample_simps sample_process_ok sample_platform_simps init_userdefined_simps)

end
