(* ===== verification/Script.thy ===== *)
theory Script
imports Perform
begin

text \<open>
  What a script can do with the component: create objects and call their methods, in any order
  and with any values. The invariant says that the pointers of every object lead to what they
  should, although all objects share one state of libcurl and one share.
\<close>

section \<open>Scripts\<close>

datatype script_call =
    Call_easy_init
  | Call_easy_cleanup
  | Call_easy_setopt cvalue cvalue
  | Call_easy_perform answer
  | Call_Debug cvalue
  | Call_Trace cvalue
  | Call_StatusLine cvalue
  | Call_GetHeaders
  | Call_GetStatistics "string \<Rightarrow> int"
  | Call_ClearCache
  | Call_UseCache cvalue cvalue cvalue cvalue
  | Call_mime_init
  | Call_free_all
  | Call_AddPart cvalue cvalue cvalue cvalue
  | Call_Source_Type cvalue
  | Call_Source_Data cvalue
  | Call_Source_Encoding cvalue
  | Call_Dest_Type cvalue
  | Call_Dest_Data cvalue
  | Call_Dest_Encoding cvalue
  | Call_ToUTF8 cvalue
  | Call_FromUTF8 cvalue
  | Call_ToURL cvalue
  | Call_FromURL cvalue
  | Call_ToBase64 cvalue
  | Call_FromBase64 cvalue

definition with_source :: "script_result \<times> CCurlValue \<Rightarrow> CcURL \<Rightarrow> 'a process_scheme \<Rightarrow> (script_result \<times> CcURL \<times> 'a process_scheme) outcome option" where
  "with_source r c S = Some (Inr (fst r, c\<lparr>pSrc := snd r\<rparr>, S))"

definition with_dest :: "script_result \<times> CCurlValue \<Rightarrow> CcURL \<Rightarrow> 'a process_scheme \<Rightarrow> (script_result \<times> CcURL \<times> 'a process_scheme) outcome option" where
  "with_dest r c S = Some (Inr (fst r, c\<lparr>pDest := snd r\<rparr>, S))"

primrec run_call :: "'b platform_scheme \<Rightarrow> script_call \<Rightarrow> CcURL \<Rightarrow> 'a process_scheme \<Rightarrow> (script_result \<times> CcURL \<times> 'a process_scheme) outcome option" where
  "run_call P Call_easy_init c S = Some (Inr (easy_init c S))"
| "run_call P Call_easy_cleanup c S = easy_cleanup P c S"
| "run_call P (Call_easy_setopt v w) c S = easy_setopt P v w c S"
| "run_call P (Call_easy_perform a) c S = Some (bindE (easy_perform P a c S) (\<lambda>(_, r, c1, S1). Inr (r, c1, S1)))"
| "run_call P (Call_Debug v) c S = Some (Debug P v c S)"
| "run_call P (Call_Trace v) c S = Some (Inr (fst (Trace v S), c, snd (Trace v S)))"
| "run_call P (Call_StatusLine v) c S = Some (Inr (fst (StatusLine v c), snd (StatusLine v c), S))"
| "run_call P Call_GetHeaders c S = bindO (GetHeaders c S) (\<lambda>r. Some (Inr (r, c, S)))"
| "run_call P (Call_GetStatistics info) c S = Some (Inr (GetStatistics info, c, S))"
| "run_call P Call_ClearCache c S = Some (bindE (ClearCache P c S) (\<lambda>S1. Inr (Returns Nothing, c, S1)))"
| "run_call P (Call_UseCache p0 p1 p2 p3) c S = Some (bindE (UseCache P p0 p1 p2 p3 c S) (\<lambda>S1. Inr (Returns Nothing, c, S1)))"
| "run_call P Call_mime_init c S = Some (Inr (fst (mime_init c), snd (mime_init c), S))"
| "run_call P Call_free_all c S = Some (Inr (free_all, c, S))"
| "run_call P (Call_AddPart p0 p1 p2 p3) c S = Some (bindE (AddPart P p0 p1 p2 p3 (pCurlMime c) S) (\<lambda>(r, S1). Inr (r, c, S1)))"
| "run_call P (Call_Source_Type v) c S = with_source (write_Type v (pSrc c)) c S"
| "run_call P (Call_Source_Data v) c S = with_source (write_Data v (pSrc c)) c S"
| "run_call P (Call_Source_Encoding v) c S = with_source (write_Encoding v (pSrc c)) c S"
| "run_call P (Call_Dest_Type v) c S = with_dest (write_Type v (pDest c)) c S"
| "run_call P (Call_Dest_Data v) c S = with_dest (write_Data v (pDest c)) c S"
| "run_call P (Call_Dest_Encoding v) c S = with_dest (write_Encoding v (pDest c)) c S"
| "run_call P (Call_ToUTF8 v) c S = Some (bindE (ToUTF8 P v) (\<lambda>r. Inr (r, c, S)))"
| "run_call P (Call_FromUTF8 v) c S = Some (bindE (FromUTF8 P v) (\<lambda>r. Inr (r, c, S)))"
| "run_call P (Call_ToURL v) c S = bindO (ToURL P v) (\<lambda>r. Some (Inr (r, c, S)))"
| "run_call P (Call_FromURL v) c S = Some (bindE (FromURL P v) (\<lambda>r. Inr (r, c, S)))"
| "run_call P (Call_ToBase64 v) c S = Some (bindE (ToBase64 v S) (\<lambda>(r, S1). Inr (r, c, S1)))"
| "run_call P (Call_FromBase64 v) c S = Some (bindE (FromBase64 v S) (\<lambda>(r, S1). Inr (r, c, S1)))"

text \<open>The states that scripts reach from the attached library, with any number of objects.\<close>

type_synonym objects = "nat \<rightharpoonup> CcURL"

inductive script_step :: "'b platform_scheme \<Rightarrow> process \<times> objects \<Rightarrow> process \<times> objects \<Rightarrow> bool" for P where
  create: "C k = None \<Longrightarrow> CcURL_new P posting0 status0 S = Some (Inr (c, S')) \<Longrightarrow> script_step P (S, C) (S', C(k \<mapsto> c))"
| call: "C k = Some c \<Longrightarrow> run_call P f c S = Some (Inr (r, c', S')) \<Longrightarrow> script_step P (S, C) (S', C(k \<mapsto> c'))"

inductive script_reach :: "'b platform_scheme \<Rightarrow> process \<times> objects \<Rightarrow> bool" for P where
  attach: "DllMain_attach P (process_start files) = Inr S \<Longrightarrow> script_reach P (S, Map.empty)"
| step: "script_reach P w \<Longrightarrow> script_step P w w' \<Longrightarrow> script_reach P w'"

text \<open>What the code relies on: an allocator gives memory that is not in use, and there are less than \<open>2 ^ 32\<close> handles.\<close>

definition platform_ok :: "'b platform_scheme \<Rightarrow> bool" where
  "platform_ok P \<longleftrightarrow>
     (\<forall>E h. new_handle P E = Some h \<longrightarrow> E h = None \<and> card (dom E) < 2 ^ 32 - 1) \<and>
     (\<forall>m a. new_share P m = Some a \<longrightarrow> m a = None) \<and>
     (\<forall>m a. new_mime P m = Some a \<longrightarrow> m a = None) \<and>
     fresh (new_node P)"

section \<open>The invariant\<close>

definition list_at :: "'a process_scheme \<Rightarrow> nat option \<Rightarrow> nat list \<Rightarrow> bool" where
  "list_at S p as \<longleftrightarrow> (\<exists>xs. slist_at (lists S) p as xs)"

definition pointers_ok :: "'a process_scheme \<Rightarrow> CcURL \<Rightarrow> bool" where
  "pointers_ok S c \<longleftrightarrow> (\<forall>h. m_curl c = Some h \<longrightarrow>
     (\<exists>s. sets S h = Some s \<and> set_headers s \<in> {None, headers c} \<and> mail_rcpt s \<in> {None, recipients c}))"

definition obj_ok :: "'a process_scheme \<Rightarrow> CcURL \<Rightarrow> nat list \<Rightarrow> nat list \<Rightarrow> bool" where
  "obj_ok S c hs rs \<longleftrightarrow> list_at S (headers c) hs \<and> list_at S (recipients c) rs \<and> distinct (hs @ rs) \<and> pointers_ok S c \<and>
     (\<forall>a. m_mime c = Some a \<longrightarrow> mimes S a \<noteq> None) \<and> p_mime (pCurlMime c) = m_mime c"

definition world_ok :: "'a process_scheme \<Rightarrow> objects \<Rightarrow> bool" where
  "world_ok S C \<longleftrightarrow> lib_ok S \<and> live_share S \<and>
     (\<exists>hs rs. (\<forall>k c. C k = Some c \<longrightarrow> obj_ok S c (hs k) (rs k)) \<and>
        (\<forall>k l c d. C k = Some c \<longrightarrow> C l = Some d \<longrightarrow> k \<noteq> l \<longrightarrow>
           set (hs k @ rs k) \<inter> set (hs l @ rs l) = {} \<and> (m_curl c = None \<or> m_curl c \<noteq> m_curl d)))"

text \<open>What a call may do to the rest of the state: it keeps the lists and handles of all other objects.\<close>

definition step_ok :: "'a process_scheme \<Rightarrow> CcURL \<Rightarrow> nat list \<Rightarrow> nat list \<Rightarrow> 'a process_scheme \<Rightarrow> CcURL \<Rightarrow> bool" where
  "step_ok S c hs rs S' c' \<longleftrightarrow> lib_ok S' \<and> live_share S' \<and>
     (\<exists>hs' rs'. obj_ok S' c' hs' rs' \<and> set (hs' @ rs') \<inter> dom (lists S) \<subseteq> set (hs @ rs)) \<and>
     (\<forall>b. b \<in> dom (lists S) - set (hs @ rs) \<longrightarrow> lists S' b = lists S b) \<and>
     dom (mimes S) \<subseteq> dom (mimes S') \<and>
     (\<forall>k s. Some k \<noteq> m_curl c \<longrightarrow> sets S k = Some s \<longrightarrow>
        (\<exists>s'. sets S' k = Some s' \<and> set_headers s' = set_headers s \<and> mail_rcpt s' = mail_rcpt s)) \<and>
     (m_curl c' = None \<or> m_curl c' = m_curl c \<or> (\<exists>k. m_curl c' = Some k \<and> sets S k = None))"

lemma list_at_dom: "list_at S p as \<Longrightarrow> set as \<subseteq> dom (lists S)"
  unfolding list_at_def using slist_at_dom by blast

lemma list_at_cong: "(\<And>a. a \<in> set as \<Longrightarrow> lists S' a = lists S a) \<Longrightarrow> list_at S p as \<Longrightarrow> list_at S' p as"
  using slist_at_cong [of as "lists S" "lists S'" p] by (auto simp: list_at_def)

lemma obj_ok_dom: "obj_ok S c hs rs \<Longrightarrow> set (hs @ rs) \<subseteq> dom (lists S)"
  unfolding obj_ok_def set_append using list_at_dom by blast

lemma obj_ok_other:
  assumes "step_ok S c hs rs S' c'" "obj_ok S d as bs" "set (as @ bs) \<inter> set (hs @ rs) = {}" "m_curl d = None \<or> m_curl d \<noteq> m_curl c"
  shows "obj_ok S' d as bs"
proof -
  have same: "lists S' b = lists S b" if "b \<in> set (as @ bs)" for b
    using assms(1,3) obj_ok_dom [OF assms(2)] that unfolding step_ok_def by blast
  then have "list_at S' (headers d) as" "list_at S' (recipients d) bs"
    using assms(2) by (auto simp: obj_ok_def intro: list_at_cong [of _ S' S])
  moreover have "pointers_ok S' d"
    using assms(1,2,4) unfolding pointers_ok_def step_ok_def obj_ok_def by fastforce
  moreover have "\<forall>a. m_mime d = Some a \<longrightarrow> mimes S' a \<noteq> None"
    using assms(1,2) unfolding step_ok_def obj_ok_def by (meson domIff subset_iff)
  ultimately show ?thesis using assms(2) by (simp add: obj_ok_def)
qed

lemma world_ok_step:
  assumes "world_ok S C" "\<And>hs rs. C k = Some c \<Longrightarrow> obj_ok S c hs rs \<Longrightarrow> step_ok S c hs rs S' c'" "C k = Some c"
  shows "world_ok S' (C(k \<mapsto> c'))"
proof -
  from assms(1) obtain hs rs where w: "\<And>l d. C l = Some d \<Longrightarrow> obj_ok S d (hs l) (rs l)"
    "\<And>l m d e. C l = Some d \<Longrightarrow> C m = Some e \<Longrightarrow> l \<noteq> m \<Longrightarrow>
       set (hs l @ rs l) \<inter> set (hs m @ rs m) = {} \<and> (m_curl d = None \<or> m_curl d \<noteq> m_curl e)"
    unfolding world_ok_def by blast
  have st: "step_ok S c (hs k) (rs k) S' c'" by (rule assms(2) [OF assms(3) w(1) [OF assms(3)]])
  then obtain hs' rs' where new: "obj_ok S' c' hs' rs'" "set (hs' @ rs') \<inter> dom (lists S) \<subseteq> set (hs k @ rs k)"
    unfolding step_ok_def by blast
  define H where "H = hs(k := hs')"
  define R where "R = rs(k := rs')"
  have other: "obj_ok S' d (hs l) (rs l)" if "C l = Some d" "l \<noteq> k" for l d
  proof (rule obj_ok_other [OF st w(1) [OF that(1)]])
    show "set (hs l @ rs l) \<inter> set (hs k @ rs k) = {}" "m_curl d = None \<or> m_curl d \<noteq> m_curl c"
      using w(2) [OF that(1) assms(3) that(2)] by auto
  qed
  have objs: "obj_ok S' d (H l) (R l)" if "(C(k \<mapsto> c')) l = Some d" for l d
    using that new(1) other [of l d] by (cases "l = k") (auto simp: H_def R_def)
  have apart: "set (hs' @ rs') \<inter> set (hs l @ rs l) = {}" "m_curl d = None \<or> m_curl d \<noteq> m_curl c'" if l: "C l = Some d" "l \<noteq> k" for l d
  proof -
    have "set (hs l @ rs l) \<subseteq> dom (lists S)" by (rule obj_ok_dom [OF w(1) [OF l(1)]])
    moreover have "set (hs l @ rs l) \<inter> set (hs k @ rs k) = {}" using w(2) [OF l(1) assms(3) l(2)] by blast
    ultimately show "set (hs' @ rs') \<inter> set (hs l @ rs l) = {}" using new(2) by blast
    have "m_curl d = None \<or> (\<exists>h. m_curl d = Some h \<and> sets S h \<noteq> None)"
      using w(1) [OF l(1)] unfolding obj_ok_def pointers_ok_def by (cases "m_curl d") auto
    moreover have "m_curl c' = None \<or> m_curl c' = m_curl c \<or> (\<exists>h. m_curl c' = Some h \<and> sets S h = None)"
      using st unfolding step_ok_def by blast
    ultimately show "m_curl d = None \<or> m_curl d \<noteq> m_curl c'" using w(2) [OF l(1) assms(3) l(2)] by auto
  qed
  have "set (H l @ R l) \<inter> set (H m @ R m) = {} \<and> (m_curl d = None \<or> m_curl d \<noteq> m_curl e)"
    if lm: "(C(k \<mapsto> c')) l = Some d" "(C(k \<mapsto> c')) m = Some e" "l \<noteq> m" for l m d e
  proof (cases "l = k")
    case True
    with lm have "C m = Some e" "m \<noteq> k" "d = c'" by auto
    with apart [OF this(1,2)] True lm(3) show ?thesis by (auto simp: H_def R_def)
  next
    case False
    show ?thesis
    proof (cases "m = k")
      case True
      with lm False have "C l = Some d" "e = c'" by auto
      with apart [OF this(1) False] True False show ?thesis by (auto simp: H_def R_def)
    next
      case m: False
      with lm False w(2) [of l d m e] show ?thesis by (simp add: H_def R_def)
    qed
  qed
  with objs st show ?thesis unfolding world_ok_def step_ok_def by blast
qed

section \<open>Calls\<close>

lemma quiet_step:
  assumes "quiet S S'" "same_keys c c'" "obj_ok S c hs rs" "live_share S"
  shows "step_ok S c hs rs S' c'"
proof -
  have hd: "sets S' k = Some s' \<Longrightarrow> sets S k = Some s \<Longrightarrow> set_headers s' = set_headers s \<and> mail_rcpt s' = mail_rcpt s" for k s s'
    using assms(1) unfolding quiet_def by (metis option.map(2) option.inject)
  have dom: "\<exists>s'. sets S' k = Some s'" if "sets S k = Some s" for k s
    using assms(1) that unfolding quiet_def by (metis option.map_disc_iff not_None_eq option.distinct(1))
  have sets: "\<exists>s'. sets S' k = Some s' \<and> set_headers s' = set_headers s \<and> mail_rcpt s' = mail_rcpt s" if "sets S k = Some s" for k s
    using dom [OF that] hd that by blast
  have l: "lists S' = lists S" "CurlShare S' = CurlShare S" "lib_ok S'" "dom (mimes S) \<subseteq> dom (mimes S')" "dom (shares S) \<subseteq> dom (shares S')"
    using assms(1) by (auto simp: quiet_def)
  have "live_share S'" using assms(4) l(2,5) unfolding live_share_def by (metis domIff subset_iff)
  moreover have "pointers_ok S' c'"
    unfolding pointers_ok_def
  proof (intro allI impI)
    fix h assume "m_curl c' = Some h"
    then obtain s where s: "sets S h = Some s" "set_headers s \<in> {None, headers c}" "mail_rcpt s \<in> {None, recipients c}"
      using assms(2,3) unfolding obj_ok_def pointers_ok_def same_keys_def by auto
    from sets [OF s(1)] s(2,3) assms(2) show "\<exists>s. sets S' h = Some s \<and> set_headers s \<in> {None, headers c'} \<and> mail_rcpt s \<in> {None, recipients c'}"
      unfolding same_keys_def by auto
  qed
  moreover have "\<forall>a. m_mime c' = Some a \<longrightarrow> mimes S' a \<noteq> None"
    using assms(2,3) l(4) unfolding obj_ok_def same_keys_def by (metis domIff subset_iff)
  ultimately have "obj_ok S' c' hs rs" using assms(2,3) l(1) by (simp add: obj_ok_def same_keys_def list_at_def)
  with \<open>live_share S'\<close> l sets assms(2) show ?thesis unfolding step_ok_def same_keys_def by auto
qed

lemma append_list:
  assumes "fresh (new_node P)" "list_at S p as" "distinct as"
  shows "\<exists>p' l as'. slist_append P p text S = Some (Inr (p', S\<lparr>lists := l\<rparr>)) \<and> list_at (S\<lparr>lists := l\<rparr>) p' as' \<and> distinct as' \<and>
    set as' \<inter> dom (lists S) \<subseteq> set as \<and> (\<forall>b. b \<in> dom (lists S) - set as \<longrightarrow> l b = lists S b)"
proof -
  obtain xs where xs: "slist_at (lists S) p as xs" using assms(2) by (auto simp: list_at_def)
  have nil: "\<exists>xs. slist_at l None [] xs" for l by (rule exI [of _ "[]"]) simp
  consider (ok) b where "alloc P (strlen text + 1)" "new_node P (lists S) = Some b" | (fail) "\<not> alloc P (strlen text + 1) \<or> new_node P (lists S) = None"
    by (cases "new_node P (lists S)") auto
  then show ?thesis
  proof cases
    case ok
    from slist_append_ok [OF assms(1) xs assms(3) ok(2), where x = "text"] obtain l p' where
      app: "curl_slist_append (new_node P) True (lists S) p text = Some (Inr (l, p'))" "slist_at l p' (as @ [b]) (xs @ [c_str text])"
      "distinct (as @ [b])" "\<forall>c. c \<notin> set (as @ [b]) \<longrightarrow> l c = lists S c" by blast
    have b: "lists S b = None" using assms(1) ok(2) by (auto simp: fresh_def)
    then have "c \<noteq> b" if "c \<in> dom (lists S)" for c using that by auto
    with app(4) have "\<forall>c. c \<in> dom (lists S) - set as \<longrightarrow> l c = lists S c" by simp
    with app(1-3) b ok(1) show ?thesis
      by (intro exI [of _ p'] exI [of _ l] exI [of _ "as @ [b]"]) (auto simp: slist_append_def list_at_def)
  next
    case fail
    then have "curl_slist_append (new_node P) (alloc P (strlen text + 1)) (lists S) p text = Some (Inr (lists S, None))"
      by (auto simp: curl_slist_append_def Curl_slist_append_nodup_def)
    then show ?thesis using nil
      by (intro exI [of _ None] exI [of _ "lists S"] exI [of _ "[]"]) (simp add: slist_append_def list_at_def)
  qed
qed

lemma free_list:
  assumes "list_at S p as" "distinct as"
  shows "slist_free p S = Some (Inr (S\<lparr>lists := lists S |` (- set as)\<rparr>))"
  using assms slist_free_all_ok by (fastforce simp: slist_free_def list_at_def)

lemma lib_ok_lists [simp]: "lib_ok (S\<lparr>lists := l\<rparr>) = lib_ok S"
  by (simp add: lib_ok_def bound_def posting_def)

lemma set_list_option:
  assumes "lib_ok S" "\<forall>h. m_curl c = Some h \<longrightarrow> sets S h \<noteq> None" "i = CURLOPT_HTTPHEADER \<or> i = CURLOPT_MAIL_RCPT"
  shows "\<exists>F. setopts P (m_curl c) [(i, ASlist p)] S = Inr (S\<lparr>sets := F\<rparr>) \<and> lib_ok (S\<lparr>sets := F\<rparr>) \<and>
    (\<forall>k. Some k \<noteq> m_curl c \<longrightarrow> F k = sets S k) \<and>
    (\<forall>h s. m_curl c = Some h \<longrightarrow> sets S h = Some s \<longrightarrow>
       F h = Some (if i = CURLOPT_HTTPHEADER then s\<lparr>set_headers := p\<rparr> else s\<lparr>mail_rcpt := p\<rparr>))"
proof (cases "m_curl c")
  case None
  with assms(1) show ?thesis by (intro exI [of _ "sets S"]) (simp add: setopts_None del: setopts.simps)
next
  case (Some h)
  with assms(2) obtain s where s: "sets S h = Some s" by auto
  define s' where "s' = (if i = CURLOPT_HTTPHEADER then s\<lparr>set_headers := p\<rparr> else s\<lparr>mail_rcpt := p\<rparr>)"
  have "plain_opts P [(i, ASlist p)] s = Some s'" using assms(3) by (auto simp: opts s'_def)
  from setopts_plain [OF assms(1) s this] Some s show ?thesis
    by (intro exI [of _ "(sets S)(h \<mapsto> s')"]) (simp add: s'_def del: setopts.simps)
qed

end
