(* ===== verification/Script_Invariant.thy ===== *)
theory Script_Invariant
imports Script
begin

text \<open>
  The invariant of \<open>Script\<close> holds in every state that scripts reach: one lemma for each method that
  changes lists, handles, the share or parts says that it returns and what it keeps of the other objects.
\<close>

section \<open>The methods that change lists and handles\<close>

lemma obj_okD:
  assumes "obj_ok S c hs rs"
  shows "list_at S (headers c) hs" "list_at S (recipients c) rs" "distinct hs" "distinct rs" "set hs \<inter> set rs = {}"
    "pointers_ok S c" "m_mime c = Some a \<Longrightarrow> mimes S a \<noteq> None" "p_mime (pCurlMime c) = m_mime c"
  using assms by (auto simp: obj_ok_def)

lemma step_okI:
  assumes "lib_ok S'" "live_share S'" "obj_ok S' c' hs' rs'" "set (hs' @ rs') \<inter> dom (lists S) \<subseteq> set (hs @ rs)"
    "\<And>b. b \<in> dom (lists S) \<Longrightarrow> b \<notin> set (hs @ rs) \<Longrightarrow> lists S' b = lists S b" "dom (mimes S) \<subseteq> dom (mimes S')"
    "\<And>k s. Some k \<noteq> m_curl c \<Longrightarrow> sets S k = Some s \<Longrightarrow> \<exists>s'. sets S' k = Some s' \<and> set_headers s' = set_headers s \<and> mail_rcpt s' = mail_rcpt s"
    "m_curl c' = None \<or> m_curl c' = m_curl c \<or> (\<exists>k. m_curl c' = Some k \<and> sets S k = None)"
  shows "step_ok S c hs rs S' c'"
  using assms unfolding step_ok_def by blast

lemma pointers_okD:
  assumes "pointers_ok S c" "m_curl c = Some h"
  obtains s where "sets S h = Some s" "set_headers s \<in> {None, headers c}" "mail_rcpt s \<in> {None, recipients c}"
  using assms by (auto simp: pointers_ok_def)

lemma platform_okD:
  assumes "platform_ok P"
  shows "new_handle P E = Some h \<Longrightarrow> E h = None" "new_handle P E = Some h \<Longrightarrow> card (dom E) < 2 ^ 32 - 1"
    "\<forall>sh a. new_share P sh = Some a \<longrightarrow> sh a = None" "new_mime P M = Some a \<Longrightarrow> M a = None" "fresh (new_node P)"
  using assms by (auto simp: platform_ok_def)

lemma live_share_upd [simp]:
  "live_share (S\<lparr>lists := l\<rparr>) = live_share S"
  "live_share (S\<lparr>sets := F\<rparr>) = live_share S"
  by (simp_all add: live_share_def)

text \<open>Adding a header.\<close>

lemma add_header:
  assumes "platform_ok P" "lib_ok S" "live_share S" "obj_ok S c hs rs"
  shows "\<exists>p S'. setopt_list P CURLOPT_HTTPHEADER (headers c) t c S = Some (Inr (p, S')) \<and> step_ok S c hs rs S' (c\<lparr>headers := p\<rparr>)"
proof -
  note o = obj_okD [OF assms(4)]
  from append_list [OF platform_okD(5) [OF assms(1)] o(1,3), of t] obtain p l hs' where
    1: "slist_append P (headers c) t S = Some (Inr (p, S\<lparr>lists := l\<rparr>))" "list_at (S\<lparr>lists := l\<rparr>) p hs'" "distinct hs'"
      "set hs' \<inter> dom (lists S) \<subseteq> set hs" "\<forall>b. b \<in> dom (lists S) - set hs \<longrightarrow> l b = lists S b" by blast
  let ?S1 = "S\<lparr>lists := l\<rparr>"
  have "\<forall>h. m_curl c = Some h \<longrightarrow> sets ?S1 h \<noteq> None" using o(6) by (auto simp: pointers_ok_def)
  from set_list_option [OF _ this, of CURLOPT_HTTPHEADER P p] assms(2) obtain F where
    2: "setopts P (m_curl c) [(CURLOPT_HTTPHEADER, ASlist p)] ?S1 = Inr (?S1\<lparr>sets := F\<rparr>)" "lib_ok (?S1\<lparr>sets := F\<rparr>)"
      "\<forall>k. Some k \<noteq> m_curl c \<longrightarrow> F k = sets S k"
      "\<forall>h s. m_curl c = Some h \<longrightarrow> sets S h = Some s \<longrightarrow> F h = Some (s\<lparr>set_headers := p\<rparr>)" by auto
  let ?S2 = "?S1\<lparr>sets := F\<rparr>"
  have rs: "set rs \<subseteq> dom (lists S)" by (rule list_at_dom [OF o(2)])
  have "list_at ?S2 (recipients c) rs"
    using o(2,5) rs 1(5) by (intro list_at_cong [of rs ?S2 S]) (auto simp: disjoint_iff)
  moreover have "list_at ?S2 p hs'" using 1(2) by (simp add: list_at_def)
  moreover have "set hs' \<inter> set rs = {}" using 1(4) rs o(5) by blast
  moreover have "pointers_ok ?S2 (c\<lparr>headers := p\<rparr>)"
    using o(6) 2(4) unfolding pointers_ok_def by fastforce
  ultimately have "obj_ok ?S2 (c\<lparr>headers := p\<rparr>) hs' rs" using o(4,7,8) 1(3) by (simp add: obj_ok_def)
  moreover have "set (hs' @ rs) \<inter> dom (lists S) \<subseteq> set (hs @ rs)" using 1(4) by auto
  ultimately have "step_ok S c hs rs ?S2 (c\<lparr>headers := p\<rparr>)"
    using 1(5) 2(2,3) assms(3) unfolding step_ok_def by auto
  moreover have "setopt_list P CURLOPT_HTTPHEADER (headers c) t c S = Some (Inr (p, ?S2))"
    unfolding setopt_list_def 1(1) by (simp add: 2(1) del: setopts.simps)
  ultimately show ?thesis by blast
qed

lemma add_recipient:
  assumes "platform_ok P" "lib_ok S" "live_share S" "obj_ok S c hs rs"
  shows "\<exists>p S'. setopt_list P CURLOPT_MAIL_RCPT (recipients c) t c S = Some (Inr (p, S')) \<and>
    step_ok S c hs rs S' (c\<lparr>recipients := p, isPosting := True\<rparr>)"
proof -
  note o = obj_okD [OF assms(4)]
  from append_list [OF platform_okD(5) [OF assms(1)] o(2,4), of t] obtain p l rs' where
    1: "slist_append P (recipients c) t S = Some (Inr (p, S\<lparr>lists := l\<rparr>))" "list_at (S\<lparr>lists := l\<rparr>) p rs'" "distinct rs'"
      "set rs' \<inter> dom (lists S) \<subseteq> set rs" "\<forall>b. b \<in> dom (lists S) - set rs \<longrightarrow> l b = lists S b" by blast
  let ?S1 = "S\<lparr>lists := l\<rparr>" and ?c = "c\<lparr>recipients := p, isPosting := True\<rparr>"
  have "\<forall>h. m_curl c = Some h \<longrightarrow> sets ?S1 h \<noteq> None" using o(6) by (auto simp: pointers_ok_def)
  from set_list_option [OF _ this, of CURLOPT_MAIL_RCPT P p] assms(2) obtain F where
    2: "setopts P (m_curl c) [(CURLOPT_MAIL_RCPT, ASlist p)] ?S1 = Inr (?S1\<lparr>sets := F\<rparr>)" "lib_ok (?S1\<lparr>sets := F\<rparr>)"
      "\<forall>k. Some k \<noteq> m_curl c \<longrightarrow> F k = sets S k"
      "\<forall>h s. m_curl c = Some h \<longrightarrow> sets S h = Some s \<longrightarrow> F h = Some (s\<lparr>mail_rcpt := p\<rparr>)" by auto
  let ?S2 = "?S1\<lparr>sets := F\<rparr>"
  have hs: "set hs \<subseteq> dom (lists S)" by (rule list_at_dom [OF o(1)])
  have "list_at ?S2 (headers c) hs"
    using o(1,5) hs 1(5) by (intro list_at_cong [of hs ?S2 S]) (auto simp: disjoint_iff)
  moreover have "list_at ?S2 p rs'" using 1(2) by (simp add: list_at_def)
  moreover have "set hs \<inter> set rs' = {}" using 1(4) hs o(5) by blast
  moreover have "pointers_ok ?S2 ?c"
    using o(6) 2(4) unfolding pointers_ok_def by fastforce
  ultimately have "obj_ok ?S2 ?c hs rs'" using o(3,7,8) 1(3) by (simp add: obj_ok_def)
  moreover have "set (hs @ rs') \<inter> dom (lists S) \<subseteq> set (hs @ rs)" using 1(4) by auto
  ultimately have "step_ok S c hs rs ?S2 ?c"
    using 1(5) 2(2,3) assms(3) unfolding step_ok_def by auto
  moreover have "setopt_list P CURLOPT_MAIL_RCPT (recipients c) t c S = Some (Inr (p, ?S2))"
    unfolding setopt_list_def 1(1) by (simp add: 2(1) del: setopts.simps)
  ultimately show ?thesis by blast
qed

text \<open>A new handle, with the default options.\<close>

lemma default_plain: "\<exists>s'. plain_opts P default_options Curl_init_userdefined = Some s' \<and> set_headers s' = None \<and> mail_rcpt s' = None"
  "\<exists>s'. plain_opts P (default_options @ [(CURLOPT_FOLLOWLOCATION, ALong 1)]) Curl_init_userdefined = Some s' \<and> set_headers s' = None \<and> mail_rcpt s' = None"
  by (simp_all add: default_options_def opts) (simp_all add: Curl_init_userdefined_def)

lemma new_handle_ok:
  assumes "platform_ok P" "lib_ok S"
  shows "\<exists>h E F. curl_easy_init (new_handle P (links S)) S = (h, S\<lparr>links := E, sets := F\<rparr>) \<and> lib_ok (S\<lparr>links := E, sets := F\<rparr>) \<and>
    (\<forall>k s. sets S k = Some s \<longrightarrow> F k = Some s) \<and> (\<forall>k. h = Some k \<longrightarrow> sets S k = None \<and> F k = Some Curl_init_userdefined)"
proof (cases "new_handle P (links S)")
  case None
  with assms(2) show ?thesis by (intro exI [of _ None] exI [of _ "links S"] exI [of _ "sets S"]) (simp add: curl_easy_init_def)
next
  case (Some h)
  note n = platform_okD(1,2) [OF assms(1) Some]
  have "sets S h = None" using n(1) lib_okD(2) [OF assms(2)] by (metis domIff)
  then show ?thesis using Some easy_init_ok [OF assms(2) n]
    by (intro exI [of _ "Some h"] exI [of _ "(links S)(h \<mapsto> new_easy)"] exI [of _ "(sets S)(h \<mapsto> Curl_init_userdefined)"]) auto
qed

lemma default_setopts:
  assumes "lib_ok S" "\<forall>k. h = Some k \<longrightarrow> sets S k = Some Curl_init_userdefined"
    "\<exists>s'. plain_opts P os Curl_init_userdefined = Some s' \<and> set_headers s' = None \<and> mail_rcpt s' = None"
  shows "\<exists>F. setopts P h os S = Inr (S\<lparr>sets := F\<rparr>) \<and> lib_ok (S\<lparr>sets := F\<rparr>) \<and> (\<forall>k. Some k \<noteq> h \<longrightarrow> F k = sets S k) \<and>
    (\<forall>k. h = Some k \<longrightarrow> (\<exists>s. F k = Some s \<and> set_headers s = None \<and> mail_rcpt s = None))"
proof (cases h)
  case None
  with assms(1) show ?thesis by (intro exI [of _ "sets S"]) (simp add: setopts_None)
next
  case (Some k)
  with assms(2) have k: "sets S k = Some Curl_init_userdefined" by simp
  from assms(3) obtain s' where s': "plain_opts P os Curl_init_userdefined = Some s'" "set_headers s' = None" "mail_rcpt s' = None" by blast
  from setopts_plain [OF assms(1) k s'(1)] Some s'(2,3) show ?thesis
    by (intro exI [of _ "(sets S)(k \<mapsto> s')"]) auto
qed

lemma easy_cleanup_ok:
  assumes "platform_ok P" "lib_ok S" "live_share S" "obj_ok S c hs rs"
  shows "\<exists>c' S'. easy_cleanup P c S = Some (Inr (Returns Nothing, c', S')) \<and> step_ok S c hs rs S' c' \<and>
    headers c' = None \<and> recipients c' = None \<and> lists S' = lists S |` (- set (hs @ rs))"
proof -
  note o = obj_okD [OF assms(4)]
  let ?S1 = "S\<lparr>lists := lists S |` (- set hs)\<rparr>"
  define S2 where "S2 = S\<lparr>lists := lists S |` (- set (hs @ rs))\<rparr>"
  have f1: "slist_free (headers c) S = Some (Inr ?S1)" by (rule free_list [OF o(1,3)])
  have "list_at ?S1 (recipients c) rs"
    using o(2,5) by (intro list_at_cong [of rs ?S1 S]) (auto simp: restrict_map_def disjoint_iff)
  from free_list [OF this o(4)] have f2: "slist_free (recipients c) ?S1 = Some (Inr S2)"
    by (simp add: S2_def Int_commute)
  have "lib_ok S2" using assms(2) by (simp add: S2_def)
  from new_handle_ok [OF assms(1) this] obtain h E F where
    3: "curl_easy_init (new_handle P (links S2)) S2 = (h, S2\<lparr>links := E, sets := F\<rparr>)" "lib_ok (S2\<lparr>links := E, sets := F\<rparr>)"
      "\<forall>k s. sets S2 k = Some s \<longrightarrow> F k = Some s" "\<forall>k. h = Some k \<longrightarrow> sets S2 k = None \<and> F k = Some Curl_init_userdefined" by blast
  from default_setopts [OF 3(2) _ default_plain(1), of h P] 3(4) obtain G where
    4: "setopts P h default_options (S2\<lparr>links := E, sets := F\<rparr>) = Inr (S2\<lparr>links := E, sets := G\<rparr>)" "lib_ok (S2\<lparr>links := E, sets := G\<rparr>)"
      "\<forall>k. Some k \<noteq> h \<longrightarrow> G k = F k" "\<forall>k. h = Some k \<longrightarrow> (\<exists>s. G k = Some s \<and> set_headers s = None \<and> mail_rcpt s = None)" by auto
  let ?S4 = "S2\<lparr>links := E, sets := G\<rparr>" and ?c = "c\<lparr>headers := None, recipients := None, m_curl := h\<rparr>"
  have "easy_cleanup P c S = Some (Inr (Returns Nothing, ?c, ?S4))"
    unfolding easy_cleanup_def f1 bindO_simps f2 3(1) prod.case Let_def 4(1) ..
  moreover have "list_at ?S4 None []" unfolding list_at_def by (rule exI [of _ "[]"]) simp
  then have obj: "obj_ok ?S4 ?c [] []"
    using o(7,8) 4(4) by (auto simp: obj_ok_def pointers_ok_def S2_def)
  have keep: "\<exists>s'. sets ?S4 k = Some s' \<and> set_headers s' = set_headers s \<and> mail_rcpt s' = mail_rcpt s" if "sets S k = Some s" for k s
    using that 3(3,4) 4(3) by (cases "Some k = h") (auto simp: S2_def)
  have live: "live_share ?S4" using assms(3) by (simp add: live_share_def S2_def)
  have curl: "m_curl ?c = None \<or> (\<exists>k. m_curl ?c = Some k \<and> sets S k = None)" using 3(4) by (cases h) (auto simp: S2_def)
  have "step_ok S c hs rs ?S4 ?c"
  proof (rule step_okI [OF 4(2) live obj])
    show "lists ?S4 b = lists S b" if "b \<notin> set (hs @ rs)" for b using that by (simp add: S2_def restrict_map_def)
    show "m_curl ?c = None \<or> m_curl ?c = m_curl c \<or> (\<exists>k. m_curl ?c = Some k \<and> sets S k = None)" using curl by blast
    show "dom (mimes S) \<subseteq> dom (mimes ?S4)" by (simp add: S2_def)
  qed (use keep in simp_all)
  moreover have "lists ?S4 = lists S |` (- set (hs @ rs))" by (simp add: S2_def)
  ultimately show ?thesis by (intro exI [of _ ?c] exI [of _ ?S4]) simp
qed

text \<open>The cache.\<close>

lemma cache_step:
  fixes S S0 :: "'a process_scheme"
  assumes "platform_ok P" "lib_ok S" "live_share S" "obj_ok S c hs rs"
    "S0 = S\<lparr>bNeedInitCache := b0, bUseCacheDNS := b1, bUseCacheCONNECT := b2, bUseCacheSSL := b3, bUseCacheCOOKIE := b4\<rparr>"
  shows "\<exists>S'. AssignCurlCache P (m_curl c) S0 = Inr S' \<and> step_ok S c hs rs S' c"
proof -
  note o = obj_okD [OF assms(4)]
  have "lib_ok S0" "live_share S0" using assms(2,3) by (simp_all add: assms(5) lib_ok_def bound_def posting_def live_share_def)
  moreover have "\<forall>k. m_curl c = Some k \<longrightarrow> sets S0 k \<noteq> None" using o(6) by (auto simp: pointers_ok_def assms(5))
  ultimately obtain S' where S': "AssignCurlCache P (m_curl c) S0 = Inr S'" "lib_ok S'" "live_share S'" "sets S' = sets S" "mimes S' = mimes S" "lists S' = lists S"
    using AssignCurlCache_ok [of S0 "m_curl c" P] platform_okD(3) [OF assms(1)] by (auto simp: assms(5))
  have "obj_ok S' c hs rs" using assms(4) S'(4-6) by (simp add: obj_ok_def list_at_def pointers_ok_def)
  with S' show ?thesis by (intro exI [of _ S'] conjI step_okI [of S' c hs rs]) auto
qed

lemma ClearCache_step:
  fixes S :: "'a process_scheme"
  assumes "platform_ok P" "lib_ok S" "live_share S" "obj_ok S c hs rs"
  shows "\<exists>S'. ClearCache P c S = Inr S' \<and> step_ok S c hs rs S' c"
  unfolding ClearCache_def
  by (rule cache_step [OF assms, where ?b0.0 = True and ?b1.0 = "bUseCacheDNS S" and ?b2.0 = "bUseCacheCONNECT S"
    and ?b3.0 = "bUseCacheSSL S" and ?b4.0 = "bUseCacheCOOKIE S"]) simp

lemma UseCache_step:
  fixes S :: "'a process_scheme"
  assumes "platform_ok P" "lib_ok S" "live_share S" "obj_ok S c hs rs"
  shows "\<exists>S'. UseCache P p0 p1 p2 p3 c S = Inr S' \<and> step_ok S c hs rs S' c"
  unfolding UseCache_def by (rule cache_step [OF assms]) simp

text \<open>Parts.\<close>

lemma bindE_some: "\<exists>r. X = Inr r \<Longrightarrow> \<exists>r. bindE X f = f r"
  by auto

lemma part_data: "\<exists>r. (if text = [] then Inr p else bindE (curl_mime_data b p (Some text) None) (\<lambda>(_, p). Inr p)) = Inr r"
  using length_c_str_le [of "text"] by (cases p) (auto simp: curl_mime_data_def strlen_def Let_def)

lemma AddPart_step:
  fixes S :: "'a process_scheme"
  assumes "lib_ok S" "live_share S" "obj_ok S c hs rs"
  shows "\<exists>S'. AddPart P p0 p1 p2 p3 (pCurlMime c) S = Inr (Returns Nothing, S') \<and> step_ok S c hs rs S' c"
proof (cases "m_mime c")
  case None
  then have "p_mime (pCurlMime c) = None" using obj_okD(8) [OF assms(3)] by simp
  then have "AddPart P p0 p1 p2 p3 (pCurlMime c) S = Inr (Returns Nothing, S)"
    by (simp add: AddPart_def curl_mime_addpart_def curl_mime_name_def part_file_def curl_mime_filename_def curl_mime_filedata_def
      curl_mime_type_def curl_mime_data_def Let_def)
  moreover have "step_ok S c hs rs S c" using assms by (intro quiet_step [OF quiet_refl]) (simp_all add: same_keys_def)
  ultimately show ?thesis by blast
next
  case (Some a)
  then have a: "p_mime (pCurlMime c) = Some a" "mimes S a \<noteq> None" using obj_okD(7,8) [OF assms(3)] by simp_all
  then obtain mi where mi: "mimes S a = Some mi" by auto
  obtain part ps where 1: "curl_mime_addpart (alloc P 128) (Some a) S = Inr (part, S\<lparr>mimes := (mimes S)(a \<mapsto> mi\<lparr>mime_parts := ps\<rparr>)\<rparr>)"
  proof (cases "alloc P 128")
    case True
    with mi that show ?thesis by (simp add: curl_mime_addpart_def)
  next
    case False
    have "S\<lparr>mimes := (mimes S)(a \<mapsto> mi\<lparr>mime_parts := mime_parts mi\<rparr>)\<rparr> = S" using mi by (simp add: fun_upd_idem)
    with False mi that [of None "mime_parts mi"] show ?thesis by (simp add: curl_mime_addpart_def)
  qed
  let ?S1 = "S\<lparr>mimes := (mimes S)(a \<mapsto> mi\<lparr>mime_parts := ps\<rparr>)\<rparr>"
  have "\<exists>part4. AddPart P p0 p1 p2 p3 (pCurlMime c) S =
      bindE (case (Some a, part4) of (Some a, Some p) \<Rightarrow> set_last_part a p ?S1 | _ \<Rightarrow> Inr ?S1) (\<lambda>S2. Inr (Returns Nothing, S2))"
    unfolding AddPart_def a(1) 1 bindE_simps prod.case Let_def by (rule bindE_some) (rule part_data)
  then obtain part4 where 2: "AddPart P p0 p1 p2 p3 (pCurlMime c) S =
      bindE (case (Some a, part4) of (Some a, Some p) \<Rightarrow> set_last_part a p ?S1 | _ \<Rightarrow> Inr ?S1) (\<lambda>S2. Inr (Returns Nothing, S2))" ..
  obtain qs where 3: "(case (Some a, part4) of (Some a, Some p) \<Rightarrow> set_last_part a p ?S1 | _ \<Rightarrow> Inr ?S1) =
      Inr (S\<lparr>mimes := (mimes S)(a \<mapsto> mi\<lparr>mime_parts := qs\<rparr>)\<rparr>)"
    by (cases part4) (auto simp: set_last_part_def)
  let ?S2 = "S\<lparr>mimes := (mimes S)(a \<mapsto> mi\<lparr>mime_parts := qs\<rparr>)\<rparr>"
  have "quiet S ?S2" using set_parts_ok [OF assms(1) mi] mi by (auto simp: quiet_def)
  then have "step_ok S c hs rs ?S2 c" using assms by (intro quiet_step) (simp_all add: same_keys_def)
  with 2 3 show ?thesis by (intro exI [of _ ?S2]) simp
qed

text \<open>Setting an option.\<close>

lemma easy_setopt_step:
  assumes "platform_ok P" "lib_ok S" "live_share S" "obj_ok S c hs rs" "easy_setopt P v w c S = Some (Inr (r, c', S'))"
  shows "step_ok S c hs rs S' c'"
proof (cases "curl_options_from_string (str_value v)")
  case (Inl f)
  with assms(5) have "c' = c" "S' = S" by (auto simp: easy_setopt_def Let_def split: fault.splits)
  with assms(2-4) show ?thesis using quiet_step [OF quiet_refl [OF assms(2)], of c c] by (simp add: same_keys_def)
next
  case (Inr i)
  note o = assms(5) [unfolded easy_setopt_def Let_def Inr sum.case]
  consider (hd) "i = CURLOPT_HTTPHEADER" | (rc) "i = CURLOPT_MAIL_RCPT" | (other) "i \<noteq> CURLOPT_HTTPHEADER" "i \<noteq> CURLOPT_MAIL_RCPT" by blast
  then show ?thesis
  proof cases
    case hd
    from add_header [OF assms(1-4)] obtain p S1 where
      "setopt_list P CURLOPT_HTTPHEADER (headers c) (str_value w) c S = Some (Inr (p, S1))" "step_ok S c hs rs S1 (c\<lparr>headers := p\<rparr>)" by blast
    with o hd show ?thesis by simp
  next
    case rc
    from add_recipient [OF assms(1-4)] obtain p S1 where
      "setopt_list P CURLOPT_MAIL_RCPT (recipients c) (str_value w) c S = Some (Inr (p, S1))"
      "step_ok S c hs rs S1 (c\<lparr>recipients := p, isPosting := True\<rparr>)" by blast
    with o rc show ?thesis by simp
  next
    case other
    have "\<exists>os. setopts P (m_curl c) os S = Inr S' \<and> same_keys c c' \<and>
      (\<forall>(i, a) \<in> set os. i \<noteq> CURLOPT_HTTPHEADER \<and> i \<noteq> CURLOPT_MAIL_RCPT \<and> (\<forall>m. a = AMime (Some m) \<longrightarrow> mimes S m \<noteq> None))"
    proof (cases "i = CURLOPT_POSTFIELDS")
      case True
      with o show ?thesis
        by (intro exI [of _ "[(CURLOPT_POSTFIELDS, AChars Script_text (str_value w)), (CURLOPT_POSTFIELDSIZE, ALong (int (strlen (c_str (str_value w)))))]"])
          (auto simp: bindO_Inr_iff same_keys_def simp del: setopts.simps)
    next
      case False
      with o other show ?thesis
        by (intro exI [of _ "if type_code w = 1 then [(i, ALong (num_value w))] else if type_code w = 2 then [(i, AChars Script_text (str_value w))] else []"])
          (auto simp: bindO_Inr_iff same_keys_def simp del: setopts.simps)
    qed
    then obtain os where "setopts P (m_curl c) os S = Inr S'" "same_keys c c'"
      "\<forall>(i, a) \<in> set os. i \<noteq> CURLOPT_HTTPHEADER \<and> i \<noteq> CURLOPT_MAIL_RCPT \<and> (\<forall>m. a = AMime (Some m) \<longrightarrow> mimes S m \<noteq> None)" by blast
    with setopts_quiet [OF assms(2)] assms(3,4) show ?thesis by (intro quiet_step) auto
  qed
qed

lemma Debug_step:
  assumes "lib_ok S" "live_share S" "obj_ok S c hs rs" "Debug P v c S = Inr (r, c', S')"
  shows "step_ok S c hs rs S' c'"
proof -
  have "\<exists>f n. same_keys c c' \<and> (S' = S \<or> setopts P (m_curl c) [(CURLOPT_DEBUGFUNCTION, AFun f), (CURLOPT_VERBOSE, ALong n)] S = Inr S')"
    using assms(4) by (auto simp: Debug_def bindE_Inr_iff same_keys_def simp del: setopts.simps split: if_splits)
  then obtain f n where 1: "same_keys c c'"
    "S' = S \<or> setopts P (m_curl c) [(CURLOPT_DEBUGFUNCTION, AFun f), (CURLOPT_VERBOSE, ALong n)] S = Inr S'" by blast
  have "quiet S S'" using 1(2)
  proof
    assume "setopts P (m_curl c) [(CURLOPT_DEBUGFUNCTION, AFun f), (CURLOPT_VERBOSE, ALong n)] S = Inr S'"
    then show ?thesis by (rule setopts_quiet [OF assms(1)]) simp
  qed (simp add: quiet_refl assms(1))
  then show ?thesis using 1(1) assms(2,3) by (intro quiet_step)
qed

text \<open>Every call keeps the lists and handles of the other objects.\<close>

lemma quiet_more:
  assumes "lib_ok S"
  shows "quiet S (S\<lparr>isTrace := b\<rparr>)" "quiet S (S\<lparr>encoded_to := t\<rparr>)" "quiet S (S\<lparr>encoded_from := t\<rparr>)"
  using assms by (auto simp: quiet_def lib_ok_def bound_def posting_def)

definition simple_call :: "script_call \<Rightarrow> bool" where
  "simple_call f \<longleftrightarrow> (case f of
     Call_easy_cleanup \<Rightarrow> False | Call_easy_setopt _ _ \<Rightarrow> False | Call_easy_perform _ \<Rightarrow> False | Call_Debug _ \<Rightarrow> False
   | Call_ClearCache \<Rightarrow> False | Call_UseCache _ _ _ _ \<Rightarrow> False | Call_AddPart _ _ _ _ \<Rightarrow> False | _ \<Rightarrow> True)"

lemma run_call_quiet:
  assumes "lib_ok S" "simple_call f" "run_call P f c S = Some (Inr (r, c', S'))"
  shows "quiet S S' \<and> same_keys c c'"
  using assms
  by (cases f) (auto simp: simple_call_def easy_init_def Trace_def StatusLine_def mime_init_def with_source_def with_dest_def
    ToBase64_def FromBase64_def Let_def bindE_Inr_iff bindO_Inr_iff same_keys_def quiet_refl quiet_more split: if_splits)

lemma run_call_step:
  assumes "platform_ok P" "lib_ok S" "live_share S" "obj_ok S c hs rs" "run_call P f c S = Some (Inr (r, c', S'))"
  shows "step_ok S c hs rs S' c'"
proof (cases "simple_call f")
  case True
  with run_call_quiet [OF assms(2) _ assms(5)] assms(3,4) show ?thesis by (intro quiet_step) auto
next
  case False
  then show ?thesis
  proof (cases f)
    case Call_easy_cleanup
    with assms(5) easy_cleanup_ok [OF assms(1-4)] show ?thesis by auto
  next
    case (Call_easy_setopt v w)
    with assms(5) have "easy_setopt P v w c S = Some (Inr (r, c', S'))" by simp
    then show ?thesis by (rule easy_setopt_step [OF assms(1-4)])
  next
    case (Call_easy_perform a)
    with assms(5) obtain b where "easy_perform P a c S = Inr (b, r, c', S')" by (auto simp: bindE_Inr_iff)
    from easy_perform_quiet [OF assms(2) _ this] obj_okD(7) [OF assms(4)] show ?thesis by (intro quiet_step [OF _ _ assms(4,3)]) blast+
  next
    case (Call_Debug v)
    with assms(5) show ?thesis by (intro Debug_step [OF assms(2-4)]) simp
  next
    case Call_ClearCache
    with assms(5) ClearCache_step [OF assms(1-4)] show ?thesis by auto
  next
    case (Call_UseCache p0 p1 p2 p3)
    with assms(5) UseCache_step [OF assms(1-4), of p0 p1 p2 p3] show ?thesis by auto
  next
    case (Call_AddPart p0 p1 p2 p3)
    with assms(5) AddPart_step [OF assms(2-4), of P p0 p1 p2 p3] show ?thesis by auto
  qed (simp_all add: simple_call_def)
qed

text \<open>Creating an object is a step of an object with no pointers at all.\<close>

definition no_pointers :: "CcURL \<Rightarrow> bool" where
  "no_pointers c \<longleftrightarrow> m_curl c = None \<and> m_mime c = None \<and> p_mime (pCurlMime c) = None \<and> headers c = None \<and> recipients c = None"

lemma list_at_Nil [simp]: "list_at S None []"
  unfolding list_at_def by (rule exI [of _ "[]"]) simp

lemma list_at_None: "list_at S None as \<Longrightarrow> as = []"
  unfolding list_at_def by (elim exE, cases as) (auto elim: slist_at.elims)

lemma new_mime_ok:
  assumes "platform_ok P" "lib_ok S"
  shows "\<exists>m M. curl_mime_init (new_mime P (mimes S)) S = (m, S\<lparr>mimes := M\<rparr>) \<and> lib_ok (S\<lparr>mimes := M\<rparr>) \<and>
    dom (mimes S) \<subseteq> dom M \<and> (\<forall>a. m = Some a \<longrightarrow> M a \<noteq> None)"
proof (cases "new_mime P (mimes S)")
  case None
  with assms(2) show ?thesis by (intro exI [of _ None] exI [of _ "mimes S"]) (simp add: curl_mime_init_def)
next
  case (Some a)
  note a = platform_okD(4) [OF assms(1) Some]
  from mime_init_ok [OF assms(2) a] Some show ?thesis
    by (intro exI [of _ "Some a"] exI [of _ "(mimes S)(a \<mapsto> \<lparr>mime_parent = None, mime_parts = []\<rparr>)"]) (auto simp: curl_mime_init_def)
qed

lemma CcURL_new_step:
  fixes S :: "'a process_scheme"
  assumes "platform_ok P" "lib_ok S" "live_share S" "no_pointers c0"
  shows "\<exists>c S'. CcURL_new P post0 status S = Some (Inr (c, S')) \<and> step_ok S c0 [] [] S' c"
proof -
  from new_handle_ok [OF assms(1,2)] obtain h E F where
    1: "curl_easy_init (new_handle P (links S)) S = (h, S\<lparr>links := E, sets := F\<rparr>)" "lib_ok (S\<lparr>links := E, sets := F\<rparr>)"
      "\<forall>k s. sets S k = Some s \<longrightarrow> F k = Some s" "\<forall>k. h = Some k \<longrightarrow> sets S k = None \<and> F k = Some Curl_init_userdefined" by blast
  let ?S1 = "S\<lparr>links := E, sets := F\<rparr>"
  have "live_share ?S1" using assms(3) by (simp add: live_share_def)
  from AssignCurlCache_ok [OF 1(2) this _ platform_okD(3) [OF assms(1)], of h] 1(4) obtain S2 where
    2: "AssignCurlCache P h ?S1 = Inr S2" "lib_ok S2" "live_share S2" "sets S2 = F" "mimes S2 = mimes S" "lists S2 = lists S" by auto
  let ?S2 = "S2\<lparr>isTrace := False\<rparr>"
  from append_list [OF platform_okD(5) [OF assms(1)] list_at_Nil [of ?S2], of "bytes_of ''pragma:''"] 2(6) obtain p l hs where
    3: "slist_append P None (bytes_of ''pragma:'') ?S2 = Some (Inr (p, ?S2\<lparr>lists := l\<rparr>))" "list_at (?S2\<lparr>lists := l\<rparr>) p hs" "distinct hs"
      "set hs \<inter> dom (lists S) \<subseteq> {}" "\<forall>b. b \<in> dom (lists S) \<longrightarrow> l b = lists S b" by auto
  define S3 where "S3 = ?S2\<lparr>lists := l\<rparr>"
  have S3: "lib_ok S3" "live_share S3" "sets S3 = F" "mimes S3 = mimes S" "lists S3 = l"
    using 2(2-5) by (simp_all add: S3_def lib_ok_def bound_def posting_def live_share_def)
  from new_mime_ok [OF assms(1) S3(1)] S3(4) obtain m M where
    4: "curl_mime_init (new_mime P (mimes S3)) S3 = (m, S3\<lparr>mimes := M\<rparr>)" "lib_ok (S3\<lparr>mimes := M\<rparr>)"
      "dom (mimes S) \<subseteq> dom M" "\<forall>a. m = Some a \<longrightarrow> M a \<noteq> None" by auto
  from default_setopts [OF 4(2) _ default_plain(2), of h P] 1(4) S3(3) obtain G where
    5: "setopts P h (default_options @ [(CURLOPT_FOLLOWLOCATION, ALong 1)]) (S3\<lparr>mimes := M\<rparr>) = Inr (S3\<lparr>mimes := M, sets := G\<rparr>)"
      "lib_ok (S3\<lparr>mimes := M, sets := G\<rparr>)" "\<forall>k. Some k \<noteq> h \<longrightarrow> G k = F k"
      "\<forall>k. h = Some k \<longrightarrow> (\<exists>s. G k = Some s \<and> set_headers s = None \<and> mail_rcpt s = None)" by auto
  let ?S5 = "S3\<lparr>mimes := M, sets := G\<rparr>"
  define c where "c = \<lparr>m_curl = h, m_mime = m, m_trace = False, PostFildsData = [], post_buffer = 0, m_StatusLine = status,
          isPosting = post0, isMultipart = False, pSrc = new_CCurlValue ttSrc, pDest = new_CCurlValue ttDest,
          pTrace = (new_CCurlValue ttTrace)\<lparr>Type := ttMsg\<rparr>, pCurlMime = \<lparr>p_curl = h, p_mime = m\<rparr>,
          headers = p, recipients = None\<rparr>"
  have new: "CcURL_new P post0 status S = Some (Inr (c, ?S5))"
    unfolding CcURL_new_def 1(1) prod.case Let_def 2(1) bindO_simps 3(1) S3_def [symmetric] 4(1) 5(1) c_def ..
  have "list_at ?S5 p hs" using 3(2) by (simp add: S3_def list_at_def)
  then have obj: "obj_ok ?S5 c hs []"
    using 3(3) 4(4) 5(4) by (auto simp: obj_ok_def pointers_ok_def c_def)
  have keep: "\<exists>s'. sets ?S5 k = Some s' \<and> set_headers s' = set_headers s \<and> mail_rcpt s' = mail_rcpt s" if "sets S k = Some s" for k s
    using that 1(3,4) 5(3) by (cases "Some k = h") auto
  have "step_ok S c0 [] [] ?S5 c"
  proof (rule step_okI [OF 5(2) _ obj])
    show "live_share ?S5" using S3(2) by (simp add: live_share_def)
    show "set (hs @ []) \<inter> dom (lists S) \<subseteq> set ([] @ [])" using 3(4) by simp
    show "lists ?S5 b = lists S b" if "b \<in> dom (lists S)" for b using that 3(5) S3(5) by simp
    show "dom (mimes S) \<subseteq> dom (mimes ?S5)" using 4(3) by simp
    show "m_curl c = None \<or> m_curl c = m_curl c0 \<or> (\<exists>k. m_curl c = Some k \<and> sets S k = None)"
      using 1(4) by (cases h) (auto simp: c_def)
  qed (use keep in simp_all)
  with new show ?thesis by blast
qed

section \<open>All states that scripts reach\<close>

lemma world_ok_blank:
  assumes "world_ok S C" "C k = None" "no_pointers c0"
  shows "world_ok S (C(k \<mapsto> c0))"
proof -
  from assms(1) obtain hs rs where w: "lib_ok S" "live_share S" "\<And>l d. C l = Some d \<Longrightarrow> obj_ok S d (hs l) (rs l)"
    "\<And>l m d e. C l = Some d \<Longrightarrow> C m = Some e \<Longrightarrow> l \<noteq> m \<Longrightarrow>
       set (hs l @ rs l) \<inter> set (hs m @ rs m) = {} \<and> (m_curl d = None \<or> m_curl d \<noteq> m_curl e)"
    unfolding world_ok_def by blast
  have "obj_ok S c0 [] []" using assms(3) by (simp add: obj_ok_def pointers_ok_def no_pointers_def)
  with w assms(2,3) show ?thesis unfolding world_ok_def
    by (intro conjI exI [of _ "hs(k := [])"] exI [of _ "rs(k := [])"]) (auto simp: no_pointers_def)
qed

lemma world_ok_script_step:
  assumes "platform_ok P" "script_step P w w'" "world_ok (fst w) (snd w)"
  shows "world_ok (fst w') (snd w')"
  using assms(2,3)
proof cases
  case (create C k post0 status S c S')
  define c0 where "c0 = c\<lparr>m_curl := None, m_mime := None, pCurlMime := \<lparr>p_curl = None, p_mime = None\<rparr>, headers := None, recipients := None\<rparr>"
  have b: "no_pointers c0" by (simp add: no_pointers_def c0_def)
  have w: "world_ok S C" using assms(3) create by simp
  have "step_ok S c0 hs rs S' c" if o: "obj_ok S c0 hs rs" for hs rs
  proof -
    have "hs = []" "rs = []" using obj_okD(1,2) [OF o] by (simp_all add: c0_def list_at_None)
    moreover have "step_ok S c0 [] [] S' c"
      using CcURL_new_step [OF assms(1) _ _ b, of S post0 status] w create by (auto simp: world_ok_def)
    ultimately show ?thesis by simp
  qed
  from world_ok_step [OF world_ok_blank [OF w create(3) b], of k c0 S' c] this create show ?thesis by simp
next
  case (call C k c f S r c' S')
  with assms(3) have w: "world_ok S C" by simp
  then have l: "lib_ok S" "live_share S" by (simp_all add: world_ok_def)
  from world_ok_step [OF w _ call(3)] run_call_step [OF assms(1) l _ call(4)] call show ?thesis by simp
qed

lemma DllMain_attach_ok:
  assumes "platform_ok P"
  shows "\<exists>S. DllMain_attach P (process_start files) = Inr S \<and> world_ok S Map.empty"
proof -
  let ?S0 = "process_start files"
  from init_share_ok [OF lib_ok_start platform_okD(3) [OF assms], of files] obtain p sh where
    1: "init_share P ?S0 = (p, ?S0\<lparr>shares := sh\<rparr>)" "lib_ok (?S0\<lparr>shares := sh\<rparr>)" "\<forall>a. p = Some a \<longrightarrow> sh a \<noteq> None" by blast
  define os where "os = [CURLSHOPT_SHARE CURL_LOCK_DATA_DNS, CURLSHOPT_SHARE CURL_LOCK_DATA_CONNECT, CURLSHOPT_SHARE CURL_LOCK_DATA_SSL_SESSION]"
  define S1 where "S1 = ?S0\<lparr>shares := sh, CurlShare := p\<rparr>"
  have S1: "lib_ok S1" "shares S1 = sh" "CurlShare S1 = p" using 1(2) by (simp_all add: S1_def lib_ok_def bound_def posting_def)
  have live: "\<forall>a. p = Some a \<longrightarrow> shares S1 a \<noteq> None" using 1(3) S1(2) by simp
  from share_setopts_ok [OF S1(1) live] obtain sh' where
    2: "share_setopts P p os S1 = Inr (S1\<lparr>shares := sh'\<rparr>)" "lib_ok (S1\<lparr>shares := sh'\<rparr>)" "dom sh' = dom sh"
    unfolding S1(2) by blast
  have "S1 = ?S0\<lparr>shares := sh\<rparr>\<lparr>CurlShare := p\<rparr>" by (simp add: S1_def)
  then have att: "DllMain_attach P ?S0 = share_setopts P p os S1" unfolding DllMain_attach_def 1(1) prod.case Let_def os_def by simp
  define S where S: "S = S1\<lparr>shares := sh'\<rparr>"
  have "live_share S" unfolding live_share_def
  proof (intro allI impI)
    fix a assume "CurlShare S = Some a"
    then have "a \<in> dom sh" using 1(3) S1(3) by (auto simp: S)
    then show "shares S a \<noteq> None" unfolding 2(3) [symmetric] by (auto simp: S)
  qed
  then have "world_ok S Map.empty" using 2(2) by (simp add: world_ok_def S)
  with att 2(1) S show ?thesis by (intro exI [of _ S]) simp
qed

lemma script_reach_ok:
  assumes "platform_ok P" "script_reach P w"
  shows "world_ok (fst w) (snd w)"
  using assms(2)
proof induction
  case (attach files S)
  with DllMain_attach_ok [OF assms(1), of files] show ?case by auto
next
  case (step w w')
  then show ?case using world_ok_script_step [OF assms(1)] by blast
qed

section \<open>What a script sees of the lists\<close>

lemma header_rows_list:
  "slist_at l (Some a) (a # as) (x # xs) \<Longrightarrow> header_rows l a rows = Some (Inr (rows @ map c_str xs))"
proof (induction as arbitrary: a x xs rows)
  case Nil
  then have "\<exists>n. l a = Some n \<and> sl_next n = None" "xs = []" by (cases xs; auto split: option.splits)+
  then show ?case by (subst header_rows.simps) auto
next
  case (Cons b as)
  from Cons.prems obtain n y ys where n: "l a = Some n" "xs = y # ys" "slist_at l (sl_next n) (b # as) (y # ys)"
    by (cases xs) (auto split: option.splits)
  then obtain n1 where n1: "sl_next n = Some b" "l b = Some n1" "sl_data n1 = y" by (auto split: option.splits)
  with n Cons.IH [of b y ys] show ?case by (subst header_rows.simps) simp
qed

lemma GetHeaders_list:
  assumes "slist_at (lists S) (headers c) as xs"
  shows "GetHeaders c S = Some (Inr (case xs of [] \<Rightarrow> Fails | _ # ys \<Rightarrow> Returns (Strings (map c_str ys))))"
proof (cases as)
  case Nil
  with assms show ?thesis by (cases xs) (simp_all add: GetHeaders_def)
next
  case (Cons a bs)
  with assms obtain y ys where "xs = y # ys" "headers c = Some a" by (cases xs) auto
  with Cons assms header_rows_list [of "lists S" a bs y ys "[]"] show ?thesis by (simp add: GetHeaders_def)
qed

lemma CcURL_delete_ok:
  assumes "lib_ok S" "obj_ok S c hs rs"
  shows "CcURL_delete c S = Some (Inl BadDelete)"
proof -
  note o = obj_okD [OF assms(2)]
  let ?S1 = "S\<lparr>lists := lists S |` (- set hs)\<rparr>"
  have "list_at ?S1 (recipients c) rs"
    using o(2,5) by (intro list_at_cong [of rs ?S1 S]) (auto simp: restrict_map_def disjoint_iff)
  note f = free_list [OF o(1,3)] free_list [OF this o(4)]
  define S2 where "S2 = ?S1\<lparr>lists := lists ?S1 |` (- set rs)\<rparr>"
  have S2: "lib_ok S2" "sets S2 = sets S" using assms(1) by (simp_all add: S2_def)
  have "\<exists>S3. curl_easy_cleanup (m_curl c) S2 = Inr S3"
  proof (cases "m_curl c")
    case None
    then show ?thesis by (simp add: curl_easy_cleanup_def)
  next
    case (Some h)
    with o(6) S2(2) obtain s where "sets S2 h = Some s" by (auto simp: pointers_ok_def)
    from Curl_close_ok [OF S2(1) this] show ?thesis unfolding Some by blast
  qed
  then obtain S3 where "curl_easy_cleanup (m_curl c) S2 = Inr S3" ..
  then show ?thesis unfolding CcURL_delete_def f bindO_simps S2_def [symmetric] by simp
qed

lemma step_ok_GetHeaders:
  assumes "step_ok S c hs rs S' c'" "obj_ok S d as bs" "set (as @ bs) \<inter> set (hs @ rs) = {}"
  shows "GetHeaders d S' = GetHeaders d S"
proof -
  from assms(2) obtain xs where xs: "slist_at (lists S) (headers d) as xs" by (auto simp: obj_ok_def list_at_def)
  have "lists S b = lists S' b" if "b \<in> set as" for b
    using assms(1,3) obj_ok_dom [OF assms(2)] that unfolding step_ok_def by (simp add: disjoint_iff subset_iff)
  from slist_at_cong [OF this] xs have "slist_at (lists S') (headers d) as xs" by simp
  with xs show ?thesis by (simp add: GetHeaders_list)
qed

lemma script_reachD:
  assumes "platform_ok P" "script_reach P (S, C)"
  shows "lib_ok S" "live_share S" "C k = Some c \<Longrightarrow> \<exists>hs rs. obj_ok S c hs rs"
proof -
  have "world_ok S C" using script_reach_ok [OF assms] by simp
  then show "lib_ok S" "live_share S" "C k = Some c \<Longrightarrow> \<exists>hs rs. obj_ok S c hs rs" unfolding world_ok_def by blast+
qed

end
