(* ===== verification/Spec2Isabelle.thy ===== *)
theory Spec2Isabelle
imports Base64 NoCaseMap IStrMap Collection Dispatch Options Curl_Base64 Script_Invariant
begin

text \<open>
  A verification development for the curl component.
\<close>

end
